(* ===== verification/Prelude.thy ===== *)
theory Prelude
  imports Main "HOL-Library.Word" "HOL-Library.Sublist"
begin

text \<open>
  Shared vocabulary of the development: the machine types of the Go sources, the outcome of a
  Go call (a value, an error value or a panic), the built-in \<^verbatim>\<open>copy\<close>, the fixed-width integer
  codecs of \<^verbatim>\<open>encoding/binary\<close>, and Go maps with an explicit iteration order. The generic lemmas
  on lists, words and maps that several components use live here, in the simpset or in the
  collections \<open>outcome_simps\<close>, \<open>codec_simps\<close> and \<open>copy_simps\<close>.
\<close>

unbundle bit_operations_syntax

named_theorems outcome_simps "rewriting of sequenced fallible calls"
named_theorems codec_simps "lengths and round trips of fixed-width integer codecs"
named_theorems copy_simps "the built-in copy on slices"

section \<open>Machine types\<close>

type_synonym byte = "8 word"
type_synonym u16 = "16 word"
type_synonym u32 = "32 word"
type_synonym u64 = "64 word"
type_synonym bytes = "byte list"

text \<open>
  A Go \<^verbatim>\<open>int\<close> that only ever holds a length or an index is modelled by \<open>int\<close>: its values are bounded
  by the length of a slice, far below \<open>2^63\<close>. Go's \<^verbatim>\<open>/\<close> and \<^verbatim>\<open>%\<close> truncate towards zero.
\<close>

definition goquot :: "int \<Rightarrow> int \<Rightarrow> int" where
  "goquot a b = sgn a * sgn b * (\<bar>a\<bar> div \<bar>b\<bar>)"

definition gorem :: "int \<Rightarrow> int \<Rightarrow> int" where
  "gorem a b = a - b * goquot a b"

lemma goquot_nonneg: "0 \<le> a \<Longrightarrow> 0 < b \<Longrightarrow> goquot a b = a div b"
  by (cases "a = 0") (simp_all add: goquot_def sgn_if)

lemma gorem_nonneg: "0 \<le> a \<Longrightarrow> 0 < b \<Longrightarrow> gorem a b = a mod b"
  by (simp add: gorem_def goquot_nonneg minus_mult_div_eq_mod)

text \<open>Time is in nanoseconds; \<^verbatim>\<open>Time.Sub\<close> saturates.\<close>

definition time_Sub :: "int \<Rightarrow> int \<Rightarrow> int" where
  "time_Sub t u = max (- (2 ^ 63)) (min (2 ^ 63 - 1) (t - u))"

section \<open>Outcomes of Go calls\<close>

text \<open>
  A Go function that returns \<open>(T, error)\<close> and may also panic has three kinds of outcome.
  A panic unwinds the goroutine: nothing after it runs, which is what \<open>obind\<close> expresses.
\<close>

datatype ('e, 'a) outcome = Ok 'a | Err 'e | Panic

fun obind :: "('e, 'a) outcome \<Rightarrow> ('a \<Rightarrow> ('e, 'b) outcome) \<Rightarrow> ('e, 'b) outcome" where
  "obind (Ok x) f = f x"
| "obind (Err e) f = Err e"
| "obind Panic f = Panic"

lemma obind_cong [fundef_cong]:
  "m = m' \<Longrightarrow> (\<And>x. m' = Ok x \<Longrightarrow> f x = f' x) \<Longrightarrow> obind m f = obind m' f'"
  by (cases m') auto

lemma obind_eq_Ok [outcome_simps]:
  "obind m f = Ok y \<longleftrightarrow> (\<exists>x. m = Ok x \<and> f x = Ok y)"
  by (cases m) auto

lemma obind_eq_Err [outcome_simps]:
  "obind m f = Err e \<longleftrightarrow> m = Err e \<or> (\<exists>x. m = Ok x \<and> f x = Err e)"
  by (cases m) auto

lemma obind_eq_Panic [outcome_simps]:
  "obind m f = Panic \<longleftrightarrow> m = Panic \<or> (\<exists>x. m = Ok x \<and> f x = Panic)"
  by (cases m) auto

lemma obind_assoc: "obind (obind m f) g = obind m (\<lambda>x. obind (f x) g)"
  by (cases m) auto

text \<open>Wrapping an error, as \<^verbatim>\<open>errors.Wrap\<close> and conversions of error types do.\<close>

fun err_map :: "('e \<Rightarrow> 'f) \<Rightarrow> ('e, 'a) outcome \<Rightarrow> ('f, 'a) outcome" where
  "err_map f (Ok x) = Ok x"
| "err_map f (Err e) = Err (f e)"
| "err_map f Panic = Panic"

lemma err_map_eq [outcome_simps]:
  "err_map f m = Ok x \<longleftrightarrow> m = Ok x" "err_map f m = Panic \<longleftrightarrow> m = Panic" "err_map f m = Err e \<longleftrightarrow> (\<exists>e'. m = Err e' \<and> e = f e')"
  by (cases m; auto)+

fun is_ok :: "('e, 'a) outcome \<Rightarrow> bool" where
  "is_ok (Ok _) = True"
| "is_ok _ = False"

lemma is_ok_iff: "is_ok m \<longleftrightarrow> (\<exists>x. m = Ok x)"
  by (cases m) auto

text \<open>A \<^verbatim>\<open>for range\<close> loop whose body may return early with an error or panic.\<close>

fun ofold :: "('x \<Rightarrow> 's \<Rightarrow> ('e, 's) outcome) \<Rightarrow> 'x list \<Rightarrow> 's \<Rightarrow> ('e, 's) outcome" where
  "ofold f [] s = Ok s"
| "ofold f (x # xs) s = obind (f x s) (ofold f xs)"

lemma ofold_append: "ofold f (xs @ ys) s = obind (ofold f xs s) (ofold f ys)"
  by (induction xs arbitrary: s) (auto simp: obind_assoc intro!: obind_cong)

lemma ofold_invariant:
  assumes "ofold f xs s = Ok s'" "P s" "\<And>x s s'. x \<in> set xs \<Longrightarrow> P s \<Longrightarrow> f x s = Ok s' \<Longrightarrow> P s'"
  shows "P s'"
  using assms
proof (induction xs arbitrary: s)
  case (Cons x xs)
  then obtain s1 where s1: "f x s = Ok s1" "ofold f xs s1 = Ok s'"
    by (auto simp: outcome_simps)
  then have "P s1" using Cons.prems by auto
  with s1(2) show ?case using Cons.IH Cons.prems(3) by auto
qed simp

text \<open>
  A function that cannot return an error but may panic has an \<open>option\<close> result, \<open>None\<close> being the
  panic; \<open>unwinds\<close> uses it inside a function that can also return errors.
\<close>

fun unwinds :: "'a option \<Rightarrow> ('e, 'a) outcome" where
  "unwinds None = Panic"
| "unwinds (Some x) = Ok x"

lemma unwinds_eq [outcome_simps]:
  "unwinds m = Ok x \<longleftrightarrow> m = Some x" "unwinds m = Panic \<longleftrightarrow> m = None" "unwinds m \<noteq> Err e"
  by (cases m; simp)+

fun pfold :: "('x \<Rightarrow> 's \<Rightarrow> 's option) \<Rightarrow> 'x list \<Rightarrow> 's \<Rightarrow> 's option" where
  "pfold f [] s = Some s"
| "pfold f (x # xs) s = Option.bind (f x s) (pfold f xs)"

lemma pfold_append: "pfold f (xs @ ys) s = Option.bind (pfold f xs s) (pfold f ys)"
  by (induction xs arbitrary: s) (auto simp: bind_eq_None_conv split: Option.bind_splits)

lemma pfold_cong [fundef_cong]:
  "xs = ys \<Longrightarrow> s = t \<Longrightarrow> (\<And>x s. x \<in> set ys \<Longrightarrow> f x s = g x s) \<Longrightarrow> pfold f xs s = pfold g ys t"
proof (induction xs arbitrary: s t ys)
  case (Cons x xs)
  then have "pfold f xs u = pfold g xs u" for u by auto
  with Cons.prems show ?case by (auto split: Option.bind_splits)
qed auto

lemma pfold_map: "pfold f (map h xs) s = pfold (\<lambda>x. f (h x)) xs s"
  by (induction xs arbitrary: s) (auto split: Option.bind_splits)

section \<open>The built-in copy\<close>

text \<open>
  \<^verbatim>\<open>copy(dst, src)\<close> overwrites the first \<open>min (len dst) (len src)\<close> elements of \<open>dst\<close>; the model
  returns the new contents of \<open>dst\<close>.
\<close>

definition gocopy :: "'a list \<Rightarrow> 'a list \<Rightarrow> 'a list" where
  "gocopy dst src = take (length dst) src @ drop (length src) dst"

lemma length_gocopy [copy_simps, simp]: "length (gocopy dst src) = length dst"
  by (simp add: gocopy_def)

lemma gocopy_exact [copy_simps]: "length src = length dst \<Longrightarrow> gocopy dst src = src"
  by (simp add: gocopy_def)

lemma gocopy_long [copy_simps]: "length dst \<le> length src \<Longrightarrow> gocopy dst src = take (length dst) src"
  by (simp add: gocopy_def)

lemma gocopy_short [copy_simps]: "length src \<le> length dst \<Longrightarrow> gocopy dst src = src @ drop (length src) dst"
  by (simp add: gocopy_def)

text \<open>\<^verbatim>\<open>copy(dst[i:j], src)\<close> on a subslice shares the backing array of \<open>dst\<close>.\<close>

definition gocopy_at :: "'a list \<Rightarrow> nat \<Rightarrow> nat \<Rightarrow> 'a list \<Rightarrow> 'a list" where
  "gocopy_at dst i j src = take i dst @ gocopy (take (j - i) (drop i dst)) src @ drop j dst"

lemma length_gocopy_at [copy_simps, simp]:
  "i \<le> j \<Longrightarrow> j \<le> length dst \<Longrightarrow> length (gocopy_at dst i j src) = length dst"
  by (simp add: gocopy_at_def)

lemma gocopy_at_inside [copy_simps]:
  "i \<le> j \<Longrightarrow> j \<le> length dst \<Longrightarrow> length src = j - i \<Longrightarrow>
   take (j - i) (drop i (gocopy_at dst i j src)) = src"
  by (simp add: gocopy_at_def gocopy_def)

lemma gocopy_at_before [copy_simps]:
  "k \<le> i \<Longrightarrow> i \<le> length dst \<Longrightarrow> take k (gocopy_at dst i j src) = take k dst"
  by (simp add: gocopy_at_def)

lemma gocopy_at_after [copy_simps]:
  "i \<le> j \<Longrightarrow> j \<le> length dst \<Longrightarrow> drop j (gocopy_at dst i j src) = drop j dst"
  by (simp add: gocopy_at_def)

section \<open>Fixed-width integers on the wire\<close>

text \<open>\<^verbatim>\<open>binary.BigEndian.PutUint32\<close> and \<^verbatim>\<open>Uint32\<close>; the slice has at least four bytes.\<close>

definition put_be32 :: "u32 \<Rightarrow> bytes" where
  "put_be32 v = [ucast (drop_bit 24 v), ucast (drop_bit 16 v), ucast (drop_bit 8 v), ucast v]"

fun get_be32 :: "bytes \<Rightarrow> u32" where
  "get_be32 (a # b # c # d # _) =
     ucast d OR push_bit 8 (ucast c) OR push_bit 16 (ucast b) OR push_bit 24 (ucast a)"
| "get_be32 _ = 0"

definition put_be64 :: "u64 \<Rightarrow> bytes" where
  "put_be64 v =
     [ucast (drop_bit 56 v), ucast (drop_bit 48 v), ucast (drop_bit 40 v), ucast (drop_bit 32 v),
      ucast (drop_bit 24 v), ucast (drop_bit 16 v), ucast (drop_bit 8 v), ucast v]"

text \<open>\<^verbatim>\<open>binary.LittleEndian.AppendUint16\<close> and \<^verbatim>\<open>Uint16\<close>.\<close>

definition put_le16 :: "u16 \<Rightarrow> bytes" where
  "put_le16 v = [ucast v, ucast (drop_bit 8 v)]"

fun get_le16 :: "bytes \<Rightarrow> u16" where
  "get_le16 (a # b # _) = ucast a OR push_bit 8 (ucast b)"
| "get_le16 _ = 0"

lemma length_put [codec_simps, simp]:
  "length (put_be32 v) = 4" "length (put_be64 w) = 8" "length (put_le16 x) = 2"
  by (simp_all add: put_be32_def put_be64_def put_le16_def)

lemma get_put_be32 [codec_simps, simp]: "get_be32 (put_be32 v @ rest) = v"
proof -
  have "get_be32 (put_be32 v @ rest) =
    ucast (ucast v :: byte) OR push_bit 8 (ucast (ucast (drop_bit 8 v) :: byte)) OR
    push_bit 16 (ucast (ucast (drop_bit 16 v) :: byte)) OR
    push_bit 24 (ucast (ucast (drop_bit 24 v) :: byte))"
    by (simp add: put_be32_def)
  also have "\<dots> = v" (is "?w = v")
  proof (rule bit_word_eqI)
    fix n assume "n < LENGTH(32)"
    then consider "n < 8" | "8 \<le> n" "n < 16" | "16 \<le> n" "n < 24" | "24 \<le> n" "n < 32"
      by fastforce
    then show "bit ?w n = bit v n"
      by cases (auto simp: bit_simps)
  qed
  finally show ?thesis .
qed

lemma get_put_be32_exact [codec_simps, simp]: "get_be32 (put_be32 v) = v"
  using get_put_be32 [of v "[]"] by simp

lemma put_be32_inj: "put_be32 v = put_be32 w \<Longrightarrow> v = w"
  using get_put_be32_exact by metis

lemma put_get_be32 [codec_simps]: "length bs = 4 \<Longrightarrow> put_be32 (get_be32 bs) = bs"
  by (cases bs rule: get_be32.cases; simp add: put_be32_def)
    (intro conjI; rule bit_word_eqI; auto simp: bit_simps dest: bit_imp_le_length)

lemma get_be32_append: "length bs = 4 \<Longrightarrow> get_be32 (bs @ rest) = get_be32 bs"
  by (cases bs rule: get_be32.cases) auto

lemma get_be32_take: "4 \<le> length bs \<Longrightarrow> get_be32 (take 4 bs) = get_be32 bs"
  by (cases bs rule: get_be32.cases) (auto simp: numeral_eq_Suc)

lemma get_put_le16 [codec_simps, simp]: "get_le16 (put_le16 v @ rest) = v"
proof -
  have "get_le16 (put_le16 v @ rest) = ucast (ucast v :: byte) OR push_bit 8 (ucast (ucast (drop_bit 8 v) :: byte))"
    by (simp add: put_le16_def)
  also have "\<dots> = v"
    by (rule bit_word_eqI) (auto simp: bit_simps not_less le_add_diff_inverse)
  finally show ?thesis .
qed

lemma unat_of_nat_small: "n < 2 ^ LENGTH('a) \<Longrightarrow> unat (of_nat n :: 'a::len word) = n"
  by (simp add: unat_of_nat take_bit_eq_mod)

section \<open>Go maps\<close>

text \<open>
  A Go map is a finite map \<open>'k \<rightharpoonup> 'v\<close>. \<^verbatim>\<open>for k := range m\<close> visits every key once, in an order
  the language does not specify; an operation that iterates takes the order as an argument.
\<close>

definition enumerates :: "'k list \<Rightarrow> ('k \<rightharpoonup> 'v) \<Rightarrow> bool" where
  "enumerates ks m \<longleftrightarrow> distinct ks \<and> set ks = dom m"

lemma enumerates_in_dom: "enumerates ks m \<Longrightarrow> k \<in> set ks \<longleftrightarrow> (\<exists>v. m k = Some v)"
  by (auto simp: enumerates_def)

lemma enumerates_finite: "enumerates ks m \<Longrightarrow> finite (dom m)"
  by (metis enumerates_def List.finite_set)

section \<open>Lists\<close>

lemma take_eq_iff_prefix: "take (length ps) xs = ps \<longleftrightarrow> prefix ps xs"
  by (metis append_eq_conv_conj prefix_def take_is_prefix)

lemma find_Some_set: "find P xs = Some x \<Longrightarrow> x \<in> set xs \<and> P x"
  by (induction xs) (auto split: if_splits)

section \<open>Strings and slices\<close>

text \<open>Conversions between a Go \<^verbatim>\<open>string\<close> and its bytes.\<close>

definition bytes_of_string :: "string \<Rightarrow> bytes" where
  "bytes_of_string s = map (\<lambda>c. of_nat (of_char c)) s"

definition string_of_bytes :: "bytes \<Rightarrow> string" where
  "string_of_bytes bs = map (\<lambda>b. char_of (unat b)) bs"

lemma length_string_conv [simp]:
  "length (bytes_of_string s) = length s" "length (string_of_bytes bs) = length bs"
  by (simp_all add: bytes_of_string_def string_of_bytes_def)

lemma string_of_bytes_of_string [simp]: "string_of_bytes (bytes_of_string s) = s"
proof -
  have "char_of (unat (of_nat (of_char c) :: byte)) = c" for c
    using nat_of_char_less_256 [of c] by (simp add: unat_of_nat_small)
  then show ?thesis by (simp add: string_of_bytes_def bytes_of_string_def map_idI)
qed

lemma bytes_of_string_of_bytes [simp]: "bytes_of_string (string_of_bytes bs) = bs"
proof -
  have "of_nat (of_char (char_of (unat b))) = b" for b :: byte
    using unsigned_less [of b, where ?'a = nat] by simp
  then show ?thesis by (simp add: string_of_bytes_def bytes_of_string_def map_idI)
qed

lemma bytes_of_string_inj: "bytes_of_string s = bytes_of_string t \<longleftrightarrow> s = t"
  by (metis string_of_bytes_of_string)

text \<open>
  The slice expression \<^verbatim>\<open>x[i:j]\<close>. The model takes the capacity of a slice to be its length, so an
  upper bound beyond the length panics.
\<close>

definition goslice :: "'a list \<Rightarrow> nat \<Rightarrow> nat \<Rightarrow> 'a list option" where
  "goslice xs i j = (if i \<le> j \<and> j \<le> length xs then Some (take (j - i) (drop i xs)) else None)"

text \<open>The index expression \<^verbatim>\<open>x[i]\<close>.\<close>

definition goindex :: "'a list \<Rightarrow> nat \<Rightarrow> 'a option" where
  "goindex xs i = (if i < length xs then Some (xs ! i) else None)"

lemma goslice_append: "goslice (xs @ ys @ zs) (length xs) (length xs + length ys) = Some ys"
  by (simp add: goslice_def)

section \<open>Splitting and joining text\<close>

text \<open>\<^verbatim>\<open>strings.Join\<close>\<close>

fun strings_Join :: "string list \<Rightarrow> string \<Rightarrow> string" where
  "strings_Join [] sep = []"
| "strings_Join [x] sep = x"
| "strings_Join (x # y # ys) sep = x @ sep @ strings_Join (y # ys) sep"

text \<open>\<^verbatim>\<open>bytes.Split\<close> at a one-byte separator: one more part than there are separators.\<close>

fun bytes_Split :: "string \<Rightarrow> char \<Rightarrow> string list" where
  "bytes_Split [] sep = [[]]"
| "bytes_Split (c # cs) sep =
     (if c = sep then [] # bytes_Split cs sep
      else case bytes_Split cs sep of [] \<Rightarrow> [[c]] | l # ls \<Rightarrow> (c # l) # ls)"

lemma bytes_Split_nonempty: "bytes_Split x sep \<noteq> []"
  by (induction x) (auto split: list.splits)

lemma bytes_Split_no_sep: "sep \<notin> set x \<Longrightarrow> bytes_Split x sep = [x]"
  by (induction x) auto

lemma bytes_Split_append: "sep \<notin> set x \<Longrightarrow> bytes_Split (x @ sep # rest) sep = x # bytes_Split rest sep"
  by (induction x) auto

lemma bytes_Split_Join:
  "ls \<noteq> [] \<Longrightarrow> (\<forall>l \<in> set ls. sep \<notin> set l) \<Longrightarrow> bytes_Split (strings_Join ls [sep]) sep = ls"
  by (induction ls "[sep]" rule: strings_Join.induct) (auto simp: bytes_Split_no_sep bytes_Split_append)

lemma strings_Join_snoc: "ls \<noteq> [] \<Longrightarrow> strings_Join (ls @ [[]]) sep = strings_Join ls sep @ sep"
  by (induction ls sep rule: strings_Join.induct) auto

end
