(* ===== verification/Bitstr.thy ===== *)
theory Bitstr
  imports Prelude
begin

text \<open>
  Bit strings, \<^verbatim>\<open>src/internal/bitstr\<close>. The Go interface \<^verbatim>\<open>Source\<close> is the datatype \<open>source\<close> of its
  implementations; \<open>At\<close> is \<open>None\<close>, a panic, where the Go code indexes out of range. \<open>Buffer\<close> packs bits into
  64-bit words; \<open>buffer_bits\<close> abstracts it to a list of booleans, and the locale \<open>bit_sink\<close> states
  what a client of a growing bit buffer relies on. The locale \<open>bit_order\<close> covers the two byte
  layouts (least and most significant bit first), so that packing is proved once for both.
\<close>

section \<open>Sources of bits\<close>

text \<open>\<^verbatim>\<open>String\<close>: an immutable string of \<open>s_l\<close> bits packed least significant bit first.\<close>

record bit_string =
  s_x :: bytes
  s_l :: int

text \<open>\<^verbatim>\<open>Buffer\<close>: a mutable resizable bit string.\<close>

record buffer =
  b_x :: "u64 list"
  b_l :: int

datatype source =
    BytesLSB bytes int int
  | BytesMSB bytes int int
  | Slice source int int
  | StringSrc bit_string
  | BufferSrc buffer

text \<open>A negative shift count panics, so the masks are only used at \<open>0 \<le> i\<close>.\<close>

definition mask8LSB :: "int \<Rightarrow> byte" where
  "mask8LSB i = push_bit (nat (i mod 8)) 1"

definition mask8MSB :: "int \<Rightarrow> byte" where
  "mask8MSB i = drop_bit (nat (i mod 8)) 128"

definition wordBits :: int where
  "wordBits = 64"

definition mask64 :: "int \<Rightarrow> u64" where
  "mask64 i = push_bit (nat (i mod wordBits)) 1"

text \<open>\<^verbatim>\<open>bytes[i/8] & mask(i) > 0\<close>: index and shift count are checked at run time.\<close>

definition byte_bit :: "(int \<Rightarrow> byte) \<Rightarrow> bytes \<Rightarrow> int \<Rightarrow> bool option" where
  "byte_bit msk bs i =
     (if i < 0 \<or> length bs \<le> nat (i div 8) then None else Some (bs ! nat (i div 8) AND msk i > 0))"

text \<open>The unexported \<^verbatim>\<open>Buffer.at\<close> and the exported \<^verbatim>\<open>Buffer.At\<close>.\<close>

definition buffer_at :: "buffer \<Rightarrow> int \<Rightarrow> bool option" where
  "buffer_at b i =
     (if i < 0 \<or> length (b_x b) \<le> nat (i div wordBits) then None
      else Some (b_x b ! nat (i div wordBits) AND mask64 i > 0))"

definition buffer_At :: "buffer \<Rightarrow> int \<Rightarrow> bool option" where
  "buffer_At b i = (if b_l b \<le> i then None else buffer_at b i)"

definition string_At :: "bit_string \<Rightarrow> int \<Rightarrow> bool option" where
  "string_At s i = byte_bit mask8LSB (s_x s) i"

fun At :: "source \<Rightarrow> int \<Rightarrow> bool option" where
  "At (BytesLSB bs begin end) i = byte_bit mask8LSB bs (i + begin)"
| "At (BytesMSB bs begin end) i = byte_bit mask8MSB bs (i + begin)"
| "At (Slice src begin end) i = At src (i + begin)"
| "At (StringSrc s) i = string_At s i"
| "At (BufferSrc b) i = buffer_At b i"

text \<open>An \<^verbatim>\<open>End\<close> of zero stands for the end of the byte slice.\<close>

fun Len :: "source \<Rightarrow> int" where
  "Len (BytesLSB bs begin end) = (if end = 0 then int (length bs) * 8 else end) - begin"
| "Len (BytesMSB bs begin end) = (if end = 0 then int (length bs) * 8 else end) - begin"
| "Len (Slice src begin end) = end - begin"
| "Len (StringSrc s) = s_l s"
| "Len (BufferSrc b) = b_l b"

section \<open>Buffer operations\<close>

definition empty_buffer :: buffer where
  "empty_buffer = \<lparr>b_x = [], b_l = 0\<rparr>"

definition buffer_set :: "buffer \<Rightarrow> int \<Rightarrow> bool \<Rightarrow> buffer option" where
  "buffer_set b i x =
     (let w = nat (i div wordBits)
      in if i < 0 \<or> length (b_x b) \<le> w then None
         else Some (b\<lparr>b_x := (b_x b)[w := (if x then b_x b ! w OR mask64 i
                                        else b_x b ! w AND NOT (mask64 i))]\<rparr>))"

definition buffer_Set :: "buffer \<Rightarrow> int \<Rightarrow> bool \<Rightarrow> buffer option" where
  "buffer_Set b i x = (if b_l b \<le> i then None else buffer_set b i x)"

definition Append :: "buffer \<Rightarrow> bool \<Rightarrow> buffer option" where
  "Append b x =
     (let b1 = (if int (length (b_x b)) * wordBits \<le> b_l b then b\<lparr>b_x := b_x b @ [0]\<rparr> else b)
      in Option.bind (buffer_set b1 (b_l b1) x) (\<lambda>b2. Some (b2\<lparr>b_l := b_l b2 + 1\<rparr>)))"

text \<open>The loop \<^verbatim>\<open>for i := 0; i < x.Len(); i++\<close>.\<close>

definition indices :: "source \<Rightarrow> int list" where
  "indices x = map int [0..<nat (Len x)]"

definition AppendAll :: "buffer \<Rightarrow> source \<Rightarrow> buffer option" where
  "AppendAll b x = pfold (\<lambda>i b. Option.bind (At x i) (Append b)) (indices x) b"

definition AppendByteLSB :: "buffer \<Rightarrow> byte \<Rightarrow> buffer option" where
  "AppendByteLSB b x = pfold (\<lambda>i b. Append b (x AND mask8LSB i > 0)) (map int [0..<8]) b"

definition AppendByteMSB :: "buffer \<Rightarrow> byte \<Rightarrow> buffer option" where
  "AppendByteMSB b x = pfold (\<lambda>i b. Append b (x AND mask8MSB i > 0)) (map int [0..<8]) b"

definition buffer_Truncate :: "buffer \<Rightarrow> int \<Rightarrow> buffer" where
  "buffer_Truncate b n = b\<lparr>b_l := n\<rparr>"

definition buffer_Reset :: "buffer \<Rightarrow> buffer" where
  "buffer_Reset b = buffer_Truncate b 0"

section \<open>Packing and comparing\<close>

definition divCeil :: "int \<Rightarrow> int \<Rightarrow> int" where
  "divCeil x z = (if gorem x z > 0 then goquot x z + 1 else goquot x z)"

text \<open>
  The common body of \<^verbatim>\<open>asBytesLSB\<close> and \<^verbatim>\<open>asBytesMSB\<close>; \<^verbatim>\<open>make\<close> panics on a negative length.
\<close>

definition or_mask :: "(int \<Rightarrow> byte) \<Rightarrow> int \<Rightarrow> bytes \<Rightarrow> bytes" where
  "or_mask msk i buf = buf[nat (i div 8) := buf ! nat (i div 8) OR msk i]"

definition asBytesWith :: "(int \<Rightarrow> byte) \<Rightarrow> source \<Rightarrow> (bytes \<times> int) option" where
  "asBytesWith msk x =
     (let n = divCeil (Len x) 8
      in if n < 0 then None
         else Option.bind (pfold (\<lambda>i buf. Option.bind (At x i) (\<lambda>v. Some (if v then or_mask msk i buf else buf)))
                       (indices x) (replicate (nat n) 0))
                (\<lambda>buf. Some (buf, Len x)))"

definition asBytesLSB :: "source \<Rightarrow> (bytes \<times> int) option" where
  "asBytesLSB x = asBytesWith mask8LSB x"

definition asBytesMSB :: "source \<Rightarrow> (bytes \<times> int) option" where
  "asBytesMSB x = asBytesWith mask8MSB x"

definition BitString :: "buffer \<Rightarrow> bit_string option" where
  "BitString b = Option.bind (asBytesLSB (BufferSrc b)) (\<lambda>(buf, l). Some \<lparr>s_x = buf, s_l = l\<rparr>)"

definition FromSource :: "source \<Rightarrow> bit_string option" where
  "FromSource s = Option.bind (AppendAll empty_buffer s) BitString"

definition bitstr_Concat :: "bit_string \<Rightarrow> bit_string \<Rightarrow> bit_string option" where
  "bitstr_Concat a b =
     Option.bind (AppendAll empty_buffer (StringSrc a)) (\<lambda>buf.
     Option.bind (AppendAll buf (StringSrc b)) BitString)"

definition string_Slice :: "bit_string \<Rightarrow> int \<Rightarrow> int \<Rightarrow> bit_string option" where
  "string_Slice s begin end =
     Option.bind (pfold (\<lambda>i b. Option.bind (string_At s i) (Append b)) [begin..end - 1] empty_buffer) BitString"

fun hasPrefix_loop :: "source \<Rightarrow> source \<Rightarrow> int list \<Rightarrow> bool option" where
  "hasPrefix_loop x p [] = Some True"
| "hasPrefix_loop x p (i # is) =
     Option.bind (At x i) (\<lambda>a. Option.bind (At p i) (\<lambda>b. if a \<noteq> b then Some False else hasPrefix_loop x p is))"

definition bitstr_HasPrefix :: "source \<Rightarrow> source \<Rightarrow> bool option" where
  "bitstr_HasPrefix x p = (if Len x < Len p then Some False else hasPrefix_loop x p (indices p))"


section \<open>Bits of words and bytes\<close>

lemma and_single_bit:
  fixes w m :: "'a::len word"
  assumes "\<And>n. bit m n \<longleftrightarrow> n = p"
  shows "w AND m > 0 \<longleftrightarrow> bit w p"
proof -
  have b: "bit (w AND m) n \<longleftrightarrow> bit w p \<and> n = p" for n
    using assms by (auto simp: bit_and_iff)
  have "w AND m = 0 \<longleftrightarrow> \<not> bit w p"
  proof
    assume "w AND m = 0"
    then show "\<not> bit w p" using b [of p] by simp
  next
    assume "\<not> bit w p"
    then show "w AND m = 0" using b by (intro bit_word_eqI) simp
  qed
  then show ?thesis by (simp add: word_gt_0)
qed

lemma bit_mask8LSB: "bit (mask8LSB (int i)) n \<longleftrightarrow> n = i mod 8"
  by (auto simp: mask8LSB_def bit_simps zmod_int nat_mod_distrib)

lemma bit_mask8MSB: "bit (mask8MSB (int i)) n \<longleftrightarrow> n = 7 - i mod 8"
proof -
  have "bit (128 :: byte) m \<longleftrightarrow> m = 7" for m
    using bit_exp_iff [where 'a = byte and m = 7 and n = m] by auto
  moreover have "nat (int i mod 8) = i mod 8" by (simp add: nat_mod_distrib)
  ultimately have "bit (mask8MSB (int i)) n \<longleftrightarrow> i mod 8 + n = 7"
    by (simp add: mask8MSB_def bit_drop_bit_eq)
  moreover have "i mod 8 < 8" by simp
  ultimately show ?thesis by linarith
qed

lemma bit_mask64: "bit (mask64 (int i)) n \<longleftrightarrow> n = i mod 64"
  by (auto simp: mask64_def wordBits_def bit_simps zmod_int nat_mod_distrib)

text \<open>The bits of a byte slice, in the order in which \<open>pos\<close> numbers the bits of a byte.\<close>

definition byte_bits :: "(nat \<Rightarrow> nat) \<Rightarrow> bytes \<Rightarrow> bool list" where
  "byte_bits pos bs = map (\<lambda>i. bit (bs ! (i div 8)) (pos (i mod 8))) [0..<8 * length bs]"

lemma length_byte_bits [simp]: "length (byte_bits pos bs) = 8 * length bs"
  by (simp add: byte_bits_def)

lemma nth_byte_bits [simp]:
  "i < 8 * length bs \<Longrightarrow> byte_bits pos bs ! i = bit (bs ! (i div 8)) (pos (i mod 8))"
  by (simp add: byte_bits_def)

definition lsb_pos :: "nat \<Rightarrow> nat" where [simp]: "lsb_pos j = j"

definition msb_pos :: "nat \<Rightarrow> nat" where [simp]: "msb_pos j = 7 - j"

abbreviation bits_lsb :: "bytes \<Rightarrow> bool list" where "bits_lsb \<equiv> byte_bits lsb_pos"

abbreviation bits_msb :: "bytes \<Rightarrow> bool list" where "bits_msb \<equiv> byte_bits msb_pos"

lemma divCeil_8: "divCeil (int m) 8 = int ((m + 7) div 8)"
proof -
  have "gorem (int m) 8 = int (m mod 8)" "goquot (int m) 8 = int (m div 8)"
    by (simp_all add: gorem_nonneg goquot_nonneg zmod_int zdiv_int)
  then have "divCeil (int m) 8 = int (if 0 < m mod 8 then m div 8 + 1 else m div 8)"
    by (cases "0 < m mod 8") (simp_all only: divCeil_def of_nat_0_less_iff of_nat_add of_nat_1 if_True if_False)
  also have "(if 0 < m mod 8 then m div 8 + 1 else m div 8) = (m + 7) div 8" by presburger
  finally show ?thesis .
qed

text \<open>A source denotes a list of bits when reading inside its length gives exactly those bits.\<close>

definition denotes :: "source \<Rightarrow> bool list \<Rightarrow> bool" where
  "denotes x xs \<longleftrightarrow> Len x = int (length xs) \<and> (\<forall>i < length xs. At x (int i) = Some (xs ! i))"

lemma denotes_indices: "denotes x xs \<Longrightarrow> indices x = map int [0..<length xs]"
  by (simp add: denotes_def indices_def)

lemma denotes_unique: "denotes x xs \<Longrightarrow> denotes x ys \<Longrightarrow> xs = ys"
  by (auto simp: denotes_def intro!: nth_equalityI)

lemma denotes_Slice:
  assumes "denotes x xs" "b \<le> e" "e \<le> length xs"
  shows "denotes (Slice x (int b) (int e)) (take (e - b) (drop b xs))"
proof -
  have "At x (int i + int b) = Some (drop b xs ! i)" if "i < e - b" for i
    using assms that by (simp add: denotes_def add.commute flip: of_nat_add)
  with assms show ?thesis by (auto simp: denotes_def)
qed

locale bit_order =
  fixes msk :: "int \<Rightarrow> byte" and pos :: "nat \<Rightarrow> nat"
  assumes bit_msk: "bit (msk (int i)) n \<longleftrightarrow> n = pos (i mod 8)"
    and pos_inj: "i < 8 \<Longrightarrow> j < 8 \<Longrightarrow> pos i = pos j \<longleftrightarrow> i = j"
    and pos_less: "i < 8 \<Longrightarrow> pos i < 8"
begin

lemma byte_bit_nth:
  "byte_bit msk bs (int i) = (if i < 8 * length bs then Some (byte_bits pos bs ! i) else None)"
proof -
  have "(length bs \<le> nat (int i div 8)) \<longleftrightarrow> \<not> i < 8 * length bs"
    by (simp add: zdiv_int nat_div_distrib) linarith
  moreover have "nat (int i div 8) = i div 8"
    by (simp add: nat_div_distrib)
  ultimately show ?thesis
    by (simp add: byte_bit_def and_single_bit [OF bit_msk])
qed

lemma bit_or_mask:
  assumes "k < 8 * length buf" "i < 8 * length buf"
  shows "byte_bits pos (or_mask msk (int k) buf) ! i \<longleftrightarrow> byte_bits pos buf ! i \<or> i = k"
proof -
  have "i = k \<longleftrightarrow> i div 8 = k div 8 \<and> i mod 8 = k mod 8"
    by (metis div_mult_mod_eq)
  moreover have "nat (int k div 8) = k div 8"
    by (simp add: nat_div_distrib)
  ultimately show ?thesis using assms
    by (cases "i div 8 = k div 8")
      (auto simp: or_mask_def nth_list_update bit_or_iff bit_msk pos_inj)
qed

lemma pack_loop:
  assumes "\<And>i. i < k \<Longrightarrow> At x (int i) = Some (f i)" and "k \<le> 8 * n"
  shows "\<exists>buf. pfold (\<lambda>i buf. Option.bind (At x i) (\<lambda>v. Some (if v then or_mask msk i buf else buf)))
            (map int [0..<k]) (replicate n 0) = Some buf \<and>
          length buf = n \<and> (\<forall>i < 8 * n. byte_bits pos buf ! i \<longleftrightarrow> i < k \<and> f i)"
  using assms
proof (induction k)
  case 0
  then show ?case by (auto simp: bit_simps)
next
  case (Suc k)
  then obtain buf where buf:
    "pfold (\<lambda>i buf. Option.bind (At x i) (\<lambda>v. Some (if v then or_mask msk i buf else buf)))
       (map int [0..<k]) (replicate n 0) = Some buf"
    "length buf = n" "\<forall>i < 8 * n. byte_bits pos buf ! i \<longleftrightarrow> i < k \<and> f i"
    by auto
  let ?buf = "if f k then or_mask msk (int k) buf else buf"
  have "length ?buf = n" using buf(2) by (simp add: or_mask_def)
  moreover have "\<forall>i < 8 * n. byte_bits pos ?buf ! i \<longleftrightarrow> i < Suc k \<and> f i"
    using buf Suc.prems(2) bit_or_mask [of k buf] by (auto simp: less_Suc_eq)
  ultimately show ?case
    using buf(1) Suc.prems(1) [of k] by (auto simp: pfold_append)
qed

lemma asBytesWith_correct:
  assumes "denotes x xs"
  shows "\<exists>buf. asBytesWith msk x = Some (buf, int (length xs)) \<and>
           length buf = (length xs + 7) div 8 \<and>
           byte_bits pos buf = xs @ replicate (8 * length buf - length xs) False"
proof -
  let ?n = "(length xs + 7) div 8"
  have len: "Len x = int (length xs)" using assms by (simp add: denotes_def)
  have "divCeil (int (length xs)) 8 = int ?n"
    by (rule divCeil_8)
  moreover obtain buf where buf:
    "pfold (\<lambda>i buf. Option.bind (At x i) (\<lambda>v. Some (if v then or_mask msk i buf else buf)))
       (map int [0..<length xs]) (replicate ?n 0) = Some buf"
    "length buf = ?n" "\<forall>i < 8 * ?n. byte_bits pos buf ! i \<longleftrightarrow> i < length xs \<and> xs ! i"
  proof -
    have "At x (int i) = Some (xs ! i)" if "i < length xs" for i
      using assms that by (simp add: denotes_def)
    moreover have "length xs \<le> 8 * ?n" by linarith
    ultimately show ?thesis using pack_loop [of "length xs" x "(!) xs" ?n] that by blast
  qed
  moreover have "byte_bits pos buf = xs @ replicate (8 * length buf - length xs) False"
  proof (rule nth_equalityI)
    show "length (byte_bits pos buf) = length (xs @ replicate (8 * length buf - length xs) False)"
      using buf(2) by simp
  next
    fix i assume "i < length (byte_bits pos buf)"
    then have "i < 8 * ?n" using buf(2) by simp
    with buf(2,3) show "byte_bits pos buf ! i = (xs @ replicate (8 * length buf - length xs) False) ! i"
      by (cases "i < length xs") (simp_all add: nth_append del: nth_byte_bits)
  qed
  ultimately show ?thesis
    by (auto simp: asBytesWith_def len denotes_indices [OF assms])
qed

end

interpretation lsb: bit_order mask8LSB lsb_pos
  by unfold_locales (auto simp: bit_mask8LSB)

interpretation msb: bit_order mask8MSB msb_pos
  by unfold_locales (auto simp: bit_mask8MSB)

section \<open>The buffer as a list of bits\<close>

text \<open>What a client of a growing bit buffer relies on: an append never panics and adds one bit.\<close>

locale bit_sink =
  fixes append :: "'b \<Rightarrow> bool \<Rightarrow> 'b option" and bits :: "'b \<Rightarrow> bool list" and invar :: "'b \<Rightarrow> bool"
  assumes append_ok: "invar b \<Longrightarrow> \<exists>b'. append b x = Some b' \<and> invar b' \<and> bits b' = bits b @ [x]"
begin

lemma append_loop:
  assumes "invar b" and "\<And>i. i \<in> set is \<Longrightarrow> f i = Some (g i)"
  shows "\<exists>b'. pfold (\<lambda>i b. Option.bind (f i) (append b)) is b = Some b' \<and> invar b' \<and>
           bits b' = bits b @ map g is"
  using assms
proof (induction "is" arbitrary: b)
  case (Cons i "is")
  obtain b1 where b1: "append b (g i) = Some b1" "invar b1" "bits b1 = bits b @ [g i]"
    using append_ok Cons.prems(1) by blast
  with Cons show ?case by fastforce
qed simp

lemma append_values:
  assumes "invar b"
  shows "\<exists>b'. pfold (\<lambda>i b. append b (g i)) is b = Some b' \<and> invar b' \<and> bits b' = bits b @ map g is"
  using append_loop [OF assms, of "is" "\<lambda>i. Some (g i)" g] by simp

end

definition buffer_wf :: "buffer \<Rightarrow> bool" where
  "buffer_wf b \<longleftrightarrow> 0 \<le> b_l b \<and> b_l b \<le> 64 * int (length (b_x b))"

definition buffer_bits :: "buffer \<Rightarrow> bool list" where
  "buffer_bits b = map (\<lambda>i. bit (b_x b ! (i div 64)) (i mod 64)) [0..<nat (b_l b)]"

lemma length_buffer_bits [simp]: "length (buffer_bits b) = nat (b_l b)"
  by (simp add: buffer_bits_def)

lemma buffer_index: "nat (int i div wordBits) = i div 64"
  by (simp add: wordBits_def nat_div_distrib)

lemma buffer_set_word:
  assumes "i div 64 < length (b_x b)"
  shows "\<exists>ws. buffer_set b (int i) x = Some (b\<lparr>b_x := ws\<rparr>) \<and> length ws = length (b_x b) \<and>
           (\<forall>j. j div 64 < length ws \<longrightarrow>
              bit (ws ! (j div 64)) (j mod 64) = (if j = i then x else bit (b_x b ! (j div 64)) (j mod 64)))"
proof -
  let ?w = "if x then b_x b ! (i div 64) OR mask64 (int i) else b_x b ! (i div 64) AND NOT (mask64 (int i))"
  let ?ws = "(b_x b)[i div 64 := ?w]"
  have set_eq: "buffer_set b (int i) x = Some (b\<lparr>b_x := ?ws\<rparr>)"
    using assms by (simp add: buffer_set_def buffer_index Let_def)
  have "bit (?ws ! (j div 64)) (j mod 64) = (if j = i then x else bit (b_x b ! (j div 64)) (j mod 64))"
    if "j div 64 < length ?ws" for j
  proof (cases "j div 64 = i div 64")
    case True
    have "j mod 64 < 64" by simp
    then have "bit ?w (j mod 64) = (if j mod 64 = i mod 64 then x else bit (b_x b ! (i div 64)) (j mod 64))"
      by (auto simp: bit_simps bit_mask64)
    moreover have "j = i \<longleftrightarrow> j mod 64 = i mod 64" using True by (metis div_mult_mod_eq)
    ultimately show ?thesis using True assms by (simp add: nth_list_update)
  next
    case False
    then have "j \<noteq> i" by auto
    with False show ?thesis by (simp add: nth_list_update)
  qed
  with set_eq show ?thesis by (intro exI [of _ ?ws]) auto
qed

lemma Append_ok:
  assumes "buffer_wf b"
  shows "\<exists>b'. Append b x = Some b' \<and> buffer_wf b' \<and> buffer_bits b' = buffer_bits b @ [x]"
proof -
  define b1 where "b1 = (if int (length (b_x b)) * wordBits \<le> b_l b then b\<lparr>b_x := b_x b @ [0]\<rparr> else b)"
  define n where "n = nat (b_l b)"
  have l: "b_l b = int n" "b_l b1 = int n" and n: "n \<le> 64 * length (b_x b)"
    using assms by (auto simp: b1_def n_def buffer_wf_def)
  have n1: "n < 64 * length (b_x b1)"
    using n by (auto simp: b1_def l wordBits_def)
  then have "n div 64 < length (b_x b1)" by (simp add: less_mult_imp_div_less mult.commute)
  then obtain ws where ws: "buffer_set b1 (int n) x = Some (b1\<lparr>b_x := ws\<rparr>)" "length ws = length (b_x b1)"
    "\<And>j. j div 64 < length ws \<Longrightarrow>
       bit (ws ! (j div 64)) (j mod 64) = (if j = n then x else bit (b_x b1 ! (j div 64)) (j mod 64))"
    using buffer_set_word by blast
  let ?b' = "b1\<lparr>b_x := ws, b_l := int n + 1\<rparr>"
  have app: "Append b x = Some ?b'"
    using ws(1) unfolding Append_def b1_def [symmetric] Let_def by (simp add: l)
  have old: "bit (b_x b1 ! (j div 64)) (j mod 64) = bit (b_x b ! (j div 64)) (j mod 64)" if "j < n" for j
  proof -
    have "j div 64 < length (b_x b)" using n that by (simp add: less_mult_imp_div_less mult.commute)
    then show ?thesis by (simp add: b1_def nth_append)
  qed
  have in_ws: "j div 64 < length ws" if "j \<le> n" for j
    using n1 that ws(2) by (simp add: less_mult_imp_div_less mult.commute)
  have "buffer_bits ?b' = map (\<lambda>i. bit (ws ! (i div 64)) (i mod 64)) [0..<Suc n]"
    by (simp add: buffer_bits_def nat_add_distrib)
  also have "\<dots> = map (\<lambda>i. bit (b_x b ! (i div 64)) (i mod 64)) [0..<n] @ [x]"
    using ws(3) old in_ws by auto
  finally have "buffer_bits ?b' = buffer_bits b @ [x]"
    by (simp add: buffer_bits_def l)
  moreover have "buffer_wf ?b'" using n1 ws(2) by (simp add: buffer_wf_def)
  ultimately show ?thesis using app by blast
qed

interpretation buf: bit_sink Append buffer_bits buffer_wf
  by unfold_locales (rule Append_ok)

lemma empty_buffer_bits [simp]: "buffer_wf empty_buffer" "buffer_bits empty_buffer = []"
  by (simp_all add: buffer_wf_def buffer_bits_def empty_buffer_def)

lemma denotes_BufferSrc:
  assumes "buffer_wf b"
  shows "denotes (BufferSrc b) (buffer_bits b)"
proof -
  have "buffer_At b (int i) = Some (bit (b_x b ! (i div 64)) (i mod 64))" if "i < nat (b_l b)" for i
  proof -
    have "i div 64 < length (b_x b)"
      using assms that by (auto simp: buffer_wf_def intro: less_mult_imp_div_less)
    then show ?thesis
      using that by (simp add: buffer_At_def buffer_at_def buffer_index and_single_bit [OF bit_mask64])
  qed
  with assms show ?thesis by (auto simp: denotes_def buffer_bits_def buffer_wf_def)
qed

lemma AppendAll_ok:
  assumes "buffer_wf b" "denotes x xs"
  shows "\<exists>b'. AppendAll b x = Some b' \<and> buffer_wf b' \<and> buffer_bits b' = buffer_bits b @ xs"
proof -
  have "At x i = Some (xs ! nat i)" if "i \<in> set (map int [0..<length xs])" for i
    using assms(2) that by (auto simp: denotes_def)
  from buf.append_loop [OF assms(1), of "map int [0..<length xs]" "At x" "\<lambda>i. xs ! nat i", OF this]
  show ?thesis
    by (simp add: AppendAll_def denotes_indices [OF assms(2)] comp_def map_nth)
qed

lemma buffer_Truncate_ok:
  "buffer_wf b \<Longrightarrow> n \<le> nat (b_l b) \<Longrightarrow>
   buffer_wf (buffer_Truncate b (int n)) \<and> buffer_bits (buffer_Truncate b (int n)) = take n (buffer_bits b)"
  by (auto simp: buffer_wf_def buffer_bits_def buffer_Truncate_def take_map)

section \<open>Byte slices, strings, slices and prefixes\<close>

lemma denotes_BytesMSB:
  assumes "b \<le> e" "e \<le> 8 * length bs" "0 < e \<or> bs = []"
  shows "denotes (BytesMSB bs (int b) (int e)) (take (e - b) (drop b (bits_msb bs)))"
  using assms msb.byte_bit_nth [of bs] by (auto simp: denotes_def add.commute simp flip: of_nat_add)

lemma denotes_BytesMSB_whole: "denotes (BytesMSB bs 0 0) (bits_msb bs)"
  using msb.byte_bit_nth [of bs] by (auto simp: denotes_def)

lemma denotes_StringSrc:
  assumes "n \<le> 8 * length bs"
  shows "denotes (StringSrc \<lparr>s_x = bs, s_l = int n\<rparr>) (take n (bits_lsb bs))"
  using assms lsb.byte_bit_nth [of bs] by (auto simp: denotes_def string_At_def)

lemma BitString_ok:
  assumes "buffer_wf b"
  shows "\<exists>s. BitString b = Some s \<and> denotes (StringSrc s) (buffer_bits b)"
proof -
  let ?n = "length (buffer_bits b)"
  obtain bs where bs: "asBytesWith mask8LSB (BufferSrc b) = Some (bs, int ?n)"
    "length bs = (?n + 7) div 8" "bits_lsb bs = buffer_bits b @ replicate (8 * length bs - ?n) False"
    using lsb.asBytesWith_correct [OF denotes_BufferSrc [OF assms]] by blast
  then have "denotes (StringSrc \<lparr>s_x = bs, s_l = int ?n\<rparr>) (buffer_bits b)"
    using denotes_StringSrc [of ?n bs] by simp
  with bs(1) show ?thesis by (simp add: BitString_def asBytesLSB_def)
qed

lemma FromSource_ok:
  assumes "denotes x xs"
  shows "\<exists>s. FromSource x = Some s \<and> denotes (StringSrc s) xs"
proof -
  obtain b where "AppendAll empty_buffer x = Some b" "buffer_wf b" "buffer_bits b = xs"
    using AppendAll_ok [OF _ assms, of empty_buffer] by auto
  with BitString_ok [of b] show ?thesis by (simp add: FromSource_def)
qed

lemma bitstr_Concat_ok:
  assumes "denotes (StringSrc s) xs" "denotes (StringSrc t) ys"
  shows "\<exists>r. bitstr_Concat s t = Some r \<and> denotes (StringSrc r) (xs @ ys)"
proof -
  obtain b where b: "AppendAll empty_buffer (StringSrc s) = Some b" "buffer_wf b" "buffer_bits b = xs"
    using AppendAll_ok [OF _ assms(1), of empty_buffer] by auto
  obtain b' where "AppendAll b (StringSrc t) = Some b'" "buffer_wf b'" "buffer_bits b' = xs @ ys"
    using AppendAll_ok [OF b(2) assms(2)] b(3) by auto
  with b BitString_ok [of b'] show ?thesis by (simp add: bitstr_Concat_def)
qed

lemma asBytesMSB_ok:
  assumes "denotes x xs"
  shows "\<exists>buf. asBytesMSB x = Some (buf, int (length xs)) \<and> length buf = (length xs + 7) div 8 \<and>
           bits_msb buf = xs @ replicate (8 * length buf - length xs) False"
  using msb.asBytesWith_correct [OF assms] by (simp add: asBytesMSB_def)

lemma hasPrefix_loop_ok:
  assumes "\<And>i. i \<in> set is \<Longrightarrow> At x i = Some (f i) \<and> At p i = Some (g i)"
  shows "hasPrefix_loop x p is = Some (\<forall>i \<in> set is. f i = g i)"
  using assms by (induction "is") auto

lemma bitstr_HasPrefix_ok:
  assumes "denotes x xs" "denotes p ps"
  shows "bitstr_HasPrefix x p = Some (prefix ps xs)"
proof (cases "length ps \<le> length xs")
  case True
  have "hasPrefix_loop x p (map int [0..<length ps]) = Some (\<forall>i \<in> set (map int [0..<length ps]). xs ! nat i = ps ! nat i)"
    using assms True by (intro hasPrefix_loop_ok) (auto simp: denotes_def)
  also have "(\<forall>i \<in> set (map int [0..<length ps]). xs ! nat i = ps ! nat i) \<longleftrightarrow> take (length ps) xs = ps"
    using True by (subst list_eq_iff_nth_eq) auto
  also have "\<dots> \<longleftrightarrow> prefix ps xs"
    by (rule take_eq_iff_prefix)
  finally show ?thesis
    using assms True by (simp add: bitstr_HasPrefix_def denotes_indices [OF assms(2)] denotes_def)
next
  case False
  then have "\<not> prefix ps xs" by (auto dest: prefix_length_le)
  with False assms show ?thesis by (simp add: bitstr_HasPrefix_def denotes_def)
qed

end
