(* ===== verification/Ident.thy ===== *)
theory Ident
  imports Bitstr "HOL-Library.Char_ord"
begin

text \<open>
  INET256 addresses, \<^verbatim>\<open>src/inet256/id.go\<close>: the 32-byte \<open>ID\<close>, its order-preserving base64 text form
  and the bitwise prefix test. The standard library's unpadded \<^verbatim>\<open>base64.Encoding\<close> is modelled on the
  alphabet of the source: \<^verbatim>\<open>Decode\<close> skips line breaks, rejects other foreign characters, and runs out
  of the destination slice (a panic) when the text holds more bytes than \<open>AddrSize\<close>.
\<close>

section \<open>Addresses\<close>

type_synonym addr = bytes

definition AddrSize :: nat where
  "AddrSize = 32"

text \<open>The size of the largest message, \<^verbatim>\<open>service.go\<close>.\<close>

definition MTU :: nat where
  "MTU = 2 ^ 16 - 1"

definition is_addr :: "addr \<Rightarrow> bool" where
  "is_addr a \<longleftrightarrow> length a = AddrSize"

definition zero_addr :: addr where
  "zero_addr = replicate AddrSize 0"

definition IDFromBytes :: "bytes \<Rightarrow> addr" where
  "IDFromBytes x = gocopy zero_addr x"

definition IsZero :: "addr \<Rightarrow> bool" where
  "IsZero a \<longleftrightarrow> a = zero_addr"

text \<open>\<^verbatim>\<open>Everyone\<close> and \<^verbatim>\<open>Noone\<close> of \<^verbatim>\<open>pki.go\<close>, the all-ones and all-zeros addresses.\<close>

definition Everyone :: addr where
  "Everyone = replicate AddrSize 0xff"

definition Noone :: addr where
  "Noone = zero_addr"

section \<open>Base64 text\<close>

definition Base64Alphabet :: string where
  "Base64Alphabet =
     ''-0123456789'' @ ''ABCDEFGHIJKLMNOPQRSTUVWXYZ'' @ ''_'' @ ''abcdefghijklmnopqrstuvwxyz''"

definition enc_char :: "nat \<Rightarrow> char" where
  "enc_char i = Base64Alphabet ! i"

definition dec_char :: "char \<Rightarrow> nat option" where
  "dec_char c = map_of (zip Base64Alphabet [0..<64]) c"

text \<open>The sextets of an unpadded encoding: four for every three bytes, two or three at the end.\<close>

fun enc_digits :: "bytes \<Rightarrow> nat list" where
  "enc_digits [] = []"
| "enc_digits [a] =
     (let v = unat a * 65536 in [v div 262144 mod 64, v div 4096 mod 64])"
| "enc_digits [a, b] =
     (let v = unat a * 65536 + unat b * 256 in [v div 262144 mod 64, v div 4096 mod 64, v div 64 mod 64])"
| "enc_digits (a # b # c # rest) =
     (let v = unat a * 65536 + unat b * 256 + unat c
      in [v div 262144 mod 64, v div 4096 mod 64, v div 64 mod 64, v mod 64] @ enc_digits rest)"

definition EncodeToString :: "bytes \<Rightarrow> string" where
  "EncodeToString bs = map enc_char (enc_digits bs)"

datatype id_error = CorruptInput | TooShort

text \<open>Writing a decoded group at offset \<open>n\<close> of the destination panics where it does not fit.\<close>

definition write_at :: "bytes \<Rightarrow> nat \<Rightarrow> bytes \<Rightarrow> bytes option" where
  "write_at dst n bs =
     (if n + length bs \<le> length dst then Some (take n dst @ bs @ drop (n + length bs) dst) else None)"

text \<open>
  One call of \<^verbatim>\<open>decodeQuantum\<close> on the sextets it read; \<open>k\<close> sextets hold \<open>k - 1\<close> bytes, the low
  bits of a short last group are dropped.
\<close>

definition quantum_bytes :: "nat list \<Rightarrow> bytes" where
  "quantum_bytes ds =
     (let v = foldl (\<lambda>acc d. acc * 64 + d) 0 (ds @ replicate (4 - length ds) 0)
      in take (length ds - 1)
           [of_nat (v div 65536 mod 256), of_nat (v div 256 mod 256), of_nat (v mod 256)])"

definition decode_group ::
  "bytes \<Rightarrow> nat \<Rightarrow> string \<Rightarrow> (id_error, bytes \<times> nat) outcome" where
  "decode_group dst n cs =
     (if None \<in> set (map dec_char cs) then Err CorruptInput
      else let bs = quantum_bytes (map (\<lambda>c. the (dec_char c)) cs)
           in obind (unwinds (write_at dst n bs)) (\<lambda>dst'. Ok (dst', n + length bs)))"

fun decode_loop :: "bytes \<Rightarrow> nat \<Rightarrow> string \<Rightarrow> (id_error, bytes \<times> nat) outcome" where
  "decode_loop dst n [] = Ok (dst, n)"
| "decode_loop dst n [a] = Err CorruptInput"
| "decode_loop dst n [a, b] = decode_group dst n [a, b]"
| "decode_loop dst n [a, b, c] = decode_group dst n [a, b, c]"
| "decode_loop dst n (a # b # c # d # rest) =
     obind (decode_group dst n [a, b, c, d]) (\<lambda>(dst', n'). decode_loop dst' n' rest)"

definition is_newline :: "char \<Rightarrow> bool" where
  "is_newline c \<longleftrightarrow> c = CHR 0x0A \<or> c = CHR 0x0D"

definition base64_Decode :: "bytes \<Rightarrow> string \<Rightarrow> (id_error, bytes \<times> nat) outcome" where
  "base64_Decode dst src = decode_loop dst 0 (filter (\<lambda>c. \<not> is_newline c) src)"

definition MarshalText :: "addr \<Rightarrow> string" where
  "MarshalText a = EncodeToString a"

definition Base64String :: "addr \<Rightarrow> string" where
  "Base64String a = MarshalText a"

text \<open>
  \<^verbatim>\<open>UnmarshalText\<close> decodes in place into the 32 bytes of its receiver \<open>a\<close>. The receiver's contents
  after an error are not used by any caller and are left out.
\<close>

definition UnmarshalText :: "addr \<Rightarrow> string \<Rightarrow> (id_error, addr) outcome" where
  "UnmarshalText a x =
     obind (base64_Decode a x) (\<lambda>(a', n). if n \<noteq> AddrSize then Err TooShort else Ok a')"

definition ParseAddrBase64 :: "string \<Rightarrow> (id_error, addr) outcome" where
  "ParseAddrBase64 data = UnmarshalText zero_addr data"

section \<open>Prefixes of addresses\<close>

text \<open>\<^verbatim>\<open>bits.LeadingZeros8\<close>\<close>

definition LeadingZeros8 :: "byte \<Rightarrow> nat" where
  "LeadingZeros8 w = length (takeWhile (\<lambda>j. \<not> bit w (7 - j)) [0..<8])"

fun id_HasPrefix_loop :: "bytes \<Rightarrow> bytes \<Rightarrow> int \<Rightarrow> int \<Rightarrow> bool" where
  "id_HasPrefix_loop xs [] nbits acc = False"
| "id_HasPrefix_loop [] (p # ps) nbits acc = False"
| "id_HasPrefix_loop (x # xs) (p # ps) nbits acc =
     (let lz = int (LeadingZeros8 (x XOR p)); acc' = acc + lz
      in if nbits \<le> acc' then True
         else if lz < 8 then False
         else id_HasPrefix_loop xs ps nbits acc')"

definition id_HasPrefix :: "bytes \<Rightarrow> bytes \<Rightarrow> int \<Rightarrow> bool" where
  "id_HasPrefix x p nbits = id_HasPrefix_loop x p nbits 0"

section \<open>Lemmas on addresses\<close>

lemma is_addr_IDFromBytes [simp]: "is_addr (IDFromBytes x)"
  by (simp add: is_addr_def IDFromBytes_def zero_addr_def)

lemma IDFromBytes_addr: "is_addr a \<Longrightarrow> IDFromBytes a = a"
  by (simp add: is_addr_def IDFromBytes_def zero_addr_def gocopy_exact)

lemma is_addr_zero [simp]: "is_addr zero_addr"
  by (simp add: is_addr_def zero_addr_def)

lemma length_Base64Alphabet: "length Base64Alphabet = 64"
  by (simp add: Base64Alphabet_def)

lemma distinct_Base64Alphabet: "distinct Base64Alphabet"
  by (simp add: Base64Alphabet_def)

lemma dec_enc_char: "i < 64 \<Longrightarrow> dec_char (enc_char i) = Some i"
  using distinct_Base64Alphabet length_Base64Alphabet
  by (simp add: dec_char_def enc_char_def map_of_zip_nth)

lemma enc_char_not_newline: "i < 64 \<Longrightarrow> \<not> is_newline (enc_char i)"
proof -
  have "\<not> is_newline c" if "c \<in> set Base64Alphabet" for c
    using that by (auto simp: Base64Alphabet_def is_newline_def)
  then show "i < 64 \<Longrightarrow> \<not> is_newline (enc_char i)"
    by (simp add: enc_char_def length_Base64Alphabet)
qed

lemma enc_digits_less: "d \<in> set (enc_digits bs) \<Longrightarrow> d < 64"
  by (induction bs rule: enc_digits.induct) (auto simp: Let_def)

section \<open>The text round trip\<close>

lemma sextets_recombine:
  fixes v :: nat
  assumes "v < 16777216"
  shows "((v div 262144 mod 64 * 64 + v div 4096 mod 64) * 64 + v div 64 mod 64) * 64 + v mod 64 = v"
proof -
  have "v div 4096 = v div 64 div 64" "v div 262144 = v div 64 div 64 div 64"
    by (simp_all add: div_mult2_eq [symmetric])
  moreover have "v div 64 div 64 div 64 < 64"
    using assms by (simp add: div_mult2_eq [symmetric] less_mult_imp_div_less)
  ultimately show ?thesis by (simp add: mod_less)
qed

lemma unat_byte_less [simp]: "unat (b :: byte) < 256"
  using unsigned_less [of b, where ?'a = nat] by simp

lemma unat_byte_of: "of_nat (unat (b :: byte)) = b"
  by simp

lemma group3_less: "unat (a::byte) * 65536 + unat (b::byte) * 256 + unat (c::byte) < 16777216"
  using unat_byte_less [of a] unat_byte_less [of b] unat_byte_less [of c] by linarith

lemma horner256:
  fixes w z :: nat
  assumes "z < 256"
  shows "(w * 256 + z) div 256 = w" "(w * 256 + z) mod 256 = z"
  using assms by simp_all

lemma split_base256:
  fixes x y z :: nat
  assumes "x < 256" "y < 256" "z < 256"
  shows "(x * 65536 + y * 256 + z) div 65536 mod 256 = x"
    "(x * 65536 + y * 256 + z) div 256 mod 256 = y"
    "(x * 65536 + y * 256 + z) mod 256 = z"
proof -
  let ?w = "x * 256 + y"
  have v: "x * 65536 + y * 256 + z = ?w * 256 + z" by simp
  note w = horner256 [OF assms(3), of ?w]
  have "(?w * 256 + z) div 65536 = (?w * 256 + z) div 256 div 256"
    by (simp only: div_mult2_eq [symmetric]) simp
  then show "(x * 65536 + y * 256 + z) div 65536 mod 256 = x"
    unfolding v using assms(1) by (simp only: w horner256 [OF assms(2)] mod_less)
  show "(x * 65536 + y * 256 + z) div 256 mod 256 = y" "(x * 65536 + y * 256 + z) mod 256 = z"
    unfolding v by (simp_all only: w horner256 [OF assms(2)])
qed

lemma quantum_bytes_padded:
  assumes "length ds \<le> 4"
  shows "quantum_bytes ds = take (length ds - 1) (quantum_bytes (ds @ replicate (4 - length ds) 0))"
proof -
  have "length (ds @ replicate (4 - length ds) 0) = 4" using assms by simp
  moreover have "min (length ds - 1) 3 = length ds - 1" using assms by simp
  ultimately show ?thesis
    by (simp only: quantum_bytes_def Let_def take_take) simp
qed

lemma quantum_bytes_sextets:
  assumes "((p * 64 + q) * 64 + r) * 64 + s = unat a * 65536 + unat b * 256 + unat c"
  shows "quantum_bytes [p, q, r, s] = [a, b, c]"
    and "s = 0 \<Longrightarrow> quantum_bytes [p, q, r] = [a, b]"
    and "s = 0 \<Longrightarrow> r = 0 \<Longrightarrow> quantum_bytes [p, q] = [a]"
proof -
  note v = split_base256 [of "unat a" "unat b" "unat c", OF unat_byte_less unat_byte_less unat_byte_less]
  have f: "foldl (\<lambda>acc d. acc * 64 + d) 0 [p, q, r, s] = unat a * 65536 + unat b * 256 + unat c"
    using assms by simp
  show "quantum_bytes [p, q, r, s] = [a, b, c]"
    using f by (simp only: quantum_bytes_def Let_def v) (simp add: v)
  then show "quantum_bytes [p, q, r] = [a, b]" if "s = 0"
    using quantum_bytes_padded [of "[p, q, r]"] that by simp
  show "quantum_bytes [p, q] = [a]" if "s = 0" "r = 0"
    using quantum_bytes_padded [of "[p, q]"] \<open>quantum_bytes [p, q, r, s] = [a, b, c]\<close> that
    by (simp add: numeral_2_eq_2)
qed

lemma decode_group_enc:
  assumes "\<forall>d \<in> set ds. d < 64"
  shows "decode_group dst n (map enc_char ds) =
     obind (unwinds (write_at dst n (quantum_bytes ds))) (\<lambda>dst'. Ok (dst', n + length (quantum_bytes ds)))"
proof -
  have "map (\<lambda>c. the (dec_char c)) (map enc_char ds) = ds"
    using assms by (simp add: dec_enc_char map_idI)
  moreover have "None \<notin> set (map dec_char (map enc_char ds))"
    using assms by (auto simp: dec_enc_char)
  ultimately show ?thesis by (simp add: decode_group_def Let_def)
qed

lemma sextet_zero:
  fixes a b :: nat
  shows "(a * 65536 + b * 256) mod 64 = 0" "a * 65536 mod 64 = 0" "a * 65536 div 64 mod 64 = 0"
proof -
  have e: "a * 65536 + b * 256 = (a * 1024 + b * 4) * 64" "a * 65536 = (a * 1024) * 64" "a * 1024 = (a * 16) * 64"
    by simp_all
  show "(a * 65536 + b * 256) mod 64 = 0"
    unfolding e(1) by (rule mod_mult_self2_is_0)
  show "a * 65536 mod 64 = 0"
    unfolding e(2) by (rule mod_mult_self2_is_0)
  have "a * 65536 div 64 = a * 16 * 64"
    unfolding e(2) by simp
  then show "a * 65536 div 64 mod 64 = 0"
    by (metis mod_mult_self2_is_0)
qed

lemma quantum_bytes_digits:
  assumes v: "v = unat a * 65536 + unat b * 256 + unat c"
  shows "quantum_bytes [v div 262144 mod 64, v div 4096 mod 64, v div 64 mod 64, v mod 64] = [a, b, c]"
    and "v mod 64 = 0 \<Longrightarrow> quantum_bytes [v div 262144 mod 64, v div 4096 mod 64, v div 64 mod 64] = [a, b]"
    and "v mod 64 = 0 \<Longrightarrow> v div 64 mod 64 = 0 \<Longrightarrow> quantum_bytes [v div 262144 mod 64, v div 4096 mod 64] = [a]"
proof -
  have "v < 16777216" unfolding v by (rule group3_less)
  from sextets_recombine [OF this] v
  have e: "((v div 262144 mod 64 * 64 + v div 4096 mod 64) * 64 + v div 64 mod 64) * 64 + v mod 64 =
      unat a * 65536 + unat b * 256 + unat c" by (rule trans)
  show "quantum_bytes [v div 262144 mod 64, v div 4096 mod 64, v div 64 mod 64, v mod 64] = [a, b, c]"
    by (rule quantum_bytes_sextets(1) [OF e])
  show "v mod 64 = 0 \<Longrightarrow> quantum_bytes [v div 262144 mod 64, v div 4096 mod 64, v div 64 mod 64] = [a, b]"
    by (rule quantum_bytes_sextets(2) [OF e])
  show "v mod 64 = 0 \<Longrightarrow> v div 64 mod 64 = 0 \<Longrightarrow> quantum_bytes [v div 262144 mod 64, v div 4096 mod 64] = [a]"
    by (rule quantum_bytes_sextets(3) [OF e])
qed

lemma enc_digits_group:
  fixes a b c :: byte
  shows "\<exists>p q r s. enc_digits [a, b, c] = [p, q, r, s] \<and> quantum_bytes [p, q, r, s] = [a, b, c]"
    and "\<exists>p q r. enc_digits [a, b] = [p, q, r] \<and> quantum_bytes [p, q, r] = [a, b]"
    and "\<exists>p q. enc_digits [a] = [p, q] \<and> quantum_bytes [p, q] = [a]"
proof -
  show "\<exists>p q r s. enc_digits [a, b, c] = [p, q, r, s] \<and> quantum_bytes [p, q, r, s] = [a, b, c]"
    unfolding enc_digits.simps Let_def append_Nil2
    by (intro exI conjI, rule refl, rule quantum_bytes_digits(1) [OF refl])
  have v: "unat a * 65536 + unat b * 256 = unat a * 65536 + unat b * 256 + unat (0 :: byte)"
    "unat a * 65536 = unat a * 65536 + unat (0 :: byte) * 256 + unat (0 :: byte)"
    by (simp_all only: unsigned_0 mult_zero_left add_0_right)
  show "\<exists>p q r. enc_digits [a, b] = [p, q, r] \<and> quantum_bytes [p, q, r] = [a, b]"
    unfolding enc_digits.simps Let_def
    by (intro exI conjI, rule refl, rule quantum_bytes_digits(2) [OF v(1) sextet_zero(1)])
  show "\<exists>p q. enc_digits [a] = [p, q] \<and> quantum_bytes [p, q] = [a]"
    unfolding enc_digits.simps Let_def
    by (intro exI conjI, rule refl, rule quantum_bytes_digits(3) [OF v(2) sextet_zero(2,3)])
qed

lemma enc_digits_Cons3: "enc_digits (a # b # c # rest) = enc_digits [a, b, c] @ enc_digits rest"
  by (simp add: Let_def)

lemma decode_encode:
  "n + length bs \<le> length dst \<Longrightarrow>
   decode_loop dst n (EncodeToString bs) = Ok (take n dst @ bs @ drop (n + length bs) dst, n + length bs)"
proof (induction bs arbitrary: dst n rule: enc_digits.induct)
  case 1
  then show ?case by (simp add: EncodeToString_def)
next
  case (2 a)
  obtain p q where pq: "enc_digits [a] = [p, q]" "quantum_bytes [p, q] = [a]"
    using enc_digits_group(3) by blast
  have "\<forall>d \<in> set [p, q]. d < 64"
    unfolding pq(1) [symmetric] using enc_digits_less by blast
  with pq decode_group_enc [of "[p, q]" dst n] 2 show ?case
    by (simp add: EncodeToString_def write_at_def del: enc_digits.simps)
next
  case (3 a b)
  obtain p q r where pq: "enc_digits [a, b] = [p, q, r]" "quantum_bytes [p, q, r] = [a, b]"
    using enc_digits_group(2) by blast
  have "\<forall>d \<in> set [p, q, r]. d < 64"
    unfolding pq(1) [symmetric] using enc_digits_less by blast
  with pq decode_group_enc [of "[p, q, r]" dst n] 3 show ?case
    by (simp add: EncodeToString_def write_at_def del: enc_digits.simps)
next
  case (4 a b c rest)
  obtain p q r s where pq: "enc_digits [a, b, c] = [p, q, r, s]" "quantum_bytes [p, q, r, s] = [a, b, c]"
    using enc_digits_group(1) by blast
  have less: "\<forall>d \<in> set [p, q, r, s]. d < 64"
    unfolding pq(1) [symmetric] using enc_digits_less by blast
  let ?dst = "take n dst @ [a, b, c] @ drop (n + 3) dst"
  have g: "decode_group dst n [enc_char p, enc_char q, enc_char r, enc_char s] = Ok (?dst, n + 3)"
    using decode_group_enc [OF less, of dst n] pq(2) "4.prems" by (simp add: write_at_def numeral_3_eq_3)
  have "EncodeToString (a # b # c # rest) =
      enc_char p # enc_char q # enc_char r # enc_char s # EncodeToString rest"
    unfolding EncodeToString_def by (subst enc_digits_Cons3) (simp add: pq(1) del: enc_digits.simps)
  then have "decode_loop dst n (EncodeToString (a # b # c # rest)) =
      decode_loop ?dst (n + 3) (EncodeToString rest)"
    using g by simp
  also have "\<dots> = Ok (take n dst @ (a # b # c # rest) @ drop (n + length (a # b # c # rest)) dst,
      n + length (a # b # c # rest))"
    using "4.IH" [OF refl, of "n + 3" ?dst] "4.prems" by (simp add: numeral_3_eq_3 add.commute add.left_commute)
  finally show ?case .
qed

lemma filter_newline_encode: "filter (\<lambda>c. \<not> is_newline c) (EncodeToString bs) = EncodeToString bs"
  using enc_digits_less [of _ bs] by (auto simp: EncodeToString_def enc_char_not_newline filter_id_conv)

lemma UnmarshalText_MarshalText:
  "is_addr a0 \<Longrightarrow> is_addr a \<Longrightarrow> UnmarshalText a0 (MarshalText a) = Ok a"
  using decode_encode [of 0 a a0]
  by (simp add: UnmarshalText_def base64_Decode_def MarshalText_def filter_newline_encode is_addr_def)

lemma decode_loop_overflow:
  assumes "\<forall>c \<in> set cs. dec_char c \<noteq> None" "length dst < n + 3 * (length cs div 4)" "n \<le> length dst"
  shows "decode_loop dst n cs = Panic"
  using assms
proof (induction dst n cs rule: decode_loop.induct)
  case (5 dst n a b c d rest)
  let ?bs = "quantum_bytes (map (\<lambda>c. the (dec_char c)) [a, b, c, d])"
  have len: "length ?bs = 3" by (simp add: quantum_bytes_def Let_def)
  have grp: "decode_group dst n [a, b, c, d] = obind (unwinds (write_at dst n ?bs)) (\<lambda>dst'. Ok (dst', n + length ?bs))"
    using "5.prems"(1) unfolding decode_group_def Let_def by auto
  show ?case
  proof (cases "n + 3 \<le> length dst")
    case True
    then obtain dst' where "write_at dst n ?bs = Some dst'" "length dst' = length dst"
      using len by (simp add: write_at_def)
    with grp len have g: "decode_group dst n [a, b, c, d] = Ok (dst', n + 3)" by simp
    have "length dst < n + 3 + 3 * (length rest div 4)"
      using "5.prems"(2) by (simp add: div_add_self1)
    then have "decode_loop dst' (n + 3) rest = Panic"
      using "5.IH" [OF g] "5.prems"(1) True \<open>length dst' = length dst\<close> by simp
    with g show ?thesis by simp
  next
    case False
    with grp len show ?thesis by (simp add: write_at_def)
  qed
qed auto

section \<open>The text encoding keeps the order of addresses\<close>

lemma lexordp_append_same_length:
  fixes xs ys :: "'a :: linorder list"
  shows "length xs = length ys \<Longrightarrow>
     ord_class.lexordp (xs @ us) (ys @ vs) \<longleftrightarrow> ord_class.lexordp xs ys \<or> xs = ys \<and> ord_class.lexordp us vs"
  by (induction xs ys rule: list_induct2) auto

lemma lexordp_map_mono:
  fixes f :: "'a :: linorder \<Rightarrow> 'b :: linorder"
  assumes "\<And>x y. x \<in> A \<Longrightarrow> y \<in> A \<Longrightarrow> f x < f y \<longleftrightarrow> x < y"
  shows "set xs \<subseteq> A \<Longrightarrow> set ys \<subseteq> A \<Longrightarrow> ord_class.lexordp (map f xs) (map f ys) \<longleftrightarrow> ord_class.lexordp xs ys"
proof (induction xs arbitrary: ys)
  case (Cons x xs)
  then show ?case by (cases ys) (auto simp: assms)
qed (auto simp: neq_Nil_conv intro: list.exhaust)

lemma horner_less:
  fixes x y acc acc' B :: nat
  assumes "x < B" "y < B"
  shows "acc * B + x < acc' * B + y \<longleftrightarrow> acc < acc' \<or> acc = acc' \<and> x < y"
    and "acc * B + x = acc' * B + y \<longleftrightarrow> acc = acc' \<and> x = y"
proof -
  have lt: "p * B + u < q * B + v" if "p < q" "u < B" for p q u v
  proof -
    from that have "p * B + u < (p + 1) * B" by simp
    also have "\<dots> \<le> q * B" using that(1) by (intro mult_le_mono1) simp
    finally show ?thesis by simp
  qed
  show "acc * B + x < acc' * B + y \<longleftrightarrow> acc < acc' \<or> acc = acc' \<and> x < y"
    using lt [of acc acc' x y] lt [of acc' acc y x] assms
    by (cases acc acc' rule: linorder_cases) auto
  show "acc * B + x = acc' * B + y \<longleftrightarrow> acc = acc' \<and> x = y"
    using lt [of acc acc' x y] lt [of acc' acc y x] assms
    by (cases acc acc' rule: linorder_cases) auto
qed

lemma lexordp_horner:
  fixes xs ys :: "nat list"
  assumes "length xs = length ys" "\<forall>x \<in> set xs. x < B" "\<forall>y \<in> set ys. y < B"
  shows "foldl (\<lambda>acc d. acc * B + d) m xs < foldl (\<lambda>acc d. acc * B + d) n ys \<longleftrightarrow>
     m < n \<or> m = n \<and> ord_class.lexordp xs ys"
  using assms
  by (induction xs ys arbitrary: m n rule: list_induct2) (auto simp: horner_less)

lemma lexordp_horner_eq:
  fixes xs ys :: "nat list"
  assumes "length xs = length ys" "\<forall>x \<in> set xs. x < B" "\<forall>y \<in> set ys. y < B"
  shows "foldl (\<lambda>acc d. acc * B + d) m xs = foldl (\<lambda>acc d. acc * B + d) n ys \<longleftrightarrow> m = n \<and> xs = ys"
  using assms
  by (induction xs ys arbitrary: m n rule: list_induct2) (auto simp: horner_less)

lemma enc_char_mono:
  assumes "i < 64" "j < 64"
  shows "enc_char i < enc_char j \<longleftrightarrow> i < j"
proof -
  have "sorted_wrt (<) Base64Alphabet" by code_simp
  then have "p < q \<Longrightarrow> q < 64 \<Longrightarrow> enc_char p < enc_char q" for p q
    by (simp add: enc_char_def sorted_wrt_iff_nth_less length_Base64Alphabet)
  with assms show ?thesis by (cases i j rule: linorder_cases) (auto dest: less_imp_not_less)
qed

lemma lexordp_unat: "ord_class.lexordp (map unat xs) (map unat ys) \<longleftrightarrow> ord_class.lexordp xs ys" for xs ys :: bytes
  by (rule lexordp_map_mono [of UNIV]) (simp_all add: word_less_nat_alt)

lemma horner_enc_digits:
  "foldl (\<lambda>acc d. acc * 64 + d) 0 (enc_digits [a, b, c]) = foldl (\<lambda>acc d. acc * 256 + d) 0 (map unat [a, b, c])"
proof -
  define v where "v = unat a * 65536 + unat b * 256 + unat c"
  have "v < 16777216" unfolding v_def by (rule group3_less)
  moreover have "foldl (\<lambda>acc d. acc * 256 + d) 0 (map unat [a, b, c]) = v"
    by (simp add: v_def)
  ultimately show ?thesis
    unfolding enc_digits.simps v_def [symmetric] Let_def
    by (simp only: foldl_Cons foldl_Nil append_Nil2 mult_zero_left add_0 sextets_recombine)
qed

lemma enc_digits_block3:
  fixes a b c a' b' c' :: byte
  shows "ord_class.lexordp (enc_digits [a, b, c]) (enc_digits [a', b', c']) \<longleftrightarrow> ord_class.lexordp [a, b, c] [a', b', c']"
    and "enc_digits [a, b, c] = enc_digits [a', b', c'] \<longleftrightarrow> [a, b, c] = [a', b', c']"
proof -
  have len: "length (enc_digits [a, b, c]) = length (enc_digits [a', b', c'])" by (simp add: Let_def)
  have dig: "\<forall>d \<in> set (enc_digits xs). d < 64" for xs using enc_digits_less by blast
  have len': "length (map unat [a, b, c]) = length (map unat [a', b', c'])" by simp
  have dig': "\<forall>d \<in> set (map unat xs). d < 256" for xs :: bytes by simp
  show "ord_class.lexordp (enc_digits [a, b, c]) (enc_digits [a', b', c']) \<longleftrightarrow> ord_class.lexordp [a, b, c] [a', b', c']"
    using lexordp_horner [OF len dig dig, of 0 0] lexordp_horner [OF len' dig' dig', of 0 0]
    unfolding horner_enc_digits lexordp_unat by blast
  show "enc_digits [a, b, c] = enc_digits [a', b', c'] \<longleftrightarrow> [a, b, c] = [a', b', c']"
    using lexordp_horner_eq [OF len dig dig, of 0 0] lexordp_horner_eq [OF len' dig' dig', of 0 0]
    unfolding horner_enc_digits by (simp only: inj_map_eq_map [OF inj_unsigned] simp_thms)
qed

lemma enc_digits_short:
  fixes a b :: byte
  shows "enc_digits [a, b, 0] = enc_digits [a, b] @ [0]" "enc_digits [a, 0, 0] = enc_digits [a] @ [0, 0]"
  by (simp_all only: enc_digits.simps Let_def unsigned_0 mult_zero_left add_0_right sextet_zero append_Nil2 append.simps)

lemma enc_digits_block_less:
  fixes a b a' b' :: byte
  shows "ord_class.lexordp (enc_digits [a, b]) (enc_digits [a', b']) \<longleftrightarrow> ord_class.lexordp [a, b] [a', b']"
    and "ord_class.lexordp (enc_digits [a]) (enc_digits [a']) \<longleftrightarrow> ord_class.lexordp [a] [a']"
proof -
  have len: "length (enc_digits [a, b]) = length (enc_digits [a', b'])" "length (enc_digits [a]) = length (enc_digits [a'])"
    by (simp_all add: Let_def)
  show "ord_class.lexordp (enc_digits [a, b]) (enc_digits [a', b']) \<longleftrightarrow> ord_class.lexordp [a, b] [a', b']"
    using enc_digits_block3(1) [of a b 0 a' b' 0]
    unfolding enc_digits_short lexordp_append_same_length [OF len(1)] by simp
  show "ord_class.lexordp (enc_digits [a]) (enc_digits [a']) \<longleftrightarrow> ord_class.lexordp [a] [a']"
    using enc_digits_block3(1) [of a 0 0 a' 0 0]
    unfolding enc_digits_short lexordp_append_same_length [OF len(2)] by simp
qed

lemma enc_digits_less_iff:
  "length xs = length ys \<Longrightarrow> ord_class.lexordp (enc_digits xs) (enc_digits ys) \<longleftrightarrow> ord_class.lexordp xs ys"
proof (induction xs arbitrary: ys rule: enc_digits.induct)
  case (2 a)
  then obtain a' where "ys = [a']" by (cases ys) auto
  then show ?case using enc_digits_block_less(2) [of a a'] by (simp only:)
next
  case (3 a b)
  then obtain a' b' where "ys = [a', b']" by (cases ys rule: enc_digits.cases) auto
  then show ?case using enc_digits_block_less(1) [of a b a' b'] by (simp only:)
next
  case (4 a b c rest)
  then obtain a' b' c' rest' where ys: "ys = a' # b' # c' # rest'" "length rest = length rest'"
    by (cases ys rule: enc_digits.cases) auto
  have len: "length (enc_digits [a, b, c]) = length (enc_digits [a', b', c'])" by (simp add: Let_def)
  have "ord_class.lexordp (enc_digits (a # b # c # rest)) (enc_digits ys) \<longleftrightarrow>
      ord_class.lexordp [a, b, c] [a', b', c'] \<or> [a, b, c] = [a', b', c'] \<and> ord_class.lexordp rest rest'"
    unfolding ys(1) enc_digits_Cons3 [of a b c rest] enc_digits_Cons3 [of a' b' c' rest']
      lexordp_append_same_length [OF len] enc_digits_block3 "4.IH" [OF refl ys(2)] ..
  also have "\<dots> \<longleftrightarrow> ord_class.lexordp (a # b # c # rest) ys"
    using lexordp_append_same_length [of "[a, b, c]" "[a', b', c']" rest rest'] ys by simp
  finally show ?case .
qed simp

lemma MarshalText_less_iff:
  assumes "is_addr a" "is_addr b"
  shows "ord_class.lexordp (MarshalText a) (MarshalText b) \<longleftrightarrow> ord_class.lexordp a b"
proof -
  have "ord_class.lexordp (MarshalText a) (MarshalText b) \<longleftrightarrow> ord_class.lexordp (enc_digits a) (enc_digits b)"
    unfolding MarshalText_def EncodeToString_def
    by (rule lexordp_map_mono [of "{..<64}"]) (auto simp: enc_char_mono dest: enc_digits_less)
  with assms show ?thesis by (simp add: enc_digits_less_iff is_addr_def)
qed

section \<open>The prefix test\<close>

lemma le_length_takeWhile:
  "j \<le> length xs \<Longrightarrow> j \<le> length (takeWhile P xs) \<longleftrightarrow> (\<forall>i < j. P (xs ! i))"
proof (induction xs arbitrary: j)
  case (Cons x xs)
  then show ?case by (cases j) (auto simp: nth_Cons split: nat.splits)
qed simp

lemma LeadingZeros8_le: "LeadingZeros8 w \<le> 8"
  using length_takeWhile_le [of _ "[0..<8]"] by (simp add: LeadingZeros8_def)

lemma le_LeadingZeros8: "j \<le> 8 \<Longrightarrow> j \<le> LeadingZeros8 w \<longleftrightarrow> (\<forall>i < j. \<not> bit w (7 - i))"
  unfolding LeadingZeros8_def by (subst le_length_takeWhile) auto

lemma take_byte_msb:
  fixes x y :: byte
  assumes "j \<le> 8"
  shows "take j (map (\<lambda>i. bit x (7 - i)) [0..<8]) = take j (map (\<lambda>i. bit y (7 - i)) [0..<8]) \<longleftrightarrow>
     j \<le> LeadingZeros8 (x XOR y)"
  using assms by (auto simp: le_LeadingZeros8 take_map min_def bit_xor_iff)


lemma byte_bits_Cons: "byte_bits pos (x # xs) = map (\<lambda>i. bit x (pos i)) [0..<8] @ byte_bits pos xs"
proof (rule nth_equalityI)
  fix i assume "i < length (byte_bits pos (x # xs))"
  then show "byte_bits pos (x # xs) ! i = (map (\<lambda>i. bit x (pos i)) [0..<8] @ byte_bits pos xs) ! i"
    by (cases "i < 8") (simp_all add: nth_append nth_Cons' le_div_geq le_mod_geq)
qed simp

lemma id_HasPrefix_loop_ok:
  "int n = nbits - acc \<Longrightarrow> 0 < n \<Longrightarrow>
   id_HasPrefix_loop x p nbits acc \<longleftrightarrow>
     n \<le> 8 * length x \<and> n \<le> 8 * length p \<and> take n (bits_msb x) = take n (bits_msb p)"
proof (induction x p nbits acc arbitrary: n rule: id_HasPrefix_loop.induct)
  case (3 x xs p ps nbits acc)
  define k where "k = LeadingZeros8 (x XOR p)"
  let ?b = "\<lambda>w :: byte. map (\<lambda>i. bit w (7 - i)) [0..<8]"
  have bits: "bits_msb (x # xs) = ?b x @ bits_msb xs" "bits_msb (p # ps) = ?b p @ bits_msb ps"
    by (simp_all add: byte_bits_Cons)
  have first: "take j (?b x) = take j (?b p) \<longleftrightarrow> j \<le> k" if "j \<le> 8" for j
    using take_byte_msb [OF that, of x p] by (simp only: k_def)
  consider "n \<le> k" | "k < n" "k < 8" | "k < n" "k = 8"
    using LeadingZeros8_le [of "x XOR p"] by (fastforce simp: k_def)
  then show ?case
  proof cases
    case 1
    then have "n \<le> 8" using LeadingZeros8_le [of "x XOR p"] by (simp add: k_def)
    with 1 first [of n] "3.prems" show ?thesis
      by (simp add: bits Let_def k_def [symmetric] del: msb_pos_def)
  next
    case 2
    have "take n (?b x @ bits_msb xs) \<noteq> take n (?b p @ bits_msb ps)"
    proof
      assume "take n (?b x @ bits_msb xs) = take n (?b p @ bits_msb ps)"
      then have "take (k + 1) (take n (?b x @ bits_msb xs)) = take (k + 1) (take n (?b p @ bits_msb ps))" by simp
      with 2 first [of "k + 1"] show False by (simp add: min_def)
    qed
    with 2 "3.prems" show ?thesis by (simp add: bits Let_def k_def [symmetric] del: msb_pos_def)
  next
    case 3
    have "?b x = ?b p" using first [of 8] 3 by simp
    moreover have "id_HasPrefix_loop xs ps nbits (acc + int k) \<longleftrightarrow>
        n - 8 \<le> 8 * length xs \<and> n - 8 \<le> 8 * length ps \<and> take (n - 8) (bits_msb xs) = take (n - 8) (bits_msb ps)"
      using "3.prems" 3 by (intro "3.IH" [OF refl, folded k_def, OF refl]) auto
    ultimately show ?thesis
      using 3 "3.prems" by (simp only: bits id_HasPrefix_loop.simps Let_def k_def [symmetric]) auto
  qed
qed auto

lemma UnmarshalText_long:
  assumes "\<forall>c \<in> set data. c \<in> set Base64Alphabet" "44 \<le> length data" "is_addr a"
  shows "UnmarshalText a data = Panic"
proof -
  have dec: "\<forall>c \<in> set data. dec_char c \<noteq> None"
    using assms(1) dec_enc_char by (metis enc_char_def in_set_conv_nth length_Base64Alphabet option.discI)
  have "\<not> is_newline c" if "c \<in> set data" for c
    using assms(1) that enc_char_not_newline by (metis enc_char_def in_set_conv_nth length_Base64Alphabet)
  then have "filter (\<lambda>c. \<not> is_newline c) data = data" by simp
  moreover have "11 \<le> length data div 4" using div_le_mono [OF assms(2), of 4] by simp
  then have "decode_loop a 0 data = Panic"
    by (intro decode_loop_overflow [OF dec]) (use assms(3) in \<open>auto simp: is_addr_def AddrSize_def\<close>)
  ultimately show ?thesis
    by (simp add: UnmarshalText_def base64_Decode_def)
qed

lemma id_HasPrefix_bits:
  "0 < n \<Longrightarrow> id_HasPrefix x p (int n) \<longleftrightarrow>
     n \<le> 8 * length x \<and> n \<le> 8 * length p \<and> take n (bits_msb x) = take n (bits_msb p)"
  unfolding id_HasPrefix_def by (rule id_HasPrefix_loop_ok) auto

section \<open>Properties\<close>

text \<open>Parsing the text form of an address gives the address back.\<close>

theorem ParseAddrBase64_Base64String:
  assumes "is_addr a"
  shows "ParseAddrBase64 (Base64String a) = Ok a"
  using UnmarshalText_MarshalText [OF is_addr_zero assms] by (simp add: ParseAddrBase64_def Base64String_def)

theorem ParseAddrBase64_Base64String_witness:
  "is_addr (IDFromBytes [7, 250, 1]) \<and>
   ParseAddrBase64 (Base64String (IDFromBytes [7, 250, 1])) = Ok (IDFromBytes [7, 250, 1])"
  using ParseAddrBase64_Base64String [of "IDFromBytes [7, 250, 1]"] by simp

text \<open>
  The text form keeps the order of addresses: the texts of two addresses compare, character by
  character, as the addresses compare byte by byte.
\<close>

theorem Base64String_order:
  assumes "is_addr a" "is_addr b"
  shows "ord_class.lexordp (Base64String a) (Base64String b) \<longleftrightarrow> ord_class.lexordp a b"
  using MarshalText_less_iff [OF assms] by (simp add: Base64String_def)

theorem Base64String_order_witness:
  "ord_class.lexordp (Base64String (IDFromBytes [1, 2])) (Base64String (IDFromBytes [1, 3]))"
  using Base64String_order [of "IDFromBytes [1, 2]" "IDFromBytes [1, 3]"]
  by (simp add: IDFromBytes_def gocopy_def zero_addr_def AddrSize_def is_addr_def)

text \<open>
  A text of 44 or more characters of the alphabet makes the parser panic: the decoder writes
  past the 32 bytes of the address before the length is looked at.
\<close>

theorem ParseAddrBase64_long_panics:
  assumes "\<forall>c \<in> set data. c \<in> set Base64Alphabet" "44 \<le> length data"
  shows "ParseAddrBase64 data = Panic"
  using UnmarshalText_long [OF assms is_addr_zero] by (simp add: ParseAddrBase64_def)

theorem ParseAddrBase64_long_panics_witness:
  "ParseAddrBase64 (replicate 44 (CHR ''-'')) = Panic"
  using ParseAddrBase64_long_panics [of "replicate 44 (CHR ''-'')"] by (simp add: Base64Alphabet_def)

text \<open>
  For a positive number of bits, \<^verbatim>\<open>HasPrefix\<close> holds exactly when both arguments have that many
  bits and agree on them, most significant bit first.
\<close>

theorem id_HasPrefix_correct:
  "id_HasPrefix x p (int (Suc n)) \<longleftrightarrow>
     n < 8 * length x \<and> n < 8 * length p \<and> take (Suc n) (bits_msb x) = take (Suc n) (bits_msb p)"
  by (simp only: id_HasPrefix_bits [OF zero_less_Suc] Suc_le_eq)

end
