(* ===== verification/Pki.thy ===== *)
theory Pki
  imports Ident
begin

text \<open>
  Keys and signatures, \<^verbatim>\<open>src/inet256/pki.go\<close> and \<^verbatim>\<open>src/internal/crypto\<close>: the sponge-based
  \<^verbatim>\<open>XOF\<close>, the product signature scheme, and the PKI that tags keys with the name of their scheme,
  derives node addresses from them, signs and verifies. The signature algorithms of CIRCL and the
  SHA-3 sponge are third-party code: they are the records \<open>circl\<close> and \<open>sponge\<close>, arguments of every
  definition that uses them.
\<close>

section \<open>The sponge\<close>

text \<open>
  \<open>shake256 input n\<close> is \<^verbatim>\<open>sha3.ShakeSum256\<close> with an output of \<open>n\<close> bytes; \<open>cshake256 N S input n\<close> reads
  \<open>n\<close> bytes from a \<^verbatim>\<open>sha3.NewCShake256(N, S)\<close> hash into which \<open>input\<close> has been written.
\<close>

record sponge =
  shake256 :: "bytes \<Rightarrow> nat \<Rightarrow> bytes"
  cshake256 :: "bytes \<Rightarrow> bytes \<Rightarrow> bytes \<Rightarrow> nat \<Rightarrow> bytes"

text \<open>With a salt, \<^verbatim>\<open>XOF\<close> reads from a hash into which nothing has been written.\<close>

definition XOF :: "sponge \<Rightarrow> bytes option \<Rightarrow> bytes \<Rightarrow> nat \<Rightarrow> bytes" where
  "XOF sp salt inp n = (case salt of None \<Rightarrow> shake256 sp inp n | Some s \<Rightarrow> cshake256 sp [] s [] n)"

definition crypto_Sum256 :: "sponge \<Rightarrow> bytes option \<Rightarrow> bytes \<Rightarrow> bytes" where
  "crypto_Sum256 sp salt inp = XOF sp salt inp 32"

definition Sum256 :: "sponge \<Rightarrow> bytes \<Rightarrow> bytes" where
  "Sum256 sp data = shake256 sp data 32"

definition SigCtxString :: "sponge \<Rightarrow> string \<Rightarrow> bytes" where
  "SigCtxString sp x = crypto_Sum256 sp None (bytes_of_string x)"

section \<open>Schemes and keys\<close>

datatype algo = Ed25519 | Dilithium2

datatype scheme = BaseScheme algo | ProductSignScheme "scheme list"

datatype 'p public_key = BasePublic algo 'p | ProductVerifier "'p public_key list"

datatype 's private_key = BasePrivate algo 's | ProductSigner "'s private_key list"

datatype pki_error = WrongSize | BadKey | TagTooShort | UnknownAlgorithm | NotPrivate
  | NoScheme | MultipleSchemes | NoDefault | NoEntropy

text \<open>What the sources use of the CIRCL algorithms; \<open>'r\<close> is the state of the entropy source.\<close>

record ('p, 's, 'r) circl =
  c_pub_size :: "algo \<Rightarrow> nat"
  c_priv_size :: "algo \<Rightarrow> nat"
  c_sig_size :: "algo \<Rightarrow> nat"
  c_seed_size :: "algo \<Rightarrow> nat"
  c_ctx :: "algo \<Rightarrow> bool"
  c_generate :: "algo \<Rightarrow> 'r \<Rightarrow> (pki_error, ('p \<times> 's) \<times> 'r) outcome"
  c_public :: "algo \<Rightarrow> 's \<Rightarrow> 'p"
  c_sign :: "algo \<Rightarrow> 's \<Rightarrow> bytes \<Rightarrow> bytes"
  c_verify :: "algo \<Rightarrow> 'p \<Rightarrow> bytes \<Rightarrow> bytes \<Rightarrow> bool"
  c_marshal_pub :: "algo \<Rightarrow> 'p \<Rightarrow> (pki_error, bytes) outcome"
  c_unmarshal_pub :: "algo \<Rightarrow> bytes \<Rightarrow> (pki_error, 'p) outcome"
  c_marshal_priv :: "algo \<Rightarrow> 's \<Rightarrow> (pki_error, bytes) outcome"
  c_unmarshal_priv :: "algo \<Rightarrow> bytes \<Rightarrow> (pki_error, 's) outcome"
  c_pub_equal :: "algo \<Rightarrow> 'p \<Rightarrow> 'p \<Rightarrow> bool"
  c_priv_equal :: "algo \<Rightarrow> 's \<Rightarrow> 's \<Rightarrow> bool"
  c_signer :: "algo \<Rightarrow> 's \<Rightarrow> bytes \<Rightarrow> (pki_error, bytes) outcome"

subsection \<open>Sizes\<close>

fun scheme_PublicKeySize :: "('p, 's, 'r) circl \<Rightarrow> scheme \<Rightarrow> nat" where
  "scheme_PublicKeySize c (BaseScheme a) = c_pub_size c a"
| "scheme_PublicKeySize c (ProductSignScheme ss) = sum_list (map (scheme_PublicKeySize c) ss)"

fun scheme_PrivateKeySize :: "('p, 's, 'r) circl \<Rightarrow> scheme \<Rightarrow> nat" where
  "scheme_PrivateKeySize c (BaseScheme a) = c_priv_size c a"
| "scheme_PrivateKeySize c (ProductSignScheme ss) = sum_list (map (scheme_PrivateKeySize c) ss)"

fun scheme_SignatureSize :: "('p, 's, 'r) circl \<Rightarrow> scheme \<Rightarrow> nat" where
  "scheme_SignatureSize c (BaseScheme a) = c_sig_size c a"
| "scheme_SignatureSize c (ProductSignScheme ss) = sum_list (map (scheme_SignatureSize c) ss)"

fun scheme_SeedSize :: "('p, 's, 'r) circl \<Rightarrow> scheme \<Rightarrow> nat" where
  "scheme_SeedSize c (BaseScheme a) = c_seed_size c a"
| "scheme_SeedSize c (ProductSignScheme ss) = sum_list (map (scheme_SeedSize c) ss)"

fun scheme_SupportsContext :: "('p, 's, 'r) circl \<Rightarrow> scheme \<Rightarrow> bool" where
  "scheme_SupportsContext c (BaseScheme a) = c_ctx c a"
| "scheme_SupportsContext c (ProductSignScheme ss) = list_all (scheme_SupportsContext c) ss"

subsection \<open>Methods of keys\<close>

text \<open>
  The \<^verbatim>\<open>Scheme\<close> methods of the product keys return an empty product; the loop of the private key's
  method fills a local slice that is dropped.
\<close>

fun public_Scheme :: "'p public_key \<Rightarrow> scheme" where
  "public_Scheme (BasePublic a p) = BaseScheme a"
| "public_Scheme (ProductVerifier ks) = ProductSignScheme []"

fun private_Scheme :: "'s private_key \<Rightarrow> scheme" where
  "private_Scheme (BasePrivate a s) = BaseScheme a"
| "private_Scheme (ProductSigner ks) = ProductSignScheme []"

fun private_Public :: "('p, 's, 'r) circl \<Rightarrow> 's private_key \<Rightarrow> 'p public_key" where
  "private_Public c (BasePrivate a s) = BasePublic a (c_public c a s)"
| "private_Public c (ProductSigner ks) = ProductVerifier (map (private_Public c) ks)"

definition PublicFromPrivate :: "('p, 's, 'r) circl \<Rightarrow> 's private_key \<Rightarrow> 'p public_key" where
  "PublicFromPrivate c x = private_Public c x"

text \<open>\<^verbatim>\<open>Equal\<close> on product keys compares componentwise; keys of different types are never equal.\<close>

fun public_Equal :: "('p, 's, 'r) circl \<Rightarrow> 'p public_key \<Rightarrow> 'p public_key \<Rightarrow> bool" where
  "public_Equal c (BasePublic a p) (BasePublic b q) = (a = b \<and> c_pub_equal c a p q)"
| "public_Equal c (ProductVerifier xs) (ProductVerifier ys) = list_all2 (public_Equal c) xs ys"
| "public_Equal c _ _ = False"

fun private_Equal :: "('p, 's, 'r) circl \<Rightarrow> 's private_key \<Rightarrow> 's private_key \<Rightarrow> bool" where
  "private_Equal c (BasePrivate a p) (BasePrivate b q) = (a = b \<and> c_priv_equal c a p q)"
| "private_Equal c (ProductSigner xs) (ProductSigner ys) = list_all2 (private_Equal c) xs ys"
| "private_Equal c _ _ = False"

text \<open>The \<^verbatim>\<open>crypto.Signer\<close> method of private keys.\<close>

fun signer_Sign :: "('p, 's, 'r) circl \<Rightarrow> 's private_key \<Rightarrow> bytes \<Rightarrow> (pki_error, bytes) outcome"
  and signer_sign_all :: "('p, 's, 'r) circl \<Rightarrow> 's private_key list \<Rightarrow> bytes \<Rightarrow> bytes \<Rightarrow> (pki_error, bytes) outcome"
where
  "signer_Sign c (BasePrivate a s) msg = c_signer c a s msg"
| "signer_Sign c (ProductSigner ks) msg = signer_sign_all c ks msg []"
| "signer_sign_all c [] msg ret = Ok ret"
| "signer_sign_all c (k # ks) msg ret =
     obind (signer_Sign c k msg) (\<lambda>sig. signer_sign_all c ks msg (ret @ sig))"

fun public_MarshalBinary :: "('p, 's, 'r) circl \<Rightarrow> 'p public_key \<Rightarrow> (pki_error, bytes) outcome"
  and public_marshal_all :: "('p, 's, 'r) circl \<Rightarrow> 'p public_key list \<Rightarrow> bytes \<Rightarrow> (pki_error, bytes) outcome"
where
  "public_MarshalBinary c (BasePublic a p) = c_marshal_pub c a p"
| "public_MarshalBinary c (ProductVerifier ks) = public_marshal_all c ks []"
| "public_marshal_all c [] ret = Ok ret"
| "public_marshal_all c (k # ks) ret =
     obind (public_MarshalBinary c k) (\<lambda>data. public_marshal_all c ks (ret @ data))"

fun private_MarshalBinary :: "('p, 's, 'r) circl \<Rightarrow> 's private_key \<Rightarrow> (pki_error, bytes) outcome"
  and private_marshal_all :: "('p, 's, 'r) circl \<Rightarrow> 's private_key list \<Rightarrow> bytes \<Rightarrow> (pki_error, bytes) outcome"
where
  "private_MarshalBinary c (BasePrivate a p) = c_marshal_priv c a p"
| "private_MarshalBinary c (ProductSigner ks) = private_marshal_all c ks []"
| "private_marshal_all c [] ret = Ok ret"
| "private_marshal_all c (k # ks) ret =
     obind (private_MarshalBinary c k) (\<lambda>data. private_marshal_all c ks (ret @ data))"

subsection \<open>Methods of schemes\<close>

text \<open>
  Signing and verifying panic on a key of the wrong type. \<^verbatim>\<open>Verify\<close> of a product never advances its
  offset, so every component scheme is given the first bytes of the signature.
\<close>

fun scheme_Sign :: "('p, 's, 'r) circl \<Rightarrow> scheme \<Rightarrow> 's private_key \<Rightarrow> bytes \<Rightarrow> bytes option"
  and sign_all :: "('p, 's, 'r) circl \<Rightarrow> scheme list \<Rightarrow> 's private_key list \<Rightarrow> bytes \<Rightarrow> bytes \<Rightarrow> bytes option"
where
  "scheme_Sign c (BaseScheme a) (BasePrivate b s) msg = (if a = b then Some (c_sign c a s msg) else None)"
| "scheme_Sign c (BaseScheme a) (ProductSigner ks) msg = None"
| "scheme_Sign c (ProductSignScheme ss) (BasePrivate b s) msg = None"
| "scheme_Sign c (ProductSignScheme ss) (ProductSigner ks) msg = sign_all c ss ks msg []"
| "sign_all c [] ks msg sig = Some sig"
| "sign_all c (s # ss) [] msg sig = None"
| "sign_all c (s # ss) (k # ks) msg sig =
     Option.bind (scheme_Sign c s k msg) (\<lambda>sig2. sign_all c ss ks msg (sig @ sig2))"

fun scheme_Verify :: "('p, 's, 'r) circl \<Rightarrow> scheme \<Rightarrow> 'p public_key \<Rightarrow> bytes \<Rightarrow> bytes \<Rightarrow> bool option"
  and verify_all :: "('p, 's, 'r) circl \<Rightarrow> scheme list \<Rightarrow> 'p public_key list \<Rightarrow> bytes \<Rightarrow> bytes \<Rightarrow> nat \<Rightarrow> bool option"
where
  "scheme_Verify c (BaseScheme a) (BasePublic b p) msg sig = (if a = b then Some (c_verify c a p msg sig) else None)"
| "scheme_Verify c (BaseScheme a) (ProductVerifier ks) msg sig = None"
| "scheme_Verify c (ProductSignScheme ss) pk msg sig =
     (if length sig \<noteq> scheme_SignatureSize c (ProductSignScheme ss) then Some False
      else case pk of BasePublic b p \<Rightarrow> None
           | ProductVerifier ks \<Rightarrow> verify_all c ss ks msg sig 0)"
| "verify_all c [] ks msg sig offset = Some True"
| "verify_all c (s # ss) [] msg sig offset = None"
| "verify_all c (s # ss) (k # ks) msg sig offset =
     Option.bind (goslice sig offset (offset + scheme_SignatureSize c s)) (\<lambda>sig2.
     Option.bind (scheme_Verify c s k msg sig2) (\<lambda>ok.
     if \<not> ok then Some False else verify_all c ss ks msg sig offset))"

fun scheme_GenerateKey ::
    "('p, 's, 'r) circl \<Rightarrow> scheme \<Rightarrow> 'r \<Rightarrow> (pki_error, ('p public_key \<times> 's private_key) \<times> 'r) outcome"
  and generate_all ::
    "('p, 's, 'r) circl \<Rightarrow> scheme list \<Rightarrow> 'r \<Rightarrow> (pki_error, ('p public_key list \<times> 's private_key list) \<times> 'r) outcome"
where
  "scheme_GenerateKey c (BaseScheme a) r =
     obind (c_generate c a r) (\<lambda>((p, s), r'). Ok ((BasePublic a p, BasePrivate a s), r'))"
| "scheme_GenerateKey c (ProductSignScheme ss) r =
     obind (generate_all c ss r) (\<lambda>((ps, ks), r'). Ok ((ProductVerifier ps, ProductSigner ks), r'))"
| "generate_all c [] r = Ok (([], []), r)"
| "generate_all c (s # ss) r =
     obind (scheme_GenerateKey c s r) (\<lambda>((p, k), r1).
     obind (generate_all c ss r1) (\<lambda>((ps, ks), r2). Ok ((p # ps, k # ks), r2)))"

fun scheme_UnmarshalBinaryPublicKey ::
    "('p, 's, 'r) circl \<Rightarrow> scheme \<Rightarrow> bytes \<Rightarrow> (pki_error, 'p public_key) outcome"
  and unmarshal_public_all ::
    "('p, 's, 'r) circl \<Rightarrow> scheme list \<Rightarrow> bytes \<Rightarrow> nat \<Rightarrow> (pki_error, 'p public_key list) outcome"
where
  "scheme_UnmarshalBinaryPublicKey c (BaseScheme a) data =
     obind (c_unmarshal_pub c a data) (\<lambda>p. Ok (BasePublic a p))"
| "scheme_UnmarshalBinaryPublicKey c (ProductSignScheme ss) data =
     (if length data \<noteq> scheme_PublicKeySize c (ProductSignScheme ss) then Err WrongSize
      else obind (unmarshal_public_all c ss data 0) (\<lambda>ks. Ok (ProductVerifier ks)))"
| "unmarshal_public_all c [] data offset = Ok []"
| "unmarshal_public_all c (s # ss) data offset =
     obind (unwinds (goslice data offset (offset + scheme_PublicKeySize c s))) (\<lambda>data2.
     obind (scheme_UnmarshalBinaryPublicKey c s data2) (\<lambda>k.
     obind (unmarshal_public_all c ss data (offset + scheme_PublicKeySize c s)) (\<lambda>ks. Ok (k # ks))))"

text \<open>
  The private-key counterpart slices by the size of the \<^emph>\<open>public\<close> key and leaves the offset at zero.
\<close>

fun scheme_UnmarshalBinaryPrivateKey ::
    "('p, 's, 'r) circl \<Rightarrow> scheme \<Rightarrow> bytes \<Rightarrow> (pki_error, 's private_key) outcome"
  and unmarshal_private_all ::
    "('p, 's, 'r) circl \<Rightarrow> scheme list \<Rightarrow> bytes \<Rightarrow> nat \<Rightarrow> (pki_error, 's private_key list) outcome"
where
  "scheme_UnmarshalBinaryPrivateKey c (BaseScheme a) data =
     obind (c_unmarshal_priv c a data) (\<lambda>p. Ok (BasePrivate a p))"
| "scheme_UnmarshalBinaryPrivateKey c (ProductSignScheme ss) data =
     (if length data \<noteq> scheme_PrivateKeySize c (ProductSignScheme ss) then Err WrongSize
      else obind (unmarshal_private_all c ss data 0) (\<lambda>ks. Ok (ProductSigner ks)))"
| "unmarshal_private_all c [] data offset = Ok []"
| "unmarshal_private_all c (s # ss) data offset =
     obind (unwinds (goslice data offset (offset + scheme_PublicKeySize c s))) (\<lambda>data2.
     obind (scheme_UnmarshalBinaryPrivateKey c s data2) (\<lambda>k.
     obind (unmarshal_private_all c ss data offset) (\<lambda>ks. Ok (k # ks))))"

section \<open>The PKI\<close>

record PKI =
  Default :: string
  Schemes :: "string \<rightharpoonup> scheme"

definition SignAlgo_Ed25519 :: string where "SignAlgo_Ed25519 = ''ed25519''"

definition SignAlgo_Dilithium2 :: string where "SignAlgo_Dilithium2 = ''dilithium2''"

definition PrivateSuffix :: string where "PrivateSuffix = ''.private''"

definition SignAlgo_Product :: "string list \<Rightarrow> string" where
  "SignAlgo_Product tags = ''('' @ strings_Join (''product'' # tags) '' '' @ '')''"

definition DefaultPKI :: PKI where
  "DefaultPKI = \<lparr>Default = SignAlgo_Ed25519,
     Schemes = [SignAlgo_Ed25519 \<mapsto> BaseScheme Ed25519,
                SignAlgo_Dilithium2 \<mapsto> BaseScheme Dilithium2,
                SignAlgo_Product [SignAlgo_Ed25519, SignAlgo_Dilithium2] \<mapsto>
                  ProductSignScheme [BaseScheme Ed25519, BaseScheme Dilithium2]]\<rparr>"

text \<open>
  The operations that range over the scheme map take the order \<open>ks\<close> of the iteration.
\<close>

definition MaxPublicKeySize :: "('p, 's, 'r) circl \<Rightarrow> PKI \<Rightarrow> string list \<Rightarrow> nat" where
  "MaxPublicKeySize c pki ks =
     foldl (\<lambda>ret name. max ret (scheme_PublicKeySize c (the (Schemes pki name)) + length name + 2)) 0 ks"

definition MaxSigSize :: "('p, 's, 'r) circl \<Rightarrow> PKI \<Rightarrow> string list \<Rightarrow> nat" where
  "MaxSigSize c pki ks = foldl (\<lambda>ret name. max ret (scheme_SignatureSize c (the (Schemes pki name)))) 0 ks"

definition pki_GenerateKey ::
  "('p, 's, 'r) circl \<Rightarrow> PKI \<Rightarrow> 'r \<Rightarrow> (pki_error, ('p public_key \<times> 's private_key) \<times> 'r) outcome" where
  "pki_GenerateKey c pki r =
     (case Schemes pki (Default pki) of None \<Rightarrow> Err NoDefault | Some sch \<Rightarrow> scheme_GenerateKey c sch r)"

definition findTag :: "PKI \<Rightarrow> string list \<Rightarrow> scheme \<Rightarrow> (pki_error, string) outcome" where
  "findTag pki ks target =
     (case filter (\<lambda>tag. Schemes pki tag = Some target) ks of
        [] \<Rightarrow> Err NoScheme
      | [tag] \<Rightarrow> Ok tag
      | _ \<Rightarrow> Err MultipleSchemes)"

text \<open>The length of the tag is truncated to 16 bits.\<close>

definition writeTag :: "bytes \<Rightarrow> string \<Rightarrow> bytes" where
  "writeTag out tag = out @ put_le16 (of_nat (length tag)) @ bytes_of_string tag"

definition readTag :: "bytes \<Rightarrow> (pki_error, string \<times> bytes) outcome" where
  "readTag data =
     (if length data < 2 then Err TagTooShort
      else let tagLen = unat (get_le16 (take 2 data)); data' = drop 2 data
           in if length data' < tagLen then Err TagTooShort
              else Ok (string_of_bytes (take tagLen data'), drop tagLen data'))"

definition pki_ParsePublicKey :: "('p, 's, 'r) circl \<Rightarrow> PKI \<Rightarrow> bytes \<Rightarrow> (pki_error, 'p public_key) outcome" where
  "pki_ParsePublicKey c pki data =
     obind (readTag data) (\<lambda>(tag, data').
       case Schemes pki tag of None \<Rightarrow> Err UnknownAlgorithm
       | Some sch \<Rightarrow> scheme_UnmarshalBinaryPublicKey c sch data')"

definition pki_MarshalPublicKey ::
  "('p, 's, 'r) circl \<Rightarrow> PKI \<Rightarrow> string list \<Rightarrow> bytes \<Rightarrow> 'p public_key \<Rightarrow> (pki_error, bytes) outcome" where
  "pki_MarshalPublicKey c pki ks out pubKey =
     obind (findTag pki ks (public_Scheme pubKey)) (\<lambda>tag.
     obind (public_MarshalBinary c pubKey) (\<lambda>pubKeyBytes.
     Ok (writeTag out tag @ pubKeyBytes)))"

text \<open>\<^verbatim>\<open>strings.CutSuffix\<close>\<close>

definition strings_CutSuffix :: "string \<Rightarrow> string \<Rightarrow> string \<times> bool" where
  "strings_CutSuffix s sfx = (if suffix sfx s then (take (length s - length sfx) s, True) else (s, False))"

text \<open>An unknown tag yields the nil scheme, whose method call panics.\<close>

definition pki_ParsePrivateKey :: "('p, 's, 'r) circl \<Rightarrow> PKI \<Rightarrow> bytes \<Rightarrow> (pki_error, 's private_key) outcome" where
  "pki_ParsePrivateKey c pki data =
     obind (readTag data) (\<lambda>(tag, data').
       let (tag', isPrivate) = strings_CutSuffix tag PrivateSuffix
       in if \<not> isPrivate then Err NotPrivate
          else case Schemes pki tag' of None \<Rightarrow> Panic
               | Some sch \<Rightarrow> scheme_UnmarshalBinaryPrivateKey c sch data')"

definition pki_MarshalPrivateKey ::
  "('p, 's, 'r) circl \<Rightarrow> PKI \<Rightarrow> string list \<Rightarrow> bytes \<Rightarrow> 's private_key \<Rightarrow> (pki_error, bytes) outcome" where
  "pki_MarshalPrivateKey c pki ks out privateKey =
     obind (findTag pki ks (private_Scheme privateKey)) (\<lambda>tag.
     obind (private_MarshalBinary c privateKey) (\<lambda>keyBytes.
     Ok (writeTag out (tag @ PrivateSuffix) @ keyBytes)))"

text \<open>The package-level functions on the default PKI panic on a marshalling error.\<close>

definition MarshalPublicKey :: "('p, 's, 'r) circl \<Rightarrow> string list \<Rightarrow> bytes \<Rightarrow> 'p public_key \<Rightarrow> bytes option" where
  "MarshalPublicKey c ks out pubKey =
     (case pki_MarshalPublicKey c DefaultPKI ks out pubKey of Ok data \<Rightarrow> Some data | _ \<Rightarrow> None)"

definition MarshalPrivateKey :: "('p, 's, 'r) circl \<Rightarrow> string list \<Rightarrow> bytes \<Rightarrow> 's private_key \<Rightarrow> bytes option" where
  "MarshalPrivateKey c ks out privKey =
     (case pki_MarshalPrivateKey c DefaultPKI ks out privKey of Ok data \<Rightarrow> Some data | _ \<Rightarrow> None)"

definition ParsePublicKey :: "('p, 's, 'r) circl \<Rightarrow> bytes \<Rightarrow> (pki_error, 'p public_key) outcome" where
  "ParsePublicKey c x = pki_ParsePublicKey c DefaultPKI x"

definition ParsePrivateKey :: "('p, 's, 'r) circl \<Rightarrow> bytes \<Rightarrow> (pki_error, 's private_key) outcome" where
  "ParsePrivateKey c x = pki_ParsePrivateKey c DefaultPKI x"

definition pki_NewID ::
  "('p, 's, 'r) circl \<Rightarrow> sponge \<Rightarrow> PKI \<Rightarrow> string list \<Rightarrow> 'p public_key \<Rightarrow> addr option" where
  "pki_NewID c sp pki ks pubKey =
     (case pki_MarshalPublicKey c pki ks [] pubKey of Ok data \<Rightarrow> Some (crypto_Sum256 sp None data) | _ \<Rightarrow> None)"

definition NewID :: "('p, 's, 'r) circl \<Rightarrow> sponge \<Rightarrow> string list \<Rightarrow> 'p public_key \<Rightarrow> addr option" where
  "NewID c sp ks pubKey = pki_NewID c sp DefaultPKI ks pubKey"

text \<open>A nil signature context panics. The input of the algorithm is 512 bytes of \<^verbatim>\<open>XOF\<close> output.\<close>

definition pki_Sign ::
  "('p, 's, 'r) circl \<Rightarrow> sponge \<Rightarrow> bytes option \<Rightarrow> 's private_key \<Rightarrow> bytes \<Rightarrow> bytes \<Rightarrow> bytes option" where
  "pki_Sign c sp sigCtx privateKey msg out =
     (case sigCtx of None \<Rightarrow> None
      | Some ctx \<Rightarrow>
          Option.bind (scheme_Sign c (private_Scheme privateKey) privateKey (XOF sp (Some ctx) msg 512))
            (\<lambda>sig. Some (out @ sig)))"

definition pki_Verify ::
  "('p, 's, 'r) circl \<Rightarrow> sponge \<Rightarrow> bytes option \<Rightarrow> 'p public_key \<Rightarrow> bytes \<Rightarrow> bytes \<Rightarrow> bool option" where
  "pki_Verify c sp sigCtx pubKey msg sig =
     (case sigCtx of None \<Rightarrow> None
      | Some ctx \<Rightarrow> scheme_Verify c (public_Scheme pubKey) pubKey (XOF sp (Some ctx) msg 512) sig)"

section \<open>Tags\<close>

lemma readTag_writeTag:
  "length tag < 65536 \<Longrightarrow> readTag (writeTag [] tag @ rest) = Ok (tag, rest)"
  using get_put_le16 [of "of_nat (length tag)" "[]"]
  by (simp add: readTag_def writeTag_def Let_def unat_of_nat_small)

lemma filter_single:
  assumes "distinct xs" "t \<in> set xs" "P t" "\<forall>x \<in> set xs. P x \<longrightarrow> x = t"
  shows "filter P xs = [t]"
proof -
  have "set (filter P xs) = {t}" unfolding set_filter using assms(2-4) by blast
  moreover have "length (filter P xs) = card (set (filter P xs))"
    by (rule distinct_card [symmetric]) (simp add: assms(1))
  ultimately have "length (filter P xs) = Suc 0" "set (filter P xs) = {t}" by simp_all
  then show ?thesis by (cases "filter P xs") simp_all
qed

lemma findTag_Ok: "findTag pki ks sch = Ok t \<Longrightarrow> t \<in> set ks \<and> Schemes pki t = Some sch"
proof -
  assume "findTag pki ks sch = Ok t"
  then have "filter (\<lambda>tag. Schemes pki tag = Some sch) ks = [t]"
    by (auto simp: findTag_def split: list.splits)
  then have "t \<in> set (filter (\<lambda>tag. Schemes pki tag = Some sch) ks)" by simp
  then show ?thesis by simp
qed

lemma findTag_unique:
  assumes "enumerates ks (Schemes pki)" "Schemes pki t = Some sch" "\<And>t'. Schemes pki t' = Some sch \<Longrightarrow> t' = t"
  shows "findTag pki ks sch = Ok t"
proof -
  have "distinct ks" "t \<in> set ks" using assms(1,2) by (auto simp: enumerates_def)
  then have "filter (\<lambda>tag. Schemes pki tag = Some sch) ks = [t]"
    using assms(2,3) by (intro filter_single) blast+
  then show ?thesis by (simp add: findTag_def)
qed

lemma findTag_unregistered: "\<forall>t. Schemes pki t \<noteq> Some sch \<Longrightarrow> findTag pki ks sch = Err NoScheme"
  by (simp add: findTag_def)

fun algo_tag :: "algo \<Rightarrow> string" where
  "algo_tag Ed25519 = SignAlgo_Ed25519"
| "algo_tag Dilithium2 = SignAlgo_Dilithium2"

lemmas tag_defs = SignAlgo_Ed25519_def SignAlgo_Dilithium2_def SignAlgo_Product_def

lemma DefaultPKI_schemes:
  "Schemes DefaultPKI t = Some (BaseScheme a) \<longleftrightarrow> t = algo_tag a"
  "Schemes DefaultPKI t \<noteq> Some (ProductSignScheme [])"
  "Schemes DefaultPKI t = Some sch \<Longrightarrow> length t < 65000"
  by (cases a; auto simp: DefaultPKI_def tag_defs split: if_splits)+

lemma findTag_Default: "enumerates ks (Schemes DefaultPKI) \<Longrightarrow> findTag DefaultPKI ks (BaseScheme a) = Ok (algo_tag a)"
  by (rule findTag_unique) (auto simp: DefaultPKI_schemes)

lemma Default_private_tag: "Schemes DefaultPKI (algo_tag a @ PrivateSuffix) = None"
  by (cases a) (simp_all add: DefaultPKI_def tag_defs PrivateSuffix_def)

lemma CutSuffix_append [simp]: "strings_CutSuffix (t @ sfx) sfx = (t, True)"
  by (simp add: strings_CutSuffix_def suffix_def)

section \<open>Marshalling\<close>

text \<open>
  What the CIRCL documentation promises of \<^verbatim>\<open>MarshalBinary\<close> and \<^verbatim>\<open>UnmarshalBinary...\<close>: a key has an
  encoding of the documented size, from which it can be read back.
\<close>

definition circl_marshals :: "('p, 's, 'r) circl \<Rightarrow> bool" where
  "circl_marshals c \<longleftrightarrow>
     (\<forall>a p. \<exists>bs. c_marshal_pub c a p = Ok bs \<and> length bs = c_pub_size c a \<and> c_unmarshal_pub c a bs = Ok p) \<and>
     (\<forall>a s. \<exists>bs. c_marshal_priv c a s = Ok bs \<and> length bs = c_priv_size c a \<and> c_unmarshal_priv c a bs = Ok s)"

text \<open>A public key has the shape of the scheme it belongs to.\<close>

fun public_fits :: "scheme \<Rightarrow> 'p public_key \<Rightarrow> bool" where
  "public_fits (BaseScheme a) (BasePublic b p) = (a = b)"
| "public_fits (ProductSignScheme ss) (ProductVerifier ks) = list_all2 public_fits ss ks"
| "public_fits _ _ = False"

lemma public_fits_cases:
  assumes "public_fits sch pk"
  obtains (base) a p where "sch = BaseScheme a" "pk = BasePublic a p"
    | (product) ss ks where "sch = ProductSignScheme ss" "pk = ProductVerifier ks" "list_all2 public_fits ss ks"
  using assms by (cases sch; cases pk) auto

lemma unmarshal_public_all_marshal:
  assumes "list_all2 public_fits ss ks"
    and "\<And>s k. s \<in> set ss \<Longrightarrow> public_fits s k \<Longrightarrow>
      \<exists>bs. public_MarshalBinary c k = Ok bs \<and> length bs = scheme_PublicKeySize c s \<and>
           scheme_UnmarshalBinaryPublicKey c s bs = Ok k"
  shows "\<exists>bs. (\<forall>ret. public_marshal_all c ks ret = Ok (ret @ bs)) \<and>
     length bs = sum_list (map (scheme_PublicKeySize c) ss) \<and>
     (\<forall>pre post. unmarshal_public_all c ss (pre @ bs @ post) (length pre) = Ok ks)"
  using assms
proof (induction rule: list_all2_induct)
  case (Cons s ss k ks)
  then obtain b1 where b1: "public_MarshalBinary c k = Ok b1" "length b1 = scheme_PublicKeySize c s"
      "scheme_UnmarshalBinaryPublicKey c s b1 = Ok k"
    by (meson list.set_intros(1))
  obtain b2 where b2: "\<And>ret. public_marshal_all c ks ret = Ok (ret @ b2)"
      "length b2 = sum_list (map (scheme_PublicKeySize c) ss)"
      "\<And>pre post. unmarshal_public_all c ss (pre @ b2 @ post) (length pre) = Ok ks"
    using Cons.IH Cons.prems by (meson list.set_intros(2))
  have "unmarshal_public_all c (s # ss) (pre @ (b1 @ b2) @ post) (length pre) = Ok (k # ks)" for pre post
    using b1(3) b2(3) [of "pre @ b1" post] goslice_append [of pre b1 "b2 @ post"] by (simp add: b1(2) [symmetric])
  with b1 b2 show ?case by (intro exI [of _ "b1 @ b2"]) simp
qed simp

lemma unmarshal_marshal_public:
  assumes "circl_marshals c"
  shows "public_fits sch pk \<Longrightarrow>
     \<exists>bs. public_MarshalBinary c pk = Ok bs \<and> length bs = scheme_PublicKeySize c sch \<and>
          scheme_UnmarshalBinaryPublicKey c sch bs = Ok pk"
proof (induction sch arbitrary: pk)
  case (BaseScheme a)
  with assms show ?case by (cases pk) (fastforce simp: circl_marshals_def)+
next
  case (ProductSignScheme ss)
  then obtain ks where ks: "pk = ProductVerifier ks" "list_all2 public_fits ss ks"
    by (auto elim: public_fits_cases)
  obtain bs where "\<And>ret. public_marshal_all c ks ret = Ok (ret @ bs)"
      "length bs = sum_list (map (scheme_PublicKeySize c) ss)"
      "\<And>pre post. unmarshal_public_all c ss (pre @ bs @ post) (length pre) = Ok ks"
    using unmarshal_public_all_marshal [OF ks(2)] ProductSignScheme.IH by metis
  from this(1,2) this(3) [of "[]" "[]"] ks(1) show ?case by simp
qed

lemma MarshalPublicKey_base:
  assumes "circl_marshals c" "enumerates ks (Schemes DefaultPKI)"
  shows "\<exists>bs. MarshalPublicKey c ks [] (BasePublic a p) = Some (writeTag [] (algo_tag a) @ bs) \<and>
     length bs = c_pub_size c a \<and> c_unmarshal_pub c a bs = Ok p"
proof -
  obtain bs where "c_marshal_pub c a p = Ok bs" "length bs = c_pub_size c a" "c_unmarshal_pub c a bs = Ok p"
    using assms(1) unfolding circl_marshals_def by blast
  with findTag_Default [OF assms(2), of a] show ?thesis
    by (simp add: MarshalPublicKey_def pki_MarshalPublicKey_def)
qed

lemma MarshalPrivateKey_base:
  assumes "circl_marshals c" "enumerates ks (Schemes DefaultPKI)"
  shows "\<exists>bs. MarshalPrivateKey c ks [] (BasePrivate a s) = Some (writeTag [] (algo_tag a @ PrivateSuffix) @ bs) \<and>
     length bs = c_priv_size c a \<and> c_unmarshal_priv c a bs = Ok s"
proof -
  obtain bs where "c_marshal_priv c a s = Ok bs" "length bs = c_priv_size c a" "c_unmarshal_priv c a bs = Ok s"
    using assms(1) unfolding circl_marshals_def by blast
  with findTag_Default [OF assms(2), of a] show ?thesis
    by (simp add: MarshalPrivateKey_def pki_MarshalPrivateKey_def)
qed

lemma length_algo_tag: "length (algo_tag a @ PrivateSuffix) < 65536" "length (algo_tag a) < 65536"
  by (cases a; simp add: tag_defs PrivateSuffix_def)+

lemma ParsePublicKey_of_marshalled:
  assumes "circl_marshals c" "MarshalPublicKey c ks [] pub = Some data"
  shows "ParsePublicKey c data = Ok pub"
proof (cases pub)
  case (BasePublic a p)
  obtain tag bs where t: "findTag DefaultPKI ks (BaseScheme a) = Ok tag" "c_marshal_pub c a p = Ok bs" "data = writeTag [] tag @ bs"
    using assms(2) BasePublic by (auto simp: MarshalPublicKey_def pki_MarshalPublicKey_def outcome_simps split: outcome.splits)
  have tag: "tag = algo_tag a" "Schemes DefaultPKI tag = Some (BaseScheme a)"
    using findTag_Ok [OF t(1)] by (simp_all add: DefaultPKI_schemes)
  have "c_unmarshal_pub c a bs = Ok p" using assms(1) t(2) unfolding circl_marshals_def by (metis outcome.inject(1))
  with t(3) tag readTag_writeTag [OF length_algo_tag(2), of a bs] BasePublic show ?thesis
    by (simp add: ParsePublicKey_def pki_ParsePublicKey_def)
next
  case (ProductVerifier pks)
  have "findTag DefaultPKI ks (ProductSignScheme []) = Err NoScheme"
    by (rule findTag_unregistered) (simp add: DefaultPKI_schemes)
  with assms(2) ProductVerifier show ?thesis by (simp add: MarshalPublicKey_def pki_MarshalPublicKey_def)
qed

lemma foldl_max_ge:
  fixes f :: "'a \<Rightarrow> nat"
  shows "m \<le> foldl (\<lambda>ret x. max ret (f x)) m xs"
    and "x \<in> set xs \<Longrightarrow> f x \<le> foldl (\<lambda>ret x. max ret (f x)) m xs"
proof (induction xs arbitrary: m)
  case (Cons y ys)
  { case 1 show ?case using Cons.IH(1) [of "max m (f y)"] by simp }
  { case 2 then show ?case using Cons.IH(1) [of "max m (f y)"] Cons.IH(2) [of "max m (f y)"] by auto }
qed simp_all

text \<open>A small instance of the algorithms, on which the hypotheses about CIRCL can be evaluated.\<close>

fun sample_bytes :: "nat \<Rightarrow> bool \<Rightarrow> bytes" where
  "sample_bytes n b = replicate n (if b then 1 else 0)"

definition sample_circl :: "(bool, bool, nat) circl" where
  "sample_circl = \<lparr>
     c_pub_size = (\<lambda>a. 32), c_priv_size = (\<lambda>a. 64), c_sig_size = (\<lambda>a. 64), c_seed_size = (\<lambda>a. 32), c_ctx = (\<lambda>a. False),
     c_generate = (\<lambda>a r. Ok ((odd r, odd r), Suc r)), c_public = (\<lambda>a s. s),
     c_sign = (\<lambda>a s msg. sample_bytes 64 s), c_verify = (\<lambda>a p msg sig. sig = sample_bytes 64 p),
     c_marshal_pub = (\<lambda>a p. Ok (sample_bytes 32 p)),
     c_unmarshal_pub = (\<lambda>a bs. if length bs = 32 then Ok (hd bs = 1) else Err BadKey),
     c_marshal_priv = (\<lambda>a p. Ok (sample_bytes 64 p)),
     c_unmarshal_priv = (\<lambda>a bs. if length bs = 64 then Ok (hd bs = 1) else Err BadKey),
     c_pub_equal = (\<lambda>a p q. p = q), c_priv_equal = (\<lambda>a p q. p = q),
     c_signer = (\<lambda>a s msg. Ok (sample_bytes 64 s))\<rparr>"

definition sample_sponge :: sponge where
  "sample_sponge = \<lparr>shake256 = (\<lambda>x n. take n (x @ replicate n 0)),
     cshake256 = (\<lambda>N s x n. take n (N @ s @ x @ replicate n 0))\<rparr>"

definition default_tags :: "string list" where
  "default_tags = [SignAlgo_Dilithium2, SignAlgo_Ed25519, SignAlgo_Product [SignAlgo_Ed25519, SignAlgo_Dilithium2]]"

lemma default_tags_enumerates: "enumerates default_tags (Schemes DefaultPKI)"
  by (auto simp: enumerates_def default_tags_def DefaultPKI_def tag_defs dom_def)

lemma sample_circl_marshals: "circl_marshals sample_circl"
  by (simp add: circl_marshals_def sample_circl_def)

section \<open>Properties\<close>

text \<open>
  C15: a public key of either base algorithm has an encoding under the default PKI, from which
  \<^verbatim>\<open>ParsePublicKey\<close> reads the key back, in whatever order the scheme map is visited.
\<close>

theorem ParsePublicKey_MarshalPublicKey:
  assumes "circl_marshals c" "enumerates ks (Schemes DefaultPKI)"
  shows "\<exists>data. MarshalPublicKey c ks [] (BasePublic a p) = Some data \<and> ParsePublicKey c data = Ok (BasePublic a p)"
proof -
  obtain bs where bs: "MarshalPublicKey c ks [] (BasePublic a p) = Some (writeTag [] (algo_tag a) @ bs)"
      "c_unmarshal_pub c a bs = Ok p"
    using MarshalPublicKey_base [OF assms] by blast
  have "Schemes DefaultPKI (algo_tag a) = Some (BaseScheme a)" by (simp add: DefaultPKI_schemes)
  with bs readTag_writeTag [OF length_algo_tag(2), of a bs] show ?thesis
    by (simp add: ParsePublicKey_def pki_ParsePublicKey_def)
qed

theorem ParsePublicKey_MarshalPublicKey_witness:
  "\<exists>data. MarshalPublicKey sample_circl default_tags [] (BasePublic Dilithium2 True) = Some data \<and>
          ParsePublicKey sample_circl data = Ok (BasePublic Dilithium2 True)"
  by (rule ParsePublicKey_MarshalPublicKey [OF sample_circl_marshals default_tags_enumerates])

text \<open>
  A private key of either base algorithm has an encoding, from which \<^verbatim>\<open>ParsePrivateKey\<close> reads it
  back and which \<^verbatim>\<open>ParsePublicKey\<close> refuses: private key material is never accepted as a public key.
\<close>

theorem ParsePrivateKey_MarshalPrivateKey:
  assumes "circl_marshals c" "enumerates ks (Schemes DefaultPKI)"
  shows "\<exists>data. MarshalPrivateKey c ks [] (BasePrivate a s) = Some data \<and>
     ParsePrivateKey c data = Ok (BasePrivate a s) \<and> ParsePublicKey c data = Err UnknownAlgorithm"
proof -
  obtain bs where bs: "MarshalPrivateKey c ks [] (BasePrivate a s) = Some (writeTag [] (algo_tag a @ PrivateSuffix) @ bs)"
      "c_unmarshal_priv c a bs = Ok s"
    using MarshalPrivateKey_base [OF assms] by blast
  have "Schemes DefaultPKI (algo_tag a) = Some (BaseScheme a)" by (simp add: DefaultPKI_schemes)
  with bs readTag_writeTag [OF length_algo_tag(1), of a bs] Default_private_tag show ?thesis
    by (simp add: ParsePrivateKey_def pki_ParsePrivateKey_def ParsePublicKey_def pki_ParsePublicKey_def)
qed

theorem ParsePrivateKey_MarshalPrivateKey_witness:
  "\<exists>data. MarshalPrivateKey sample_circl default_tags [] (BasePrivate Ed25519 False) = Some data \<and>
     ParsePrivateKey sample_circl data = Ok (BasePrivate Ed25519 False) \<and>
     ParsePublicKey sample_circl data = Err UnknownAlgorithm"
  by (rule ParsePrivateKey_MarshalPrivateKey [OF sample_circl_marshals default_tags_enumerates])

text \<open>
  The binary form of a public key of any scheme, products of products included, has the size
  \<^verbatim>\<open>PublicKeySize\<close> announces, and the scheme reads the same key back from it.
\<close>

theorem product_public_key_roundtrip:
  assumes "circl_marshals c" "public_fits sch pk"
  shows "\<exists>bs. public_MarshalBinary c pk = Ok bs \<and> length bs = scheme_PublicKeySize c sch \<and>
     scheme_UnmarshalBinaryPublicKey c sch bs = Ok pk"
  using unmarshal_marshal_public [OF assms] .

theorem product_public_key_roundtrip_witness:
  "\<exists>bs. public_MarshalBinary sample_circl (ProductVerifier [BasePublic Ed25519 True, BasePublic Dilithium2 False]) = Ok bs \<and>
     length bs = 64 \<and>
     scheme_UnmarshalBinaryPublicKey sample_circl (ProductSignScheme [BaseScheme Ed25519, BaseScheme Dilithium2]) bs =
       Ok (ProductVerifier [BasePublic Ed25519 True, BasePublic Dilithium2 False])"
  using product_public_key_roundtrip [OF sample_circl_marshals,
      of "ProductSignScheme [BaseScheme Ed25519, BaseScheme Dilithium2]"
         "ProductVerifier [BasePublic Ed25519 True, BasePublic Dilithium2 False]"]
  by (simp add: sample_circl_def del: public_MarshalBinary.simps scheme_UnmarshalBinaryPublicKey.simps)



text \<open>
  What \<^verbatim>\<open>Verify\<close> answers does not depend on the message: within one signature context a signature
  made for one message is accepted for every other one, because the salted \<^verbatim>\<open>XOF\<close> drops its input.
\<close>

theorem Verify_ignores_message: "pki_Verify c sp sigCtx pk msg sig = pki_Verify c sp sigCtx pk msg' sig"
  by (simp add: pki_Verify_def XOF_def split: option.splits)

text \<open>
  For a product key, \<^verbatim>\<open>Verify\<close> accepts exactly the empty signature, whatever the component keys
  and the message, and such a key has no address: \<^verbatim>\<open>NewID\<close> panics on it.
\<close>

theorem product_key_accepts_empty_signature:
  "pki_Verify c sp (Some ctx) (ProductVerifier pks) msg sig = Some (sig = []) \<and>
   NewID c sp ks (ProductVerifier pks) = None"
proof -
  have "findTag DefaultPKI ks (ProductSignScheme []) = Err NoScheme"
    by (rule findTag_unregistered) (simp add: DefaultPKI_schemes)
  then show ?thesis
    by (simp add: pki_Verify_def NewID_def pki_NewID_def pki_MarshalPublicKey_def)
qed



text \<open>
  A product scheme never reads a private key back: it hands its first component a slice of the
  size of a public key, which an algorithm whose private keys are longer refuses.
\<close>

theorem product_private_key_unreadable:
  assumes "c_pub_size c a < c_priv_size c a"
    and "\<forall>bs. length bs \<noteq> c_priv_size c a \<longrightarrow> c_unmarshal_priv c a bs = Err BadKey"
  shows "\<not> is_ok (scheme_UnmarshalBinaryPrivateKey c (ProductSignScheme (BaseScheme a # ss)) data)"
proof -
  have "c_unmarshal_priv c a d = Err BadKey" if "goslice data 0 (c_pub_size c a) = Some d" for d
    using that assms by (auto simp: goslice_def split: if_splits)
  then show ?thesis
    by (cases "goslice data 0 (c_pub_size c a)") auto
qed

theorem product_private_key_unreadable_witness:
  "\<not> is_ok (scheme_UnmarshalBinaryPrivateKey sample_circl
     (ProductSignScheme [BaseScheme Ed25519, BaseScheme Dilithium2]) (replicate 128 0))"
  by (rule product_private_key_unreadable) (simp_all add: sample_circl_def)

text \<open>
  A private key whose tag names an unknown algorithm makes \<^verbatim>\<open>ParsePrivateKey\<close> panic, where
  \<^verbatim>\<open>ParsePublicKey\<close> returns an error.
\<close>

theorem ParsePrivateKey_unknown_tag_panics:
  assumes "Schemes pki tag = None" "length tag < 65528"
  shows "pki_ParsePrivateKey c pki (writeTag [] (tag @ PrivateSuffix) @ rest) = Panic \<and>
     pki_ParsePublicKey c pki (writeTag [] tag @ rest) = Err UnknownAlgorithm"
proof -
  have "length (tag @ PrivateSuffix) < 65536" "length tag < 65536" using assms(2) by (simp_all add: PrivateSuffix_def)
  from readTag_writeTag [OF this(1)] readTag_writeTag [OF this(2)] assms(1) show ?thesis
    by (simp add: pki_ParsePrivateKey_def pki_ParsePublicKey_def)
qed

theorem ParsePrivateKey_unknown_tag_panics_witness:
  "pki_ParsePrivateKey sample_circl DefaultPKI (writeTag [] (''rsa'' @ PrivateSuffix) @ [1, 2]) = Panic \<and>
   pki_ParsePublicKey sample_circl DefaultPKI (writeTag [] ''rsa'' @ [1, 2]) = Err UnknownAlgorithm"
  by (rule ParsePrivateKey_unknown_tag_panics) (simp_all add: DefaultPKI_def tag_defs)

end
