(* ===== verification/Peers.thy ===== *)
theory Peers
  imports Pki
begin

text \<open>
  Peer stores and address polling: \<^verbatim>\<open>src/internal/peers\<close>, \<^verbatim>\<open>src/discovery/discovery.go\<close> and
  \<^verbatim>\<open>src/discovery/polling.go\<close>. The interfaces \<^verbatim>\<open>Getter\<close>/\<^verbatim>\<open>Updater\<close> and \<^verbatim>\<open>Store\<close> are the locales
  \<open>addr_book\<close> and \<open>peer_store\<close>; the helpers written against an interface take its operations as
  arguments, and their lemmas are proved once in the locale and used through its interpretations on
  \<^verbatim>\<open>peerStore\<close> and \<^verbatim>\<open>fixedStore\<close>. Transport addresses are a type parameter \<open>'t\<close>, as in the source.
\<close>

section \<open>The store\<close>

record 't info =
  Addrs :: "'t list"

record 't peerStore =
  ps_m :: "addr \<rightharpoonup> 't info"

definition NewStore :: "'t peerStore" where
  "NewStore = \<lparr>ps_m = Map.empty\<rparr>"

definition store_Add :: "'t peerStore \<Rightarrow> addr \<Rightarrow> 't peerStore" where
  "store_Add s i = (if ps_m s i = None then s\<lparr>ps_m := (ps_m s)(i \<mapsto> \<lparr>Addrs = []\<rparr>)\<rparr> else s)"

definition store_Remove :: "'t peerStore \<Rightarrow> addr \<Rightarrow> 't peerStore" where
  "store_Remove s i = s\<lparr>ps_m := (ps_m s)(i := None)\<rparr>"

text \<open>\<open>None\<close> is the pair of the zero \<^verbatim>\<open>Info\<close> and \<^verbatim>\<open>false\<close>.\<close>

definition store_Get :: "'t peerStore \<Rightarrow> addr \<Rightarrow> 't info option" where
  "store_Get s i = ps_m s i"

definition store_Update :: "'t peerStore \<Rightarrow> addr \<Rightarrow> ('t info \<Rightarrow> 't info) \<Rightarrow> 't peerStore" where
  "store_Update s i fn =
     (case ps_m s i of None \<Rightarrow> s | Some nfo \<Rightarrow> s\<lparr>ps_m := (ps_m s)(i \<mapsto> fn nfo)\<rparr>)"

text \<open>\<^verbatim>\<open>List\<close> returns the keys in the order \<open>ks\<close> in which the map is visited.\<close>

definition store_List :: "addr list \<Rightarrow> 't peerStore \<Rightarrow> addr list" where
  "store_List ks s = foldl (\<lambda>ids i. ids @ [i]) [] ks"

definition store_Contains :: "'t peerStore \<Rightarrow> addr \<Rightarrow> bool" where
  "store_Contains s i = (ps_m s i \<noteq> None)"

section \<open>Helpers over the interfaces\<close>

definition ListAddrs :: "('s \<Rightarrow> addr \<Rightarrow> 't info option) \<Rightarrow> 's \<Rightarrow> addr \<Rightarrow> 't list" where
  "ListAddrs get s k = (case get s k of None \<Rightarrow> [] | Some nfo \<Rightarrow> Addrs nfo)"

definition SetAddrs :: "('s \<Rightarrow> addr \<Rightarrow> ('t info \<Rightarrow> 't info) \<Rightarrow> 's) \<Rightarrow> 's \<Rightarrow> addr \<Rightarrow> 't list \<Rightarrow> 's" where
  "SetAddrs upd s k addrs = upd s k (\<lambda>x. x\<lparr>Addrs := [] @ addrs\<rparr>)"

section \<open>A chain of stores\<close>

type_synonym 't ChainStore = "'t peerStore list"

definition chain_Add :: "'t ChainStore \<Rightarrow> addr \<Rightarrow> 't ChainStore option" where
  "chain_Add ps x = None"

definition chain_Remove :: "'t ChainStore \<Rightarrow> addr \<Rightarrow> 't ChainStore option" where
  "chain_Remove ps x = None"

definition chain_Update :: "'t ChainStore \<Rightarrow> addr \<Rightarrow> ('t info \<Rightarrow> 't info) \<Rightarrow> 't ChainStore option" where
  "chain_Update ps x fn = None"

fun chain_Get_loop :: "'t ChainStore \<Rightarrow> addr \<Rightarrow> 't info \<Rightarrow> bool \<Rightarrow> 't info \<times> bool" where
  "chain_Get_loop [] i ret found = (ret, found)"
| "chain_Get_loop (s # ps) i ret found =
     (case store_Get s i of
        None \<Rightarrow> chain_Get_loop ps i ret found
      | Some nfo \<Rightarrow> chain_Get_loop ps i (ret\<lparr>Addrs := Addrs ret @ Addrs nfo\<rparr>) True)"

definition chain_Get :: "'t ChainStore \<Rightarrow> addr \<Rightarrow> 't info \<times> bool" where
  "chain_Get ps i = chain_Get_loop ps i \<lparr>Addrs = []\<rparr> False"

text \<open>
  The set \<open>m\<close> of the listed ids; each store is listed in its own order, and the result in the order
  \<open>ks\<close> in which the set is visited.
\<close>

definition chain_List_set :: "addr list list \<Rightarrow> 't ChainStore \<Rightarrow> (addr \<rightharpoonup> unit)" where
  "chain_List_set orders ps =
     foldl (\<lambda>m (ord, s). foldl (\<lambda>m i. m(i \<mapsto> ())) m (store_List ord s)) Map.empty (zip orders ps)"

definition chain_List :: "addr list \<Rightarrow> addr list" where
  "chain_List ks = foldl (\<lambda>ret i. ret @ [i]) [] ks"

definition chain_Contains :: "'t ChainStore \<Rightarrow> addr \<Rightarrow> bool" where
  "chain_Contains ps i = list_ex (\<lambda>s. store_Contains s i) ps"

section \<open>Discovery\<close>

text \<open>\<^verbatim>\<open>DisableAddRemove\<close> wraps a store; the embedded methods are those of the wrapped store.\<close>

datatype 't fixedStore = FixedStore (wrapped: "'t peerStore")

definition DisableAddRemove :: "'t peerStore \<Rightarrow> 't fixedStore" where
  "DisableAddRemove x = FixedStore x"

definition fixed_Add :: "'t fixedStore \<Rightarrow> addr \<Rightarrow> 't fixedStore" where
  "fixed_Add s x = s"

definition fixed_Remove :: "'t fixedStore \<Rightarrow> addr \<Rightarrow> 't fixedStore" where
  "fixed_Remove s x = s"

definition fixed_Get :: "'t fixedStore \<Rightarrow> addr \<Rightarrow> 't info option" where
  "fixed_Get s x = store_Get (wrapped s) x"

definition fixed_Update :: "'t fixedStore \<Rightarrow> addr \<Rightarrow> ('t info \<Rightarrow> 't info) \<Rightarrow> 't fixedStore" where
  "fixed_Update s x fn = FixedStore (store_Update (wrapped s) x fn)"

text \<open>The address parser is a parameter; a text that does not parse is an error.\<close>

fun ParseAddrs_loop :: "(bytes \<Rightarrow> ('e, 't) outcome) \<Rightarrow> string list \<Rightarrow> 't list \<Rightarrow> ('e, 't list) outcome" where
  "ParseAddrs_loop ap [] ret = Ok ret"
| "ParseAddrs_loop ap (x # xs) ret = obind (ap (bytes_of_string x)) (\<lambda>y. ParseAddrs_loop ap xs (ret @ [y]))"

definition ParseAddrs :: "(bytes \<Rightarrow> ('e, 't) outcome) \<Rightarrow> string list \<Rightarrow> ('e, 't list) outcome" where
  "ParseAddrs ap xs = ParseAddrs_loop ap xs []"

definition MarshalAddrs :: "('t \<Rightarrow> bytes option) \<Rightarrow> 't list \<Rightarrow> string list option" where
  "MarshalAddrs marshalText xs =
     pfold (\<lambda>x ret. Option.bind (marshalText x) (\<lambda>data. Some (ret @ [string_of_bytes data]))) xs []"

text \<open>
  One round of the lookup loop over the listed targets. The store is shared: what was written before
  an error stays.
\<close>

fun lookup_round ::
  "('s \<Rightarrow> addr \<Rightarrow> ('t info \<Rightarrow> 't info) \<Rightarrow> 's) \<Rightarrow> (addr \<Rightarrow> ('e, string list) outcome) \<Rightarrow>
   (bytes \<Rightarrow> ('e, 't) outcome) \<Rightarrow> addr list \<Rightarrow> 's \<Rightarrow> 's \<times> ('e, unit) outcome" where
  "lookup_round upd lookup ap [] s = (s, Ok ())"
| "lookup_round upd lookup ap (target # targets) s =
     (case obind (lookup target) (ParseAddrs ap) of
        Ok addrs \<Rightarrow> lookup_round upd lookup ap targets (SetAddrs upd s target addrs)
      | Err e \<Rightarrow> (s, Err e)
      | Panic \<Rightarrow> (s, Panic))"

text \<open>One round of the announce loop: the texts it announces and the time to live, in nanoseconds.\<close>

definition announce_round :: "('t \<Rightarrow> bytes option) \<Rightarrow> int \<Rightarrow> 't list \<Rightarrow> (string list \<times> int) option" where
  "announce_round marshalText period addrs =
     Option.bind (MarshalAddrs marshalText addrs) (\<lambda>strs. Some (strs, goquot (period * 3) 2))"

text \<open>
  \<^verbatim>\<open>poll\<close>, run against what it observes: in every round, whether the context is already done when the
  function has returned an error, and which case of the second \<^verbatim>\<open>select\<close> fires. It returns only with
  the error of the context; \<open>Waiting\<close> is a loop that has not returned yet, \<open>Crashed\<close> a function that
  panicked.
\<close>

datatype wake = CtxDone | TickerFired

datatype poll_result = Waiting | ReturnedCtxErr | Crashed

fun poll :: "('s \<Rightarrow> 's \<times> ('e, unit) outcome) \<Rightarrow> (bool \<times> wake) list \<Rightarrow> 's \<Rightarrow> 's \<times> poll_result" where
  "poll fn [] s = (s, Waiting)"
| "poll fn ((doneNow, w) # obs) s =
     (case fn s of
        (s', Panic) \<Rightarrow> (s', Crashed)
      | (s', r) \<Rightarrow>
          if r \<noteq> Ok () \<and> doneNow then (s', ReturnedCtxErr)
          else case w of CtxDone \<Rightarrow> (s', ReturnedCtxErr) | TickerFired \<Rightarrow> poll fn obs s')"

section \<open>The interfaces and their laws\<close>

locale addr_book =
  fixes get :: "'s \<Rightarrow> addr \<Rightarrow> 't info option"
    and upd :: "'s \<Rightarrow> addr \<Rightarrow> ('t info \<Rightarrow> 't info) \<Rightarrow> 's"
  assumes get_upd: "get (upd s i fn) j = (if j = i then map_option fn (get s i) else get s j)"
begin

lemma get_SetAddrs:
  "get (SetAddrs upd s i ts) j = (if j = i then map_option (\<lambda>x. x\<lparr>Addrs := ts\<rparr>) (get s i) else get s j)"
  by (simp add: SetAddrs_def get_upd)

lemma ListAddrs_SetAddrs:
  "ListAddrs get (SetAddrs upd s i ts) j =
     (if j = i \<and> get s i \<noteq> None then ts else ListAddrs get s j)"
  by (auto simp: ListAddrs_def get_SetAddrs split: option.splits)

lemma lookup_round_keeps_peers:
  "(get (fst (lookup_round upd lookup ap targets s)) j = None) = (get s j = None)"
  by (induction targets arbitrary: s) (auto simp: get_SetAddrs split: outcome.splits)

lemma lookup_round_untouched:
  "j \<notin> set targets \<Longrightarrow> get (fst (lookup_round upd lookup ap targets s)) j = get s j"
  by (induction targets arbitrary: s) (auto simp: get_SetAddrs split: outcome.splits)

lemma lookup_round_Ok:
  "snd (lookup_round upd lookup ap targets s) = Ok () \<Longrightarrow> distinct targets \<Longrightarrow> i \<in> set targets \<Longrightarrow>
   get s i \<noteq> None \<Longrightarrow>
   obind (lookup i) (ParseAddrs ap) = Ok (ListAddrs get (fst (lookup_round upd lookup ap targets s)) i)"
proof (induction targets arbitrary: s)
  case (Cons t targets)
  obtain addrs where addrs: "obind (lookup t) (ParseAddrs ap) = Ok addrs"
    using Cons.prems(1) by (auto split: outcome.splits)
  let ?s = "SetAddrs upd s t addrs"
  have run: "lookup_round upd lookup ap (t # targets) s = lookup_round upd lookup ap targets ?s"
    using addrs by simp
  show ?case
  proof (cases "i = t")
    case True
    with Cons.prems have "get (fst (lookup_round upd lookup ap targets ?s)) i = get ?s i"
      by (intro lookup_round_untouched) auto
    then have "ListAddrs get (fst (lookup_round upd lookup ap targets ?s)) i = addrs"
      using True Cons.prems(4) ListAddrs_SetAddrs [of s t addrs i] by (simp add: ListAddrs_def)
    with True addrs run show ?thesis by simp
  next
    case False
    have "snd (lookup_round upd lookup ap targets ?s) = Ok ()" using Cons.prems(1) by (simp only: run)
    with Cons.IH [of ?s] Cons.prems(2-) False show ?thesis unfolding run by (simp add: get_SetAddrs)
  qed
qed simp

end

locale peer_store = addr_book get upd
  for get :: "'s \<Rightarrow> addr \<Rightarrow> 't info option" and upd +
  fixes new :: 's
    and add :: "'s \<Rightarrow> addr \<Rightarrow> 's"
    and del :: "'s \<Rightarrow> addr \<Rightarrow> 's"
    and contains :: "'s \<Rightarrow> addr \<Rightarrow> bool"
  assumes get_new: "get new i = None"
    and get_add: "get (add s i) j = (if j = i \<and> get s i = None then Some \<lparr>Addrs = []\<rparr> else get s j)"
    and get_del: "get (del s i) j = (if j = i then None else get s j)"
    and contains_get: "contains s i \<longleftrightarrow> get s i \<noteq> None"
begin

lemma set_then_list: "contains s i \<Longrightarrow> ListAddrs get (SetAddrs upd s i ts) i = ts"
  by (simp add: ListAddrs_SetAddrs contains_get)

lemma add_set_list: "ListAddrs get (SetAddrs upd (add s i) i ts) i = ts"
  by (rule set_then_list) (simp add: contains_get get_add)

lemma add_keeps: "contains s i \<Longrightarrow> get (add s i) = get s"
  by (auto simp: fun_eq_iff get_add contains_get)

lemma del_forgets: "\<not> contains (del s i) i \<and> get (SetAddrs upd (del s i) i ts) i = None"
  by (simp add: contains_get get_del get_SetAddrs)

end

interpretation ps: peer_store store_Get store_Update NewStore store_Add store_Remove store_Contains
  by unfold_locales
    (auto simp: store_Get_def store_Update_def NewStore_def store_Add_def store_Remove_def store_Contains_def
      split: option.splits)

interpretation fx: addr_book fixed_Get fixed_Update
  by unfold_locales (simp add: fixed_Get_def fixed_Update_def ps.get_upd)

section \<open>Chains and listings\<close>

lemma foldl_snoc [simp]: "foldl (\<lambda>ids i. ids @ [i]) acc xs = acc @ xs"
  by (induction xs arbitrary: acc) auto

lemma store_List_enumerates:
  "enumerates ks (ps_m s) \<Longrightarrow> distinct (store_List ks s) \<and> (i \<in> set (store_List ks s) \<longleftrightarrow> store_Contains s i)"
  by (auto simp: store_List_def store_Contains_def enumerates_def)

lemma chain_Get_loop_eq:
  "chain_Get_loop ps i ret found =
     (\<lparr>Addrs = Addrs ret @ concat (map (\<lambda>s. ListAddrs store_Get s i) ps)\<rparr>, found \<or> chain_Contains ps i)"
  by (induction ps arbitrary: ret found)
    (auto simp: ListAddrs_def chain_Contains_def store_Contains_def store_Get_def split: option.splits)

lemma dom_foldl_insert: "dom (foldl (\<lambda>m i. m(i \<mapsto> ())) m xs) = dom m \<union> set xs"
  by (induction xs arbitrary: m) auto

lemma dom_chain_List_set:
  assumes "list_all2 (\<lambda>ord s. enumerates ord (ps_m s)) orders ps"
  shows "dom (chain_List_set orders ps) = {i. chain_Contains ps i}"
proof -
  have "dom (foldl (\<lambda>m (ord, s). foldl (\<lambda>m i. m(i \<mapsto> ())) m (store_List ord s)) m (zip orders ps)) =
      dom m \<union> {i. chain_Contains ps i}" for m
    using assms
  proof (induction arbitrary: m rule: list_all2_induct)
    case (Cons ord orders s ps)
    have "set (store_List ord s) = {i. store_Contains s i}"
      using store_List_enumerates [OF Cons.hyps(1)] by blast
    then show ?case
      unfolding zip_Cons_Cons foldl.simps prod.case Cons.IH dom_foldl_insert by (auto simp: chain_Contains_def)
  qed (auto simp: chain_Contains_def)
  then show ?thesis by (simp add: chain_List_set_def)
qed


lemma poll_keeps_running:
  assumes "\<forall>t. snd (fn t) \<noteq> Panic"
  shows "poll fn (replicate n (False, TickerFired)) s = (((fst \<circ> fn) ^^ n) s, Waiting)"
proof (induction n arbitrary: s)
  case (Suc n)
  obtain s' r where r: "fn s = (s', r)" by (cases "fn s")
  with assms have "r \<noteq> Panic" by (metis snd_conv)
  then have "poll fn (replicate (Suc n) (False, TickerFired)) s = poll fn (replicate n (False, TickerFired)) s'"
    using r by (cases r) simp_all
  with Suc.IH [of s'] r show ?case by (simp add: funpow_Suc_right del: replicate_Suc funpow.simps)
qed simp

section \<open>Properties\<close>

text \<open>
  A polling round over the listed peers that ends without an error leaves, on the restricted store
  handed to discovery services, exactly the peers that were there, each with the parsed addresses of
  its lookup.
\<close>

theorem lookup_round_effect:
  assumes "enumerates ks (ps_m (wrapped s))"
    and "lookup_round fixed_Update lookup ap (store_List ks (wrapped s)) s = (s', Ok ())"
  shows "if fixed_Get s i = None then fixed_Get s' i = None
     else fixed_Get s' i \<noteq> None \<and> obind (lookup i) (ParseAddrs ap) = Ok (ListAddrs fixed_Get s' i)"
proof -
  have "i \<in> set (store_List ks (wrapped s)) \<longleftrightarrow> fixed_Get s i \<noteq> None" "distinct (store_List ks (wrapped s))"
    using store_List_enumerates [OF assms(1)] by (auto simp: fixed_Get_def ps.contains_get)
  then show ?thesis
    using fx.lookup_round_Ok [of lookup ap "store_List ks (wrapped s)" s i]
      fx.lookup_round_keeps_peers [of lookup ap "store_List ks (wrapped s)" s i] assms(2) by auto
qed

definition sample_store :: "bytes fixedStore" where
  "sample_store = DisableAddRemove (store_Add NewStore zero_addr)"

definition sample_lookup :: "addr \<Rightarrow> (unit, string list) outcome" where
  "sample_lookup t = Ok [''a'', ''b'']"

theorem lookup_round_effect_witness:
  "obind (sample_lookup zero_addr) (ParseAddrs Ok) =
     Ok (ListAddrs fixed_Get (fst (lookup_round fixed_Update sample_lookup Ok [zero_addr] sample_store)) zero_addr)"
proof -
  let ?r = "lookup_round fixed_Update sample_lookup Ok [zero_addr] sample_store"
  have 1: "enumerates [zero_addr] (ps_m (wrapped sample_store))"
    by (simp add: enumerates_def sample_store_def DisableAddRemove_def store_Add_def NewStore_def)
  have "?r = (fst ?r, Ok ())" by (simp add: sample_lookup_def ParseAddrs_def)
  then have 2: "lookup_round fixed_Update sample_lookup Ok (store_List [zero_addr] (wrapped sample_store)) sample_store = (fst ?r, Ok ())"
    by (simp add: store_List_def del: lookup_round.simps)
  have "fixed_Get sample_store zero_addr \<noteq> None"
    by (simp add: fixed_Get_def store_Get_def sample_store_def DisableAddRemove_def store_Add_def NewStore_def)
  then show ?thesis
    using lookup_round_effect [OF 1 2, of zero_addr] by (simp del: lookup_round.simps)
qed

text \<open>
  A chain of stores is consistent: \<^verbatim>\<open>List\<close> names, once each, the peers some store contains,
  \<^verbatim>\<open>Get\<close> finds exactly those, and returns the addresses of all stores in the order of the chain.
\<close>

theorem ChainStore_consistent:
  assumes "list_all2 (\<lambda>ord s. enumerates ord (ps_m s)) orders ps" "enumerates ks (chain_List_set orders ps)"
  shows "distinct (chain_List ks) \<and> (i \<in> set (chain_List ks) \<longleftrightarrow> chain_Contains ps i) \<and>
     chain_Get ps i = (\<lparr>Addrs = concat (map (\<lambda>s. ListAddrs store_Get s i) ps)\<rparr>, chain_Contains ps i)"
  using assms(2) dom_chain_List_set [OF assms(1)]
  by (auto simp: chain_List_def enumerates_def chain_Get_def chain_Get_loop_eq)

theorem ChainStore_consistent_witness:
  "distinct (chain_List [zero_addr]) \<and> (zero_addr \<in> set (chain_List [zero_addr])) \<and>
   chain_Get [NewStore, store_Add NewStore zero_addr] zero_addr = (\<lparr>Addrs = [] :: nat list\<rparr>, True)"
proof -
  let ?ps = "[NewStore, store_Add NewStore zero_addr] :: nat ChainStore"
  have 1: "list_all2 (\<lambda>ord s. enumerates ord (ps_m s)) [[], [zero_addr]] ?ps"
    by (simp add: enumerates_def NewStore_def store_Add_def)
  have 2: "enumerates [zero_addr] (chain_List_set [[], [zero_addr]] ?ps)"
    by (simp add: enumerates_def chain_List_set_def store_List_def)
  show ?thesis
    using ChainStore_consistent [OF 1 2, of zero_addr]
    by (simp add: chain_Contains_def store_Contains_def NewStore_def store_Add_def ListAddrs_def store_Get_def)
qed

text \<open>
  Adding a peer and setting its addresses makes exactly these addresses visible for it, and changes
  nothing for other peers.
\<close>

theorem add_set_list_addrs:
  "ListAddrs store_Get (SetAddrs store_Update (store_Add s i) i ts) j = (if j = i then ts else ListAddrs store_Get s j)"
  using ps.add_set_list [of s i ts] ps.ListAddrs_SetAddrs [of "store_Add s i" i ts j]
  by (auto simp: ListAddrs_def ps.get_add)

text \<open>
  An error never ends the polling loop: while the context is alive the polled function runs once
  per tick, whatever it returns.
\<close>

theorem poll_survives_errors:
  "(\<forall>t. snd (fn t) \<noteq> Panic) \<Longrightarrow> poll fn (replicate n (False, TickerFired)) s = (((fst \<circ> fn) ^^ n) s, Waiting)"
  by (rule poll_keeps_running)

theorem poll_survives_errors_witness:
  "poll (\<lambda>s. (Suc s, Err ())) (replicate 5 (False, TickerFired)) 0 = (5, Waiting)"
  using poll_survives_errors [of "\<lambda>s. (Suc s, Err ())" 5 0] by (simp add: numeral_eq_Suc)

end
