(* ===== verification/Ipv6.thy ===== *)
theory Ipv6
  imports Pki
begin

text \<open>
  INET256 over IPv6, \<^verbatim>\<open>src/inet256ipv6\<close>: the mapping of addresses into \<^verbatim>\<open>0200::/7\<close>
  (\<^verbatim>\<open>addrmap.go\<close>), the portal between a TUN device and a node (\<^verbatim>\<open>portal.go\<close>), the NAT table
  (\<^verbatim>\<open>nat.go\<close>), whitelists (\<^verbatim>\<open>config.go\<close>) and the search for addresses that compress well
  (\<^verbatim>\<open>mine.go\<close>). The mapping is written over the bit strings of \<open>Bitstr\<close>, as the source is.
\<close>

section \<open>Standard library: IP addresses\<close>

text \<open>\<^verbatim>\<open>netip.Addr\<close> without zones: the zero value, an IPv4 or an IPv6 address.\<close>

datatype netip_addr = InvalidIP | IPv4 bytes | IPv6 bytes

fun Is6 :: "netip_addr \<Rightarrow> bool" where
  "Is6 (IPv6 bs) = True"
| "Is6 _ = False"

fun AsSlice :: "netip_addr \<Rightarrow> bytes" where
  "AsSlice InvalidIP = []"
| "AsSlice (IPv4 bs) = bs"
| "AsSlice (IPv6 bs) = bs"

definition AddrFromSlice :: "bytes \<Rightarrow> netip_addr option" where
  "AddrFromSlice bs = (if length bs = 4 then Some (IPv4 bs) else if length bs = 16 then Some (IPv6 bs) else None)"

record netip_prefix =
  np_addr :: netip_addr
  np_bits :: nat

text \<open>\<^verbatim>\<open>Prefix.Contains\<close>: an address of the other family never matches.\<close>

definition prefix_Contains :: "netip_prefix \<Rightarrow> netip_addr \<Rightarrow> bool" where
  "prefix_Contains p x =
     (Is6 x = Is6 (np_addr p) \<and> length (AsSlice x) = length (AsSlice (np_addr p)) \<and>
      take (np_bits p) (bits_msb (AsSlice x)) = take (np_bits p) (bits_msb (AsSlice (np_addr p))))"

text \<open>\<^verbatim>\<open>net.IP.Equal\<close>: a 4-byte address equals its 16-byte IPv4-mapped form.\<close>

definition v4InV6Prefix :: bytes where
  "v4InV6Prefix = replicate 10 0 @ [255, 255]"

definition net_IP_Equal :: "bytes \<Rightarrow> bytes \<Rightarrow> bool" where
  "net_IP_Equal x y =
     (if length x = length y then x = y
      else if length x = 4 \<and> length y = 16 then take 12 y = v4InV6Prefix \<and> x = drop 12 y
      else if length x = 16 \<and> length y = 4 then take 12 x = v4InV6Prefix \<and> drop 12 x = y
      else False)"

section \<open>The address mapping\<close>

definition netPrefix :: netip_prefix where
  "netPrefix = \<lparr>np_addr = IPv6 (2 # replicate 15 0), np_bits = 7\<rparr>"

definition NetworkPrefix :: netip_prefix where
  "NetworkPrefix = netPrefix"

definition writeUint7 :: "buffer \<Rightarrow> byte \<Rightarrow> buffer option" where
  "writeUint7 buf x =
     (if x \<ge> 128 then None
      else pfold (\<lambda>i buf. Append buf (x AND drop_bit i 64 > 0)) [0..<7] buf)"

definition readUint7 :: "source \<Rightarrow> byte option" where
  "readUint7 buf =
     pfold (\<lambda>i n. Option.bind (At buf (int i)) (\<lambda>v. Some (if v then n OR drop_bit i 64 else n))) [0..<7] 0"

text \<open>The loop of \<^verbatim>\<open>compress\<close> that counts the leading zeros.\<close>

fun firstOne_loop :: "source \<Rightarrow> int list \<Rightarrow> nat \<Rightarrow> nat option" where
  "firstOne_loop x [] n = Some n"
| "firstOne_loop x (i # is) n = Option.bind (At x i) (\<lambda>v. if v then Some n else firstOne_loop x is (n + 1))"

definition compress :: "buffer \<Rightarrow> bit_string \<Rightarrow> buffer option" where
  "compress buf x =
     Option.bind (firstOne_loop (StringSrc x) (indices (StringSrc x)) 0) (\<lambda>firstOne.
       if firstOne \<ge> 128 then None
       else Option.bind (writeUint7 buf (of_nat firstOne)) (\<lambda>buf1.
         AppendAll buf1 (Slice (StringSrc x) (int firstOne + 1) (Len (StringSrc x)))))"

definition uncompress :: "bit_string \<Rightarrow> bit_string option" where
  "uncompress x =
     Option.bind (readUint7 (StringSrc x)) (\<lambda>lz.
     Option.bind (pfold (\<lambda>i buf. Append buf False) [0..<unat lz] empty_buffer) (\<lambda>b1.
     Option.bind (Append b1 True) (\<lambda>b2.
     Option.bind (AppendAll b2 (Slice (StringSrc x) 7 (Len (StringSrc x)))) BitString)))"

definition IPv6FromINET256 :: "addr \<Rightarrow> netip_addr option" where
  "IPv6FromINET256 x =
     Option.bind (AppendAll empty_buffer (BytesMSB (AsSlice (np_addr netPrefix)) 0 (int (np_bits netPrefix)))) (\<lambda>buf.
     Option.bind (FromSource (BytesMSB x 0 256)) (\<lambda>s.
     Option.bind (compress buf s) (\<lambda>buf1.
     Option.bind (BitString (buffer_Truncate buf1 128)) (\<lambda>bs.
     Option.bind (asBytesMSB (StringSrc bs)) (\<lambda>(data, nbits).
       if nbits \<noteq> 128 then None else AddrFromSlice data)))))"

datatype ipv6_error = NotV6 | NotInSubnet | BadHeader | NoAddr | SendFailed | WrongSource | WriteFailed

definition INET256PrefixFromIPv6 :: "netip_addr \<Rightarrow> (ipv6_error, bytes \<times> int) outcome" where
  "INET256PrefixFromIPv6 x =
     (if \<not> Is6 x then Err NotV6
      else if \<not> prefix_Contains netPrefix x then Err NotInSubnet
      else obind (unwinds (FromSource (BytesMSB (AsSlice x) (int (np_bits netPrefix)) 128))) (\<lambda>comp.
           obind (unwinds (uncompress comp)) (\<lambda>u.
           unwinds (asBytesMSB (StringSrc u)))))"

section \<open>The portal\<close>

record cacheEntry =
  ce_addr :: addr
  ce_createdAt :: int

definition cacheEntryTTL :: int where
  "cacheEntryTTL = 10 * 60 * 1000000000"

text \<open>\<^verbatim>\<open>ipv6.ParseHeader\<close> is third-party code; the portal uses the two addresses of the header.\<close>

record ip6_header =
  h_Src :: bytes
  h_Dst :: bytes

text \<open>The state of a portal: its cache, and what it has sent to the network and written to the device.\<close>

record portal =
  p_cache :: "netip_addr \<rightharpoonup> cacheEntry"
  p_sent :: "(addr \<times> bytes) list"
  p_written :: "bytes list"

definition AllowAll :: "addr \<Rightarrow> bool" where
  "AllowAll x = True"

definition getEntry :: "portal \<Rightarrow> netip_addr \<Rightarrow> cacheEntry option" where
  "getEntry p key = p_cache p key"

text \<open>\<^verbatim>\<open>LoadOrStore\<close> keeps an entry that is already there.\<close>

definition putEntry :: "portal \<Rightarrow> netip_addr \<Rightarrow> cacheEntry \<Rightarrow> portal" where
  "putEntry p key e = (if p_cache p key = None then p\<lparr>p_cache := (p_cache p)(key \<mapsto> e)\<rparr> else p)"

definition node_Send :: "(addr \<Rightarrow> bytes \<Rightarrow> bool) \<Rightarrow> portal \<Rightarrow> addr \<Rightarrow> bytes \<Rightarrow> portal \<times> (ipv6_error, unit) outcome" where
  "node_Send send p dst data =
     (if send dst data then (p\<lparr>p_sent := p_sent p @ [(dst, data)]\<rparr>, Ok ()) else (p, Err SendFailed))"

text \<open>
  \<open>findAddr\<close> and \<open>send\<close> are the node's methods, \<open>now\<close> the clock. The conversion of the destination to
  \<^verbatim>\<open>*[16]byte\<close> panics on a shorter slice.
\<close>

definition handleOutbound ::
  "(bytes \<Rightarrow> (ipv6_error, ip6_header) outcome) \<Rightarrow> (bytes \<Rightarrow> int \<Rightarrow> (ipv6_error, addr) outcome) \<Rightarrow>
   (addr \<Rightarrow> bytes \<Rightarrow> bool) \<Rightarrow> int \<Rightarrow> portal \<Rightarrow> bytes \<Rightarrow> portal \<times> (ipv6_error, unit) outcome" where
  "handleOutbound parseHeader findAddr send now p data =
     (case parseHeader data of
        Err e \<Rightarrow> (p, Err e)
      | Panic \<Rightarrow> (p, Panic)
      | Ok header \<Rightarrow>
          if length (h_Dst header) < 16 then (p, Panic)
          else let ip = IPv6 (take 16 (h_Dst header))
               in case getEntry p ip of
                    Some e \<Rightarrow> node_Send send p (ce_addr e) data
                  | None \<Rightarrow>
                      (case obind (INET256PrefixFromIPv6 ip) (\<lambda>(pfx, nbits). findAddr pfx nbits) of
                         Err e \<Rightarrow> (p, Err e)
                       | Panic \<Rightarrow> (p, Panic)
                       | Ok dst \<Rightarrow>
                           node_Send send (putEntry p ip \<lparr>ce_addr = dst, ce_createdAt = now\<rparr>) dst data))"

definition handleInbound ::
  "(bytes \<Rightarrow> (ipv6_error, ip6_header) outcome) \<Rightarrow> (bytes \<Rightarrow> bool) \<Rightarrow> portal \<Rightarrow> addr \<Rightarrow> bytes \<Rightarrow>
   portal \<times> (ipv6_error, unit) outcome" where
  "handleInbound parseHeader write p src data =
     (case parseHeader data of
        Err e \<Rightarrow> (p, Err e)
      | Panic \<Rightarrow> (p, Panic)
      | Ok header \<Rightarrow>
          (case IPv6FromINET256 src of
             None \<Rightarrow> (p, Panic)
           | Some srcIP \<Rightarrow>
               if \<not> net_IP_Equal (h_Src header) (AsSlice srcIP) then (p, Err WrongSource)
               else if write data then (p\<lparr>p_written := p_written p @ [data]\<rparr>, Ok ())
               else (p, Err WriteFailed)))"

text \<open>The loop over received messages; it ends with the first error of \<^verbatim>\<open>handleInbound\<close>.\<close>

fun inboundLoop ::
  "(bytes \<Rightarrow> (ipv6_error, ip6_header) outcome) \<Rightarrow> (bytes \<Rightarrow> bool) \<Rightarrow> (addr \<Rightarrow> bool) \<Rightarrow> (addr \<times> bytes) list \<Rightarrow> portal \<Rightarrow>
   portal \<times> (ipv6_error, unit) outcome" where
  "inboundLoop parseHeader write af [] p = (p, Ok ())"
| "inboundLoop parseHeader write af ((src, payload) # msgs) p =
     (if \<not> af src then inboundLoop parseHeader write af msgs p
      else case handleInbound parseHeader write p src payload of
             (p', Ok _) \<Rightarrow> inboundLoop parseHeader write af msgs p'
           | (p', r) \<Rightarrow> (p', r))"

text \<open>The loop over packets read from the device drops a packet whose handling fails.\<close>

fun outboundLoop ::
  "(bytes \<Rightarrow> (ipv6_error, ip6_header) outcome) \<Rightarrow> (bytes \<Rightarrow> int \<Rightarrow> (ipv6_error, addr) outcome) \<Rightarrow>
   (addr \<Rightarrow> bytes \<Rightarrow> bool) \<Rightarrow> (int \<times> bytes) list \<Rightarrow> portal \<Rightarrow> portal \<times> (ipv6_error, unit) outcome" where
  "outboundLoop parseHeader findAddr send [] p = (p, Ok ())"
| "outboundLoop parseHeader findAddr send ((now, data) # reads) p =
     (case handleOutbound parseHeader findAddr send now p data of
        (p', Panic) \<Rightarrow> (p', Panic)
      | (p', _) \<Rightarrow> outboundLoop parseHeader findAddr send reads p')"

text \<open>One pass of the cache cleaner of \<^verbatim>\<open>run\<close>.\<close>

definition expireCache :: "int \<Rightarrow> portal \<Rightarrow> portal" where
  "expireCache now p =
     p\<lparr>p_cache := (\<lambda>k. case p_cache p k of None \<Rightarrow> None
        | Some ent \<Rightarrow> if now - ce_createdAt ent > cacheEntryTTL then None else Some ent)\<rparr>"

section \<open>Whitelists\<close>

definition ParseWhitelist :: "string \<Rightarrow> (id_error, addr \<Rightarrow> bool) outcome" where
  "ParseWhitelist x =
     obind (ofold (\<lambda>line allowed. obind (ParseAddrBase64 line) (\<lambda>a. Ok (allowed(a \<mapsto> ()))))
              (bytes_Split x (CHR 0x0A)) Map.empty)
       (\<lambda>allowed. Ok (\<lambda>a. allowed a \<noteq> None))"

section \<open>The NAT table\<close>

text \<open>\<open>'n\<close> is the type of the nodes the INET256 service opens.\<close>

record 'n NATTable =
  nt_outbound :: "bytes \<rightharpoonup> addr"
  nt_inbound :: "addr \<rightharpoonup> bytes"
  nt_vnodes :: "addr \<rightharpoonup> 'n"

definition NewNATTable :: "'n NATTable" where
  "NewNATTable = \<lparr>nt_outbound = Map.empty, nt_inbound = Map.empty, nt_vnodes = Map.empty\<rparr>"

text \<open>
  \<open>opened\<close> is what generating a key and opening a node on the service gave: the node and its address,
  or nothing, on which the code panics.
\<close>

definition AddClient :: "('n \<times> addr) option \<Rightarrow> 'n NATTable \<Rightarrow> bytes \<Rightarrow> ('n NATTable \<times> addr) option" where
  "AddClient opened nt ipv6 =
     (case opened of None \<Rightarrow> None
      | Some (vnode, outside) \<Rightarrow>
          Some (nt\<lparr>nt_inbound := (nt_inbound nt)(outside \<mapsto> ipv6),
                   nt_outbound := (nt_outbound nt)(ipv6 \<mapsto> outside),
                   nt_vnodes := (nt_vnodes nt)(outside \<mapsto> vnode)\<rparr>, outside))"

text \<open>Closing the nil node panics.\<close>

definition DeleteClient :: "'n NATTable \<Rightarrow> bytes \<Rightarrow> 'n NATTable option" where
  "DeleteClient nt ip6 =
     (case nt_outbound nt ip6 of None \<Rightarrow> Some nt
      | Some a \<Rightarrow>
          if nt_vnodes nt a = None then None
          else Some (nt\<lparr>nt_outbound := (nt_outbound nt)(ip6 := None),
                        nt_inbound := (nt_inbound nt)(a := None),
                        nt_vnodes := (nt_vnodes nt)(a := None)\<rparr>))"

definition NodeByInner :: "'n NATTable \<Rightarrow> bytes \<Rightarrow> 'n option" where
  "NodeByInner nt ipv6 = (case nt_outbound nt ipv6 of None \<Rightarrow> None | Some a \<Rightarrow> nt_vnodes nt a)"

definition NodeByOuter :: "'n NATTable \<Rightarrow> addr \<Rightarrow> 'n option" where
  "NodeByOuter nt a = nt_vnodes nt a"

section \<open>Mining\<close>

text \<open>
  \<open>lz\<close> is the third-party \<^verbatim>\<open>kademlia.LeadingZeros\<close>. A worker keeps the best address it has generated
  and stops when it meets the goal; the list holds the keys it generates until it is stopped.
\<close>

definition allOnes :: addr where
  "allOnes = replicate AddrSize 255"

fun mine_worker :: "(addr \<Rightarrow> int) \<Rightarrow> int \<Rightarrow> (addr \<times> 'k) list \<Rightarrow> addr \<times> 'k option \<Rightarrow> addr \<times> 'k option" where
  "mine_worker lz goal [] best = best"
| "mine_worker lz goal ((a, k) # rest) best =
     (if lz a > lz (fst best)
      then if lz a \<ge> goal then (a, Some k) else mine_worker lz goal rest (a, Some k)
      else mine_worker lz goal rest best)"

fun mine_select :: "(addr \<Rightarrow> int) \<Rightarrow> int \<Rightarrow> (addr \<times> 'k option) list \<Rightarrow> int \<times> (addr \<times> 'k option) option \<Rightarrow>
    int \<times> (addr \<times> 'k option) option" where
  "mine_select lz goal [] acc = acc"
| "mine_select lz goal (b # bs) (maxLz, found) =
     (if lz (fst b) < goal then mine_select lz goal bs (maxLz, found)
      else if lz (fst b) > maxLz then mine_select lz goal bs (lz (fst b), Some b)
      else mine_select lz goal bs (maxLz, found))"

definition MineAddr :: "(addr \<Rightarrow> int) \<Rightarrow> int \<Rightarrow> (addr \<times> 'k) list list \<Rightarrow> (addr \<times> 'k option) option" where
  "MineAddr lz goal workers =
     snd (mine_select lz goal (map (\<lambda>ks. mine_worker lz goal ks (allOnes, None)) workers) (- 1, None))"

section \<open>The mapping on bit lists\<close>

definition uint7_bits :: "byte \<Rightarrow> bool list" where
  "uint7_bits x = map (\<lambda>i. bit x (6 - i)) [0..<7]"

definition leading_zeros :: "bool list \<Rightarrow> nat" where
  "leading_zeros xs = length (takeWhile Not xs)"

lemma length_uint7_bits [simp]: "length (uint7_bits x) = 7"
  by (simp add: uint7_bits_def)

lemma bit_drop_64: "i < 7 \<Longrightarrow> bit (drop_bit i (64 :: byte)) n \<longleftrightarrow> n = 6 - i"
proof -
  have "bit (64 :: byte) m \<longleftrightarrow> m = 6" for m
    using bit_exp_iff [where 'a = byte and m = 6 and n = m] by auto
  then have "bit (drop_bit i (64 :: byte)) n \<longleftrightarrow> i + n = 6"
    by (simp add: bit_drop_bit_eq)
  then show "i < 7 \<Longrightarrow> bit (drop_bit i (64 :: byte)) n \<longleftrightarrow> n = 6 - i" by linarith
qed

lemma less_128_bit:
  fixes x :: byte
  assumes "x < 128" "bit x n"
  shows "n < 7"
proof (rule ccontr)
  assume "\<not> n < 7"
  then have "(2 :: nat) ^ 7 \<le> 2 ^ n" by (intro power_increasing) simp_all
  then have "unat x div 2 ^ n = 0" using assms(1) by (simp add: word_less_nat_alt)
  moreover have "bit (unat x) n" using assms(2) by (simp add: bit_unsigned_iff bit_imp_le_length)
  ultimately show False by (simp add: bit_iff_odd)
qed

lemma writeUint7_ok:
  assumes "buffer_wf b" "x < 128"
  shows "\<exists>b'. writeUint7 b x = Some b' \<and> buffer_wf b' \<and> buffer_bits b' = buffer_bits b @ uint7_bits x"
proof -
  have "(x AND drop_bit i 64 > 0) = bit x (6 - i)" if "i \<in> set [0..<7]" for i
    using that by (intro and_single_bit) (simp add: bit_drop_64)
  then have "map (\<lambda>i. x AND drop_bit i 64 > 0) [0..<7] = uint7_bits x"
    unfolding uint7_bits_def by (intro map_cong) simp_all
  with buf.append_values [OF assms(1), of "\<lambda>i. x AND drop_bit i 64 > 0" "[0..<7]"] assms(2)
  show ?thesis by (simp add: writeUint7_def not_le)
qed

lemma readUint7_loop:
  assumes "\<And>i. i < k \<Longrightarrow> At s (int i) = Some (g i)" "k \<le> 7"
  shows "\<exists>n. pfold (\<lambda>i n. Option.bind (At s (int i)) (\<lambda>v. Some (if v then n OR drop_bit i (64 :: byte) else n))) [0..<k] 0 = Some n \<and>
     (\<forall>j. bit n j \<longleftrightarrow> (\<exists>i < k. j = 6 - i \<and> g i))"
  using assms
proof (induction k)
  case (Suc k)
  then obtain n where n: "pfold (\<lambda>i n. Option.bind (At s (int i)) (\<lambda>v. Some (if v then n OR drop_bit i (64 :: byte) else n))) [0..<k] 0 = Some n"
      "\<And>j. bit n j \<longleftrightarrow> (\<exists>i < k. j = 6 - i \<and> g i)" by auto
  have "bit (if g k then n OR drop_bit k 64 else n) j \<longleftrightarrow> (\<exists>i < Suc k. j = 6 - i \<and> g i)" for j
    using n(2) Suc.prems(2) by (auto simp: bit_or_iff bit_drop_64 less_Suc_eq)
  with n(1) Suc.prems(1) [of k] show ?case by (simp add: pfold_append)
qed simp

lemma readUint7_ok:
  assumes "denotes s (uint7_bits x @ rest)" "x < 128"
  shows "readUint7 s = Some x"
proof -
  have "At s (int i) = Some (bit x (6 - i))" if "i < 7" for i
    using assms(1) that by (auto simp: denotes_def nth_append uint7_bits_def)
  from readUint7_loop [OF this, of 7] obtain n where n: "readUint7 s = Some n"
      "\<And>j. bit n j \<longleftrightarrow> (\<exists>i < 7. j = 6 - i \<and> bit x (6 - i))" unfolding readUint7_def by auto
  have "n = x"
  proof (rule bit_word_eqI)
    fix j
    show "bit n j = bit x j"
    proof
      assume "bit x j"
      then have "6 - j < 7 \<and> j = 6 - (6 - j) \<and> bit x (6 - (6 - j))" using less_128_bit [OF assms(2)] by force
      then show "bit n j" using n(2) by blast
    qed (use n(2) in auto)
  qed
  with n(1) show ?thesis by simp
qed

lemma firstOne_loop_eq:
  "(\<And>i. i \<in> set is \<Longrightarrow> At x i = Some (g i)) \<Longrightarrow> firstOne_loop x is n = Some (n + length (takeWhile (\<lambda>i. \<not> g i) is))"
  by (induction "is" arbitrary: n) auto

lemma firstOne_loop_ok:
  assumes "denotes x xs"
  shows "firstOne_loop x (indices x) 0 = Some (leading_zeros xs)"
proof -
  have "takeWhile Not xs = takeWhile Not (map ((!) xs) [0..<length xs])" by (simp add: map_nth)
  then have "length (takeWhile (\<lambda>i. \<not> xs ! nat i) (map int [0..<length xs])) = leading_zeros xs"
    by (simp add: leading_zeros_def takeWhile_map comp_def)
  moreover have "At x i = Some (xs ! nat i)" if "i \<in> set (map int [0..<length xs])" for i
    using assms that by (auto simp: denotes_def)
  ultimately show ?thesis
    using firstOne_loop_eq [of "map int [0..<length xs]" x "\<lambda>i. xs ! nat i" 0] denotes_indices [OF assms] by simp
qed

lemma leading_zeros_split:
  assumes "leading_zeros xs < length xs"
  shows "xs = replicate (leading_zeros xs) False @ True # drop (leading_zeros xs + 1) xs"
proof -
  let ?k = "leading_zeros xs"
  have "take ?k xs = takeWhile Not xs" by (simp add: leading_zeros_def takeWhile_eq_take [symmetric])
  moreover have "takeWhile Not xs = replicate ?k False"
    unfolding leading_zeros_def by (rule replicate_eqI) (auto dest: set_takeWhileD)
  moreover have "xs ! ?k"
    using assms nth_length_takeWhile [of Not xs] by (simp add: leading_zeros_def)
  ultimately have "take ?k xs @ xs ! ?k # drop (Suc ?k) xs = replicate ?k False @ True # drop (?k + 1) xs" by simp
  with id_take_nth_drop [OF assms] show ?thesis by (rule trans)
qed

lemma compress_ok:
  assumes "buffer_wf b" "denotes (StringSrc s) xs" "leading_zeros xs < 128" "leading_zeros xs < length xs"
  shows "\<exists>b'. compress b s = Some b' \<and> buffer_wf b' \<and>
     buffer_bits b' = buffer_bits b @ uint7_bits (of_nat (leading_zeros xs)) @ drop (leading_zeros xs + 1) xs"
proof -
  let ?k = "leading_zeros xs"
  have "(of_nat ?k :: byte) < 128" using assms(3) by (simp add: word_less_nat_alt unat_of_nat_small)
  then obtain b1 where b1: "writeUint7 b (of_nat ?k) = Some b1" "buffer_wf b1"
      "buffer_bits b1 = buffer_bits b @ uint7_bits (of_nat ?k)"
    using writeUint7_ok [OF assms(1)] by blast
  have "denotes (Slice (StringSrc s) (int (?k + 1)) (int (length xs))) (drop (?k + 1) xs)"
    using denotes_Slice [OF assms(2), of "?k + 1" "length xs"] assms(4) by simp
  then obtain b2 where "AppendAll b1 (Slice (StringSrc s) (int (?k + 1)) (int (length xs))) = Some b2"
      "buffer_wf b2" "buffer_bits b2 = buffer_bits b1 @ drop (?k + 1) xs"
    using AppendAll_ok [OF b1(2)] by blast
  moreover have "Len (StringSrc s) = int (length xs)" using assms(2) by (simp add: denotes_def)
  ultimately show ?thesis
    using firstOne_loop_ok [OF assms(2)] b1 assms(3) by (simp add: compress_def add.commute)
qed

lemma uncompress_ok:
  assumes "denotes (StringSrc s) (uint7_bits x @ rest)" "x < 128"
  shows "\<exists>s'. uncompress s = Some s' \<and> denotes (StringSrc s') (replicate (unat x) False @ True # rest)"
proof -
  obtain b1 where b1: "pfold (\<lambda>i buf. Append buf False) [0..<unat x] empty_buffer = Some b1" "buffer_wf b1"
      "buffer_bits b1 = replicate (unat x) False"
    using buf.append_values [OF empty_buffer_bits(1), of "\<lambda>i. False" "[0..<unat x]"] by (auto simp: map_replicate_const)
  obtain b2 where b2: "Append b1 True = Some b2" "buffer_wf b2" "buffer_bits b2 = replicate (unat x) False @ [True]"
    using Append_ok [OF b1(2), of True] b1(3) by auto
  have "Len (StringSrc s) = int (length (uint7_bits x @ rest))" using assms(1) by (simp add: denotes_def)
  moreover have "denotes (Slice (StringSrc s) (int 7) (int (length (uint7_bits x @ rest)))) rest"
    using denotes_Slice [OF assms(1), of 7 "length (uint7_bits x @ rest)"] by simp
  ultimately obtain b3 where b3: "AppendAll b2 (Slice (StringSrc s) 7 (Len (StringSrc s))) = Some b3"
      "buffer_wf b3" "buffer_bits b3 = replicate (unat x) False @ True # rest"
    using AppendAll_ok [OF b2(2)] b2(3) by fastforce
  from BitString_ok [OF b3(2)] show ?thesis
    using readUint7_ok [OF assms] b1(1) b2(1) b3(1,3) by (simp add: uncompress_def)
qed

abbreviation net_bits :: "bool list" where
  "net_bits \<equiv> take 7 (bits_msb (2 # replicate 15 0))"

lemma netPrefix_simps [simp]: "AsSlice (np_addr netPrefix) = 2 # replicate 15 0" "np_bits netPrefix = 7" "Is6 (np_addr netPrefix)"
  by (simp_all add: netPrefix_def)

abbreviation addr_zeros :: "addr \<Rightarrow> nat" where
  "addr_zeros a \<equiv> leading_zeros (bits_msb a)"

lemma denotes_addr: "is_addr a \<Longrightarrow> denotes (BytesMSB a 0 256) (bits_msb a)"
  using denotes_BytesMSB [of 0 256 a] by (simp add: is_addr_def AddrSize_def)

lemma IPv6FromINET256_bits:
  assumes "is_addr a" "addr_zeros a < 128"
  shows "\<exists>ip. IPv6FromINET256 a = Some (IPv6 ip) \<and> length ip = 16 \<and>
     bits_msb ip = net_bits @ uint7_bits (of_nat (addr_zeros a)) @ take 114 (drop (addr_zeros a + 1) (bits_msb a))"
proof -
  let ?k = "addr_zeros a" and ?xs = "bits_msb a"
  have len: "length ?xs = 256" using assms(1) by (simp add: is_addr_def AddrSize_def)
  obtain b1 where b1: "AppendAll empty_buffer (BytesMSB (2 # replicate 15 0) 0 7) = Some b1" "buffer_wf b1" "buffer_bits b1 = net_bits"
    using AppendAll_ok [OF empty_buffer_bits(1) denotes_BytesMSB [of 0 7 "2 # replicate 15 0"]] by auto
  obtain s where s: "FromSource (BytesMSB a 0 256) = Some s" "denotes (StringSrc s) ?xs"
    using FromSource_ok [OF denotes_addr [OF assms(1)]] by blast
  obtain b2 where b2: "compress b1 s = Some b2" "buffer_wf b2"
      "buffer_bits b2 = net_bits @ uint7_bits (of_nat ?k) @ drop (?k + 1) ?xs"
    using compress_ok [OF b1(2) s(2)] assms(2) len b1(3) by auto
  let ?b3 = "buffer_Truncate b2 (int 128)"
  have "nat (b_l b2) = length (buffer_bits b2)" by simp
  also have "\<dots> = 269 - ?k" using assms(2) len unfolding b2(3) by simp
  finally have "128 \<le> nat (b_l b2)" using assms(2) by simp
  from buffer_Truncate_ok [OF b2(2) this] obtain bs where bs: "BitString ?b3 = Some bs"
      "denotes (StringSrc bs) (take 128 (buffer_bits b2))"
    using BitString_ok [of ?b3] by auto
  have t: "take 128 (buffer_bits b2) = net_bits @ uint7_bits (of_nat ?k) @ take 114 (drop (?k + 1) ?xs)"
    unfolding b2(3) by simp
  with len assms(2) have "length (take 128 (buffer_bits b2)) = 128" by simp
  with asBytesMSB_ok [OF bs(2)] obtain ip where ip: "asBytesMSB (StringSrc bs) = Some (ip, 128)" "length ip = 16"
      "bits_msb ip = take 128 (buffer_bits b2)" by auto
  with b1(1) s(1) b2(1) bs(1) have "IPv6FromINET256 a = Some (IPv6 ip)"
    by (simp add: IPv6FromINET256_def AddrFromSlice_def)
  with ip(2,3) t show ?thesis by auto
qed

lemma IPv6FromINET256_None:
  assumes "is_addr a" "128 \<le> addr_zeros a"
  shows "IPv6FromINET256 a = None"
proof -
  obtain s where s: "FromSource (BytesMSB a 0 256) = Some s" "denotes (StringSrc s) (bits_msb a)"
    using FromSource_ok [OF denotes_addr [OF assms(1)]] by blast
  have "compress b s = None" for b
    using firstOne_loop_ok [OF s(2)] assms(2) by (simp add: compress_def)
  with s(1) show ?thesis by (simp add: IPv6FromINET256_def split: Option.bind_splits)
qed

lemma contains_iff: "length ip = 16 \<Longrightarrow> prefix_Contains netPrefix (IPv6 ip) \<longleftrightarrow> take 7 (bits_msb ip) = net_bits"
  by (simp add: prefix_Contains_def)

lemma INET256PrefixFromIPv6_bits:
  assumes "length ip = 16" "bits_msb ip = net_bits @ uint7_bits x @ rest" "x < 128"
  shows "\<exists>p. INET256PrefixFromIPv6 (IPv6 ip) = Ok (p, int (unat x + 115)) \<and> 8 * length p \<ge> unat x + 115 \<and>
     take (unat x + 115) (bits_msb p) = replicate (unat x) False @ True # rest"
proof -
  have rest: "length rest = 114" using arg_cong [OF assms(2), of length] assms(1) by simp
  have "denotes (BytesMSB ip 7 128) (uint7_bits x @ rest)"
    using denotes_BytesMSB [of 7 128 ip] assms(1,2) rest by simp
  then obtain comp where comp: "FromSource (BytesMSB ip 7 128) = Some comp" "denotes (StringSrc comp) (uint7_bits x @ rest)"
    using FromSource_ok by blast
  let ?u = "replicate (unat x) False @ True # rest"
  obtain u where u: "uncompress comp = Some u" "denotes (StringSrc u) ?u"
    using uncompress_ok [OF comp(2) assms(3)] by blast
  obtain p where p: "asBytesMSB (StringSrc u) = Some (p, int (unat x + 115))" "length p = (unat x + 115 + 7) div 8"
      "bits_msb p = ?u @ replicate (8 * length p - (unat x + 115)) False"
    using asBytesMSB_ok [OF u(2)] rest by auto
  have "unat x + 115 \<le> 8 * ((unat x + 115 + 7) div 8)" by presburger
  moreover have "INET256PrefixFromIPv6 (IPv6 ip) = Ok (p, int (unat x + 115))"
    using comp(1) u(1) p(1) assms(1,2) by (simp add: INET256PrefixFromIPv6_def contains_iff)
  ultimately show ?thesis using p(2,3) rest by simp
qed

lemma bits_below_7:
  fixes n :: byte
  assumes "\<And>j. bit n j \<Longrightarrow> j < 7"
  shows "n < 128"
proof -
  have "take_bit 7 n = n" by (rule bit_word_eqI) (auto simp: bit_take_bit_iff dest: assms)
  then have "unat n = take_bit 7 (unat n)" by (metis unsigned_take_bit_eq)
  also have "\<dots> < 2 ^ 7" by (rule take_bit_nat_less_exp)
  finally show ?thesis by (simp add: word_less_nat_alt)
qed

lemma uint7_of_source:
  assumes "denotes s xs" "7 \<le> length xs"
  shows "\<exists>x < 128. uint7_bits x = take 7 xs"
proof -
  have "At s (int i) = Some (xs ! i)" if "i < 7" for i
    using assms that by (simp add: denotes_def)
  from readUint7_loop [OF this, of 7] obtain n :: byte
    where n: "\<And>j. bit n j \<longleftrightarrow> (\<exists>i < 7. j = 6 - i \<and> xs ! i)" by auto
  have "bit n (6 - i) = xs ! i" if "i < 7" for i
  proof -
    have "6 - i = 6 - j \<longleftrightarrow> j = i" if "j < 7" for j using that \<open>i < 7\<close> by linarith
    then show ?thesis using n [of "6 - i"] that by blast
  qed
  then have "uint7_bits n = take 7 xs"
    using assms(2) by (intro nth_equalityI) (auto simp: uint7_bits_def)
  moreover have "n < 128" using n by (intro bits_below_7) auto
  ultimately show ?thesis by blast
qed

lemma INET256PrefixFromIPv6_total:
  assumes "length ip = 16"
  shows "(\<exists>p n. INET256PrefixFromIPv6 (IPv6 ip) = Ok (p, n) \<and> 115 \<le> n \<and> n \<le> 242) \<or> INET256PrefixFromIPv6 (IPv6 ip) = Err NotInSubnet"
proof (cases "prefix_Contains netPrefix (IPv6 ip)")
  case True
  have "denotes (BytesMSB ip 7 128) (drop 7 (bits_msb ip))"
    using denotes_BytesMSB [of 7 128 ip] assms by simp
  then obtain x where x: "x < 128" "uint7_bits x = take 7 (drop 7 (bits_msb ip))"
    using uint7_of_source [of "BytesMSB ip 7 128" "drop 7 (bits_msb ip)"] assms by auto
  have "bits_msb ip = take 7 (bits_msb ip) @ take 7 (drop 7 (bits_msb ip)) @ drop 7 (drop 7 (bits_msb ip))"
    by (simp only: append_take_drop_id)
  then have "bits_msb ip = net_bits @ uint7_bits x @ drop 7 (drop 7 (bits_msb ip))"
    using True x(2) contains_iff [OF assms] by (simp only:)
  from INET256PrefixFromIPv6_bits [OF assms this x(1)] obtain p
    where "INET256PrefixFromIPv6 (IPv6 ip) = Ok (p, int (unat x + 115))" by blast
  moreover have "unat x < 128" using x(1) by (simp add: word_less_nat_alt)
  then have "115 \<le> int (unat x + 115) \<and> int (unat x + 115) \<le> 242" by linarith
  ultimately show ?thesis by blast
qed (simp add: INET256PrefixFromIPv6_def)

lemma uint7_bits_inj: "x < 128 \<Longrightarrow> y < 128 \<Longrightarrow> uint7_bits x = uint7_bits y \<Longrightarrow> x = y"
proof (rule bit_word_eqI)
  fix n assume less: "x < 128" "y < 128" and eq: "uint7_bits x = uint7_bits y"
  show "bit x n = bit y n"
  proof (cases "n < 7")
    case True
    then have "uint7_bits z ! (6 - n) = bit z n" for z by (auto simp: uint7_bits_def)
    with eq show ?thesis by metis
  qed (use less less_128_bit in blast)
qed

lemma bits_msb_inj:
  assumes "length xs = length ys" "bits_msb xs = bits_msb ys"
  shows "xs = ys"
proof (rule nth_equalityI [OF assms(1)])
  fix i assume i: "i < length xs"
  show "xs ! i = ys ! i"
  proof (rule bit_word_eqI)
    fix n assume "n < LENGTH(8)"
    then have n: "n < 8" by simp
    define m where "m = 7 - n"
    have "m < 8" "7 - m = n" using n by (auto simp: m_def)
    moreover have "8 * i + m < 8 * length xs" using i \<open>m < 8\<close> by linarith
    ultimately have "bits_msb zs ! (8 * i + m) = bit (zs ! i) n" if "length zs = length xs" for zs
      using that by simp
    then show "bit (xs ! i) n = bit (ys ! i) n" using assms by metis
  qed
qed

lemma leading_zeros_True: "leading_zeros (replicate k False @ True # r) = k"
  by (induction k) (simp_all add: leading_zeros_def)

lemma addr_take_bits:
  assumes "addr_zeros a < 8 * length a"
  shows "take (addr_zeros a + 115) (bits_msb a) =
     replicate (addr_zeros a) False @ True # take 114 (drop (addr_zeros a + 1) (bits_msb a))"
proof -
  have "addr_zeros a < length (bits_msb a)" using assms by simp
  from leading_zeros_split [OF this]
  have "take (addr_zeros a + 115) (bits_msb a) =
      take (addr_zeros a + 115) (replicate (addr_zeros a) False @ True # drop (addr_zeros a + 1) (bits_msb a))"
    by (rule arg_cong)
  then show ?thesis by (simp del: msb_pos_def)
qed

lemma same_IPv6_iff:
  assumes "is_addr a" "is_addr b" "addr_zeros a < 128" "addr_zeros b < 128"
  shows "IPv6FromINET256 a = IPv6FromINET256 b \<longleftrightarrow>
     take (addr_zeros a + 115) (bits_msb a) = take (addr_zeros a + 115) (bits_msb b)"
    (is "_ \<longleftrightarrow> ?T a a = ?T a b")
proof -
  have T: "?T c c = replicate (addr_zeros c) False @ True # take 114 (drop (addr_zeros c + 1) (bits_msb c))"
    if "is_addr c" "addr_zeros c < 128" for c
    using that by (intro addr_take_bits) (simp add: is_addr_def AddrSize_def)
  have small: "(of_nat n :: byte) < 128" "unat (of_nat n :: byte) = n" if "n < 128" for n
    using that by (simp_all add: word_less_nat_alt unat_of_nat_small)
  obtain p where p: "IPv6FromINET256 a = Some (IPv6 p)" "length p = 16"
      "bits_msb p = net_bits @ uint7_bits (of_nat (addr_zeros a)) @ take 114 (drop (addr_zeros a + 1) (bits_msb a))"
    using IPv6FromINET256_bits [OF assms(1,3)] by blast
  obtain q where q: "IPv6FromINET256 b = Some (IPv6 q)" "length q = 16"
      "bits_msb q = net_bits @ uint7_bits (of_nat (addr_zeros b)) @ take 114 (drop (addr_zeros b + 1) (bits_msb b))"
    using IPv6FromINET256_bits [OF assms(2,4)] by blast
  show ?thesis
  proof
    assume "IPv6FromINET256 a = IPv6FromINET256 b"
    with p q have "uint7_bits (of_nat (addr_zeros a)) = uint7_bits (of_nat (addr_zeros b))"
        and R: "take 114 (drop (addr_zeros a + 1) (bits_msb a)) = take 114 (drop (addr_zeros b + 1) (bits_msb b))"
      by (simp_all del: msb_pos_def)
    then have z: "addr_zeros a = addr_zeros b"
      using uint7_bits_inj small assms(3,4) by metis
    show "?T a a = ?T a b"
      using T [OF assms(1,3)] T [OF assms(2,4)] R unfolding z by argo
  next
    assume eq: "?T a a = ?T a b"
    have "bits_msb b = ?T a b @ drop (addr_zeros a + 115) (bits_msb b)" by (simp only: append_take_drop_id)
    then have "addr_zeros b = addr_zeros a"
      using eq T [OF assms(1,3)] leading_zeros_True by (metis append_Cons append_assoc)
    with eq T assms have "bits_msb p = bits_msb q"
      unfolding p(3) q(3) by (metis append_same_eq same_append_eq list.inject)
    with bits_msb_inj p q show "IPv6FromINET256 a = IPv6FromINET256 b" by metis
  qed
qed

section \<open>The portal\<close>

lemma expireCache_sub: "p_cache (expireCache now p) k = Some e \<Longrightarrow> p_cache p k = Some e \<and> now - ce_createdAt e \<le> cacheEntryTTL"
  by (auto simp: expireCache_def split: option.splits if_splits)

text \<open>A cached destination lies under the prefix of the IPv6 address it is cached for.\<close>

definition routes_to :: "netip_addr \<Rightarrow> addr \<Rightarrow> bool" where
  "routes_to ip a \<longleftrightarrow> (\<exists>pfx n. INET256PrefixFromIPv6 ip = Ok (pfx, n) \<and> id_HasPrefix a pfx n)"

definition portal_ok :: "(bytes \<Rightarrow> (ipv6_error, ip6_header) outcome) \<Rightarrow> portal \<Rightarrow> bool" where
  "portal_ok parseHeader p \<longleftrightarrow>
     (\<forall>ip e. p_cache p ip = Some e \<longrightarrow> routes_to ip (ce_addr e)) \<and>
     (\<forall>(dst, data) \<in> set (p_sent p). \<exists>h. parseHeader data = Ok h \<and> routes_to (IPv6 (take 16 (h_Dst h))) dst)"

text \<open>The contract of \<^verbatim>\<open>Node.FindAddr\<close>: the address it returns has the prefix asked for.\<close>

definition finds_prefix :: "(bytes \<Rightarrow> int \<Rightarrow> (ipv6_error, addr) outcome) \<Rightarrow> bool" where
  "finds_prefix findAddr \<longleftrightarrow> (\<forall>pfx n a. findAddr pfx n = Ok a \<longrightarrow> id_HasPrefix a pfx n)"

lemma node_Send_cases:
  obtains "node_Send send p dst data = (p\<lparr>p_sent := p_sent p @ [(dst, data)]\<rparr>, Ok ())"
  | "node_Send send p dst data = (p, Err SendFailed)"
  by (cases "send dst data") (simp_all add: node_Send_def)

lemma node_Send_ok:
  assumes "portal_ok ph p" "ph data = Ok h" "routes_to (IPv6 (take 16 (h_Dst h))) dst"
  shows "portal_ok ph (fst (node_Send send p dst data))"
  using assms by (cases rule: node_Send_cases [of send p dst data]) (auto simp: portal_ok_def)

lemma putEntry_ok:
  assumes "portal_ok ph p" "routes_to ip (ce_addr e)"
  shows "portal_ok ph (putEntry p ip e)"
  using assms by (auto simp: portal_ok_def putEntry_def)

lemma handleOutbound_ok:
  assumes "portal_ok ph p" "finds_prefix findAddr"
  shows "portal_ok ph (fst (handleOutbound ph findAddr send now p data))"
proof (cases "ph data")
  case (Ok h)
  let ?ip = "IPv6 (take 16 (h_Dst h))"
  show ?thesis
  proof (cases "getEntry p ?ip")
    case None
    then show ?thesis
    proof (cases "obind (INET256PrefixFromIPv6 ?ip) (\<lambda>(pfx, nbits). findAddr pfx nbits)")
      case dst: (Ok dst)
      then have r: "routes_to ?ip dst" using assms(2) by (auto simp: routes_to_def finds_prefix_def outcome_simps)
      let ?p = "putEntry p ?ip \<lparr>ce_addr = dst, ce_createdAt = now\<rparr>"
      have "portal_ok ph (fst (node_Send send ?p dst data))"
        using putEntry_ok [OF assms(1), of ?ip "\<lparr>ce_addr = dst, ce_createdAt = now\<rparr>"] r by (intro node_Send_ok [where h = h] Ok) simp_all
      with Ok None dst assms(1) show ?thesis by (simp add: handleOutbound_def Let_def)
    qed (use Ok None assms(1) in \<open>simp_all add: handleOutbound_def Let_def\<close>)
  next
    case (Some e)
    then have "routes_to ?ip (ce_addr e)" using assms(1) by (auto simp: portal_ok_def getEntry_def)
    with node_Send_ok [where h = h, OF assms(1) Ok] Ok Some assms(1) show ?thesis by (simp add: handleOutbound_def Let_def)
  qed
qed (use assms(1) in \<open>simp_all add: handleOutbound_def\<close>)

lemma outboundLoop_ok:
  assumes "finds_prefix findAddr"
  shows "portal_ok ph p \<Longrightarrow> portal_ok ph (fst (outboundLoop ph findAddr send reads p))"
proof (induction reads arbitrary: p)
  case (Cons r reads)
  obtain now data where r: "r = (now, data)" by (cases r)
  obtain p' res where h: "handleOutbound ph findAddr send now p data = (p', res)" by fastforce
  with handleOutbound_ok [OF Cons.prems assms, of send now data] have "portal_ok ph p'" by simp
  with Cons.IH h r show ?case by (cases res) simp_all
qed simp

lemma expireCache_ok: "portal_ok ph p \<Longrightarrow> portal_ok ph (expireCache now p)"
proof -
  have "p_sent (expireCache now p) = p_sent p" by (simp add: expireCache_def)
  then show "portal_ok ph p \<Longrightarrow> portal_ok ph (expireCache now p)"
    unfolding portal_ok_def by (simp only:) (use expireCache_sub in blast)
qed

text \<open>What may be written to the device for a message.\<close>

definition inbound_ok :: "(bytes \<Rightarrow> (ipv6_error, ip6_header) outcome) \<Rightarrow> (addr \<Rightarrow> bool) \<Rightarrow> addr \<times> bytes \<Rightarrow> bool" where
  "inbound_ok ph af m \<longleftrightarrow>
     af (fst m) \<and> (\<exists>h ip. ph (snd m) = Ok h \<and> IPv6FromINET256 (fst m) = Some ip \<and> net_IP_Equal (h_Src h) (AsSlice ip))"

lemma handleInbound_written:
  assumes "handleInbound ph write p src data = (p', r)" "af src"
  shows "p' = p \<or> p' = p\<lparr>p_written := p_written p @ [data]\<rparr> \<and> inbound_ok ph af (src, data)"
  using assms by (auto simp: handleInbound_def inbound_ok_def split: outcome.splits option.splits if_splits)

lemma inboundLoop_written:
  "inboundLoop ph write af msgs p = (p', r) \<Longrightarrow>
   \<exists>ms. subseq ms msgs \<and> (\<forall>m \<in> set ms. inbound_ok ph af m) \<and> p_written p' = p_written p @ map snd ms"
proof (induction msgs arbitrary: p)
  case (Cons m msgs)
  obtain src data where m: "m = (src, data)" by (cases m)
  show ?case
  proof (cases "af src")
    case True
    obtain p1 r1 where h: "handleInbound ph write p src data = (p1, r1)" by fastforce
    have p1: "p1 = p \<or> p1 = p\<lparr>p_written := p_written p @ [data]\<rparr> \<and> inbound_ok ph af m"
      using handleInbound_written [where af = af, OF h True] m by simp
    have "\<exists>ms. subseq ms msgs \<and> (\<forall>m \<in> set ms. inbound_ok ph af m) \<and> p_written p' = p_written p1 @ map snd ms"
    proof (cases r1)
      case (Ok u)
      with Cons h m True show ?thesis by simp
    qed (use Cons.prems h m True in \<open>auto intro!: exI [of _ "[]"]\<close>)
    then obtain ms where ms: "subseq ms msgs" "\<forall>m \<in> set ms. inbound_ok ph af m" "p_written p' = p_written p1 @ map snd ms"
      by blast
    from p1 show ?thesis
    proof
      assume "p1 = p"
      with ms show ?thesis by (blast intro: subseq_Cons')
    next
      assume "p1 = p\<lparr>p_written := p_written p @ [data]\<rparr> \<and> inbound_ok ph af m"
      with ms m show ?thesis by (intro exI [of _ "m # ms"]) auto
    qed
  next
    case False
    with Cons m obtain ms where "subseq ms msgs" "\<forall>m \<in> set ms. inbound_ok ph af m" "p_written p' = p_written p @ map snd ms"
      by fastforce
    then show ?thesis by (blast intro: subseq_Cons')
  qed
qed simp

section \<open>Whitelists, the NAT table and mining\<close>

lemma newline_Base64String: "CHR 0x0A \<notin> set (Base64String a)"
proof -
  have "\<not> is_newline c" if "c \<in> set (EncodeToString a)" for c
    using filter_newline_encode [of a] that by (metis (mono_tags, lifting) filter_eq_ConsD filter_id_conv)
  then show ?thesis by (auto simp: Base64String_def MarshalText_def is_newline_def)
qed

lemma allow_loop:
  "(\<forall>a \<in> set as. is_addr a) \<Longrightarrow>
   ofold (\<lambda>line allowed. obind (ParseAddrBase64 line) (\<lambda>a. Ok (allowed(a \<mapsto> ())))) (map Base64String as) m =
     Ok (\<lambda>x. if x \<in> set as then Some () else m x)"
proof (induction as arbitrary: m)
  case (Cons a as)
  have "ParseAddrBase64 (Base64String a) = Ok a"
    using UnmarshalText_MarshalText [OF is_addr_zero, of a] Cons.prems by (simp add: ParseAddrBase64_def Base64String_def)
  with Cons show ?case by (auto simp: fun_eq_iff)
qed simp

definition nat_ok :: "'n NATTable \<Rightarrow> bool" where
  "nat_ok nt \<longleftrightarrow> (\<forall>out. nt_vnodes nt out = None \<longleftrightarrow> nt_inbound nt out = None) \<and>
     (\<forall>i out. nt_outbound nt i = Some out \<longrightarrow> nt_inbound nt out = Some i)"

text \<open>The tables a run can build, the service giving every opened node an address of its own.\<close>

inductive nat_reachable :: "'n NATTable \<Rightarrow> bool" where
  nat_new: "nat_reachable NewNATTable"
| nat_add: "nat_reachable nt \<Longrightarrow> out \<notin> dom (nt_vnodes nt) \<Longrightarrow> AddClient (Some (n, out)) nt ip = Some (nt', out) \<Longrightarrow>
    nat_reachable nt'"
| nat_delete: "nat_reachable nt \<Longrightarrow> DeleteClient nt ip = Some nt' \<Longrightarrow> nat_reachable nt'"

lemma nat_reachable_ok: "nat_reachable nt \<Longrightarrow> nat_ok nt"
proof (induction rule: nat_reachable.induct)
  case nat_new
  show ?case by (simp add: nat_ok_def NewNATTable_def)
next
  case (nat_add nt out n ip nt')
  then have "nt_inbound nt out = None" unfolding nat_ok_def by blast
  moreover have "nt' = nt\<lparr>nt_inbound := (nt_inbound nt)(out \<mapsto> ip), nt_outbound := (nt_outbound nt)(ip \<mapsto> out),
      nt_vnodes := (nt_vnodes nt)(out \<mapsto> n)\<rparr>"
    using nat_add.hyps(3) by (simp add: AddClient_def)
  moreover have "nt_outbound nt i \<noteq> Some out" for i
    using nat_add.IH \<open>nt_inbound nt out = None\<close> unfolding nat_ok_def by (metis option.distinct(1))
  ultimately show ?case using nat_add.IH unfolding nat_ok_def by (simp split: if_splits)
next
  case (nat_delete nt ip nt')
  show ?case
  proof (cases "nt_outbound nt ip")
    case None
    with nat_delete show ?thesis by (simp add: DeleteClient_def)
  next
    case (Some a)
    with nat_delete.hyps(2) have "nt' = nt\<lparr>nt_outbound := (nt_outbound nt)(ip := None),
        nt_inbound := (nt_inbound nt)(a := None), nt_vnodes := (nt_vnodes nt)(a := None)\<rparr>"
      by (auto simp: DeleteClient_def split: if_splits)
    moreover have "nt_outbound nt i \<noteq> Some a" if "i \<noteq> ip" for i
      using nat_delete.IH Some that unfolding nat_ok_def by (metis option.inject)
    ultimately show ?thesis using nat_delete.IH unfolding nat_ok_def by auto
  qed
qed

lemma mine_worker_found:
  "mine_worker lz goal ks best = (a, k) \<Longrightarrow> (a, k) = best \<or> (\<exists>key. k = Some key \<and> (a, key) \<in> set ks)"
proof (induction ks arbitrary: best)
  case (Cons x ks)
  obtain a' k' where x: "x = (a', k')" by (cases x)
  from Cons.prems x consider "(a', Some k') = (a, k)" | "mine_worker lz goal ks (a', Some k') = (a, k)"
    | "mine_worker lz goal ks best = (a, k)"
    by (cases "lz a' > lz (fst best)"; cases "lz a' \<ge> goal") simp_all
  then show ?case
    by cases (use Cons.IH [of "(a', Some k')"] Cons.IH [of best] x in auto)
qed simp

lemma mine_worker_mono: "lz (fst best) \<le> lz (fst (mine_worker lz goal ks best))"
proof (induction ks arbitrary: best)
  case (Cons x ks)
  obtain a k where "x = (a, k)" by (cases x)
  with Cons.IH [of best] Cons.IH [of "(a, Some k)"] show ?case by auto
qed simp

lemma mine_select_found:
  assumes "mine_select lz goal bs (m, found) = (m', Some b)" "\<And>c. found = Some c \<Longrightarrow> lz (fst c) = m \<and> goal \<le> m"
  shows "lz (fst b) = m' \<and> goal \<le> m' \<and> (b \<in> set bs \<or> found = Some b)"
  using assms
proof (induction bs arbitrary: m found)
  case (Cons c bs)
  show ?case
  proof (cases "goal \<le> lz (fst c) \<and> m < lz (fst c)")
    case True
    with Cons.prems(1) have "mine_select lz goal bs (lz (fst c), Some c) = (m', Some b)" by simp
    from Cons.IH [OF this] True show ?thesis by auto
  next
    case False
    with Cons.prems(1) have "mine_select lz goal bs (m, found) = (m', Some b)" by (auto split: if_splits)
    from Cons.IH [OF this Cons.prems(2)] show ?thesis by auto
  qed
qed simp

lemma mine_select_max:
  "m \<le> fst (mine_select lz goal bs (m, found)) \<and>
   (\<forall>b \<in> set bs. goal \<le> lz (fst b) \<longrightarrow> lz (fst b) \<le> fst (mine_select lz goal bs (m, found)))"
proof (induction bs arbitrary: m found)
  case (Cons c bs)
  show ?case
    using Cons.IH [of m found] Cons.IH [of "lz (fst c)" "Some c"] by (auto simp: not_less intro: order_trans)
qed simp

lemma mine_select_None:
  "snd (mine_select lz goal bs (m, None)) = None \<Longrightarrow> b \<in> set bs \<Longrightarrow> lz (fst b) < goal \<or> lz (fst b) \<le> m"
proof (induction bs)
  case (Cons c bs)
  have "snd (mine_select lz goal bs (n, Some d)) \<noteq> None" for n d
    by (induction bs arbitrary: n d) auto
  from this [of "lz (fst c)" c] Cons.prems(1) have "\<not> (goal \<le> lz (fst c) \<and> m < lz (fst c))" "snd (mine_select lz goal bs (m, None)) = None"
    by (simp_all split: if_splits)
  with Cons.IH Cons.prems(2) show ?case by force
qed simp

lemma IPv6_mapping_prefix:
  assumes "is_addr a" "addr_zeros a < 128"
  shows "\<exists>ip pfx. IPv6FromINET256 a = Some (IPv6 ip) \<and> prefix_Contains NetworkPrefix (IPv6 ip) \<and>
     INET256PrefixFromIPv6 (IPv6 ip) = Ok (pfx, int (addr_zeros a + 115)) \<and>
     id_HasPrefix a pfx (int (addr_zeros a + 115))"
proof -
  let ?k = "addr_zeros a"
  obtain ip where ip: "IPv6FromINET256 a = Some (IPv6 ip)" "length ip = 16"
      "bits_msb ip = net_bits @ uint7_bits (of_nat ?k) @ take 114 (drop (?k + 1) (bits_msb a))"
    using IPv6FromINET256_bits [OF assms] by blast
  have k: "(of_nat ?k :: byte) < 128" "unat (of_nat ?k :: byte) = ?k"
    using assms(2) by (simp_all add: word_less_nat_alt unat_of_nat_small)
  obtain pfx where pfx: "INET256PrefixFromIPv6 (IPv6 ip) = Ok (pfx, int (?k + 115))" "?k + 115 \<le> 8 * length pfx"
      "take (?k + 115) (bits_msb pfx) = replicate ?k False @ True # take 114 (drop (?k + 1) (bits_msb a))"
    using INET256PrefixFromIPv6_bits [OF ip(2,3) k(1)] unfolding k(2) by blast
  have len: "8 * length a = 256" using assms(1) by (simp add: is_addr_def AddrSize_def)
  then have "?k < 8 * length a" using assms(2) by linarith
  from addr_take_bits [OF this] pfx(3) have "take (?k + 115) (bits_msb a) = take (?k + 115) (bits_msb pfx)"
    by argo
  then have "id_HasPrefix a pfx (int (?k + 115))"
    unfolding id_HasPrefix_def using id_HasPrefix_loop_ok [of "?k + 115" "int (?k + 115)" 0 a pfx] pfx(2) len assms(2) by simp
  moreover have "prefix_Contains NetworkPrefix (IPv6 ip)"
    using ip(2,3) contains_iff by (simp add: NetworkPrefix_def)
  ultimately show ?thesis using ip(1) pfx(1) by blast
qed

definition sample_addr :: "byte \<Rightarrow> addr" where
  "sample_addr b = 1 # replicate 30 0 @ [b]"

lemma sample_addr_simps:
  "is_addr (sample_addr b)" "addr_zeros (sample_addr 0) = 7" "addr_zeros (sample_addr 5) = 7"
  "take 122 (bits_msb (sample_addr 0)) = take 122 (bits_msb (sample_addr 5))"
  subgoal by (simp add: sample_addr_def is_addr_def AddrSize_def)
  by code_simp+

section \<open>Properties\<close>

text \<open>
  C13: an address with fewer than 128 leading zeros maps to an IPv6 address in \<^verbatim>\<open>0200::/7\<close>, from which
  the reverse mapping recovers a prefix of the address: its leading zeros, the first one and the
  next 114 bits. \<^verbatim>\<open>HasPrefix\<close> accepts the address for that prefix, so \<^verbatim>\<open>FindAddr\<close> can find it.
\<close>

theorem IPv6_mapping_recovers_prefix:
  assumes "is_addr a" "addr_zeros a < 128"
  shows "\<exists>ip pfx. IPv6FromINET256 a = Some (IPv6 ip) \<and> prefix_Contains NetworkPrefix (IPv6 ip) \<and>
     INET256PrefixFromIPv6 (IPv6 ip) = Ok (pfx, int (addr_zeros a + 115)) \<and>
     id_HasPrefix a pfx (int (addr_zeros a + 115))"
  by (rule IPv6_mapping_prefix [OF assms])

theorem IPv6_mapping_recovers_prefix_witness:
  "\<exists>ip pfx. IPv6FromINET256 (sample_addr 5) = Some (IPv6 ip) \<and> prefix_Contains NetworkPrefix (IPv6 ip) \<and>
     INET256PrefixFromIPv6 (IPv6 ip) = Ok (pfx, 122) \<and> id_HasPrefix (sample_addr 5) pfx 122"
  using IPv6_mapping_recovers_prefix [of "sample_addr 5"] sample_addr_simps by simp

text \<open>
  C34: two such addresses share an IPv6 address exactly when they agree on the bits the mapping keeps:
  an IPv6 address in the network binds at least 115 bits of the INET256 address.
\<close>

theorem IPv6_mapping_collisions:
  assumes "is_addr a" "is_addr b" "addr_zeros a < 128" "addr_zeros b < 128"
  shows "IPv6FromINET256 a = IPv6FromINET256 b \<longleftrightarrow>
     take (addr_zeros a + 115) (bits_msb a) = take (addr_zeros a + 115) (bits_msb b)"
  by (rule same_IPv6_iff [OF assms])

theorem IPv6_mapping_collisions_witness: "IPv6FromINET256 (sample_addr 0) = IPv6FromINET256 (sample_addr 5)"
  using IPv6_mapping_collisions [of "sample_addr 0" "sample_addr 5"] sample_addr_simps by simp

text \<open>\<^verbatim>\<open>IPv6FromINET256\<close> panics exactly on the addresses with 128 or more leading zeros.\<close>

theorem IPv6FromINET256_panics_iff:
  "is_addr a \<Longrightarrow> IPv6FromINET256 a = None \<longleftrightarrow> 128 \<le> addr_zeros a"
  using IPv6FromINET256_bits [of a] IPv6FromINET256_None [of a] by fastforce

theorem IPv6FromINET256_panics_iff_witness: "IPv6FromINET256 (sample_addr 0) \<noteq> None"
  using IPv6FromINET256_panics_iff [of "sample_addr 0"] sample_addr_simps by simp

text \<open>
  The reverse mapping never panics: on any 16-byte address it returns a prefix of between 115 and
  242 bits, or reports that the address is outside the network.
\<close>

theorem INET256PrefixFromIPv6_never_panics:
  "length ip = 16 \<Longrightarrow>
   (\<exists>p n. INET256PrefixFromIPv6 (IPv6 ip) = Ok (p, n) \<and> 115 \<le> n \<and> n \<le> 242) \<or> INET256PrefixFromIPv6 (IPv6 ip) = Err NotInSubnet"
  by (rule INET256PrefixFromIPv6_total)

theorem INET256PrefixFromIPv6_never_panics_witness: "INET256PrefixFromIPv6 (IPv6 (replicate 16 3)) \<noteq> Panic"
  using INET256PrefixFromIPv6_never_panics [of "replicate 16 3"] by auto

text \<open>
  C30: whatever packets the device delivers and the cleaner expires, the portal sends a packet only to
  an address under the prefix of its IPv6 destination, provided \<^verbatim>\<open>FindAddr\<close> returns addresses with the
  prefix it was asked for.
\<close>

theorem portal_sends_under_prefix:
  assumes "finds_prefix findAddr" "portal_ok parseHeader p"
    and "(dst, data) \<in> set (p_sent (expireCache now (fst (outboundLoop parseHeader findAddr send reads p))))"
  shows "\<exists>h. parseHeader data = Ok h \<and> routes_to (IPv6 (take 16 (h_Dst h))) dst"
  using expireCache_ok [OF outboundLoop_ok [OF assms(1,2)], of now send reads] assms(3)
  unfolding portal_ok_def by blast

definition sample_portal :: portal where
  "sample_portal = \<lparr>p_cache = Map.empty, p_sent = [], p_written = []\<rparr>"

definition sample_header :: "bytes \<Rightarrow> (ipv6_error, ip6_header) outcome" where
  "sample_header data = (if length data < 40 then Err BadHeader
     else Ok \<lparr>h_Src = take 16 (drop 8 data), h_Dst = take 16 (drop 24 data)\<rparr>)"

definition sample_find :: "bytes \<Rightarrow> int \<Rightarrow> (ipv6_error, addr) outcome" where
  "sample_find pfx n = (if id_HasPrefix (sample_addr 0) pfx n then Ok (sample_addr 0) else Err NoAddr)"

definition sample_packet :: bytes where
  "sample_packet = replicate 24 0 @ (case IPv6FromINET256 (sample_addr 0) of Some ip \<Rightarrow> AsSlice ip | None \<Rightarrow> [])"

theorem portal_sends_under_prefix_witness:
  "\<exists>h. sample_header sample_packet = Ok h \<and> routes_to (IPv6 (take 16 (h_Dst h))) (sample_addr 0)"
proof -
  have 1: "finds_prefix sample_find" by (simp add: finds_prefix_def sample_find_def)
  have 2: "portal_ok sample_header sample_portal" by (simp add: portal_ok_def sample_portal_def)
  have "(sample_addr 0, sample_packet) \<in> set (p_sent (expireCache 1
      (fst (outboundLoop sample_header sample_find (\<lambda>a d. True) [(0, sample_packet)] sample_portal))))"
  proof -
    obtain ip pfx where ip: "IPv6FromINET256 (sample_addr 0) = Some (IPv6 ip)"
        "INET256PrefixFromIPv6 (IPv6 ip) = Ok (pfx, 122)" "id_HasPrefix (sample_addr 0) pfx 122"
      using IPv6_mapping_prefix [of "sample_addr 0"] sample_addr_simps by auto
    moreover have "length ip = 16"
      using IPv6FromINET256_bits [of "sample_addr 0"] sample_addr_simps ip(1) by auto
    ultimately show ?thesis
      by (simp add: sample_packet_def sample_header_def sample_find_def handleOutbound_def getEntry_def
          sample_portal_def putEntry_def node_Send_def expireCache_def)
  qed
  from portal_sends_under_prefix [OF 1 2 this] show ?thesis .
qed

text \<open>
  C31: every packet the portal writes to the device came from a sender the allow function accepts, and
  carries the IPv6 address of that sender as its source; packets are written in the order received.
\<close>

theorem portal_writes_authentic_packets:
  assumes "inboundLoop parseHeader write af msgs p = (p', r)"
  shows "\<exists>ms. subseq ms msgs \<and> p_written p' = p_written p @ map snd ms \<and>
     (\<forall>(src, data) \<in> set ms. af src \<and>
        (\<exists>h ip. parseHeader data = Ok h \<and> IPv6FromINET256 src = Some ip \<and> net_IP_Equal (h_Src h) (AsSlice ip)))"
proof -
  obtain ms where "subseq ms msgs" "\<forall>m \<in> set ms. inbound_ok parseHeader af m" "p_written p' = p_written p @ map snd ms"
    using inboundLoop_written [OF assms] by blast
  then show ?thesis by (intro exI [of _ ms]) (auto simp: inbound_ok_def)
qed

theorem portal_writes_authentic_packets_witness:
  "p_written (fst (inboundLoop sample_header (\<lambda>d. True) AllowAll [(zero_addr, [])] sample_portal)) = []"
  using portal_writes_authentic_packets [of sample_header "\<lambda>d. True" AllowAll "[(zero_addr, [])]" sample_portal sample_portal "Err BadHeader"]
  by (auto simp: sample_header_def AllowAll_def handleInbound_def sample_portal_def)

text \<open>
  One message from an accepted sender whose source does not match, or whose header does not
  parse, ends the inbound loop: the messages after it are not handled.
\<close>

theorem portal_stops_on_bad_packet:
  assumes "af src" "handleInbound parseHeader write p src data = (p', Err e)"
  shows "inboundLoop parseHeader write af ((src, data) # msgs) p = (p', Err e)"
  using assms by simp

theorem portal_stops_on_bad_packet_witness:
  "inboundLoop sample_header (\<lambda>d. True) AllowAll ((zero_addr, []) # [(zero_addr, sample_packet)]) sample_portal =
     (sample_portal, Err BadHeader)"
  by (rule portal_stops_on_bad_packet) (simp_all add: AllowAll_def handleInbound_def sample_header_def)

text \<open>
  In every table a run can build, deleting a client never panics, removes it, and leaves the
  nodes of the other clients in place.
\<close>

theorem NAT_delete_client:
  assumes "nat_reachable nt"
  shows "\<exists>nt'. DeleteClient nt ip = Some nt' \<and> NodeByInner nt' ip = None \<and>
     (\<forall>ip'. ip' \<noteq> ip \<longrightarrow> NodeByInner nt' ip' = NodeByInner nt ip')"
proof (cases "nt_outbound nt ip")
  case None
  then show ?thesis by (auto simp: DeleteClient_def NodeByInner_def)
next
  case (Some a)
  note ok = nat_reachable_ok [OF assms, unfolded nat_ok_def]
  from ok Some have "nt_vnodes nt a \<noteq> None" by (metis option.distinct(1))
  moreover have "nt_outbound nt ip' \<noteq> Some a" if "ip' \<noteq> ip" for ip'
    using ok Some that by (metis option.inject)
  ultimately show ?thesis
    using Some by (auto simp: DeleteClient_def NodeByInner_def split: option.splits)
qed

theorem NAT_delete_client_witness:
  "\<exists>nt'. DeleteClient (NewNATTable :: nat NATTable) [1] = Some nt' \<and> NodeByInner nt' [1] = None \<and>
     (\<forall>ip'. ip' \<noteq> [1] \<longrightarrow> NodeByInner nt' ip' = NodeByInner (NewNATTable :: nat NATTable) ip')"
  by (rule NAT_delete_client [OF nat_new])

text \<open>
  Adding the same client twice leaks: after it is deleted, the first node is still in the table,
  under an address no client has.
\<close>

theorem NAT_double_add_leaks:
  assumes "out1 \<noteq> out2" "AddClient (Some (n1, out1)) nt ip = Some (nt1, out1)"
    and "AddClient (Some (n2, out2)) nt1 ip = Some (nt2, out2)" "DeleteClient nt2 ip = Some nt3"
  shows "NodeByOuter nt3 out1 = Some n1 \<and> nt_outbound nt3 ip = None"
  using assms by (auto simp: AddClient_def DeleteClient_def NodeByOuter_def split: option.splits if_splits)

theorem NAT_double_add_leaks_witness:
  "\<exists>nt1 nt2 nt3. AddClient (Some (1 :: nat, [1])) NewNATTable [9] = Some (nt1, [1]) \<and>
     AddClient (Some (2, [2])) nt1 [9] = Some (nt2, [2]) \<and> DeleteClient nt2 [9] = Some nt3 \<and> NodeByOuter nt3 [1] = Some 1"
proof -
  obtain nt1 nt2 nt3 where nt: "AddClient (Some (1 :: nat, [1])) NewNATTable [9] = Some (nt1, [1])"
      "AddClient (Some (2, [2])) nt1 [9] = Some (nt2, [2])" "DeleteClient nt2 [9] = Some nt3"
    by (simp add: AddClient_def DeleteClient_def)
  from NAT_double_add_leaks [OF _ this] nt show ?thesis by simp
qed

text \<open>
  A whitelist written as one base64 address per line, without a trailing line break, allows
  exactly the addresses listed; with a trailing line break it is refused.
\<close>

theorem ParseWhitelist_exact:
  assumes "as \<noteq> []" "\<forall>a \<in> set as. is_addr a"
  shows "(\<exists>f. ParseWhitelist (strings_Join (map Base64String as) [CHR 0x0A]) = Ok f \<and> (\<forall>x. f x \<longleftrightarrow> x \<in> set as)) \<and>
     ParseWhitelist (strings_Join (map Base64String as) [CHR 0x0A] @ [CHR 0x0A]) = Err TooShort"
proof -
  have 1: "bytes_Split (strings_Join (map Base64String as) [CHR 0x0A]) (CHR 0x0A) = map Base64String as"
    using assms(1) newline_Base64String by (intro bytes_Split_Join) auto
  have "bytes_Split (strings_Join (map Base64String as @ [[]]) [CHR 0x0A]) (CHR 0x0A) = map Base64String as @ [[]]"
    using newline_Base64String by (intro bytes_Split_Join) auto
  then have 2: "bytes_Split (strings_Join (map Base64String as) [CHR 0x0A] @ [CHR 0x0A]) (CHR 0x0A) = map Base64String as @ [[]]"
    using strings_Join_snoc [of "map Base64String as"] assms(1) by simp
  have "ParseAddrBase64 [] = Err TooShort"
    by (simp add: ParseAddrBase64_def UnmarshalText_def base64_Decode_def AddrSize_def)
  then show ?thesis
    using allow_loop [OF assms(2), of Map.empty] by (simp add: ParseWhitelist_def 1 2 ofold_append)
qed

theorem ParseWhitelist_exact_witness:
  "(\<exists>f. ParseWhitelist (strings_Join (map Base64String [sample_addr 0, sample_addr 5]) [CHR 0x0A]) = Ok f \<and>
      (\<forall>x. f x \<longleftrightarrow> x \<in> set [sample_addr 0, sample_addr 5])) \<and>
   ParseWhitelist (strings_Join (map Base64String [sample_addr 0, sample_addr 5]) [CHR 0x0A] @ [CHR 0x0A]) = Err TooShort"
  by (rule ParseWhitelist_exact) (simp_all add: sample_addr_simps)

text \<open>
  For a goal above what the all-ones address has, a successful search returns an address one of
  the workers generated, with its key; it meets the goal and no worker's best address is better.
\<close>

theorem MineAddr_correct:
  assumes "MineAddr lz goal workers = Some (a, k)" "lz allOnes < goal"
  shows "goal \<le> lz a \<and> (\<exists>w \<in> set workers. \<exists>key. k = Some key \<and> (a, key) \<in> set w) \<and>
     (\<forall>w \<in> set workers. goal \<le> lz (fst (mine_worker lz goal w (allOnes, None))) \<longrightarrow>
        lz (fst (mine_worker lz goal w (allOnes, None))) \<le> lz a)"
proof -
  let ?bs = "map (\<lambda>ks. mine_worker lz goal ks (allOnes, None)) workers"
  obtain m where m: "mine_select lz goal ?bs (- 1, None) = (m, Some (a, k))"
    using assms(1) by (cases "mine_select lz goal ?bs (- 1, None)") (auto simp: MineAddr_def)
  have f: "lz a = m" "goal \<le> m" "(a, k) \<in> set ?bs"
    using mine_select_found [OF m] by auto
  then obtain w where w: "w \<in> set workers" "mine_worker lz goal w (allOnes, None) = (a, k)" by force
  then have "\<exists>key. k = Some key \<and> (a, key) \<in> set w"
    using mine_worker_found [of lz goal w "(allOnes, None)" a k] f(1,2) assms(2) by auto
  moreover have "\<forall>b \<in> set ?bs. goal \<le> lz (fst b) \<longrightarrow> lz (fst b) \<le> m"
    using mine_select_max [of "- 1" lz goal ?bs None] m by simp
  ultimately show ?thesis using f w(1) by auto
qed

theorem MineAddr_correct_witness:
  "MineAddr (\<lambda>a. if a = zero_addr then 256 else 0) 16 [[(zero_addr, True)]] = Some (zero_addr, Some True) \<and>
   (16 :: int) \<le> 256"
proof -
  have 1: "MineAddr (\<lambda>a. if a = zero_addr then 256 else 0) 16 [[(zero_addr, True)]] = Some (zero_addr, Some True)"
    by (simp add: MineAddr_def allOnes_def zero_addr_def AddrSize_def)
  have 2: "(if allOnes = zero_addr then 256 else 0) < (16 :: int)"
    by (simp add: allOnes_def zero_addr_def AddrSize_def)
  from MineAddr_correct [OF 1 2] 1 show ?thesis by simp
qed

end
