(* ===== verification/Json.thy ===== *)
theory Json
  imports Ident
begin

text \<open>
  The part of the Go standard library's \<^verbatim>\<open>encoding/json\<close> that the sources rely on: the text
  \<^verbatim>\<open>json.Marshal\<close> produces, a parser for JSON texts, and decoding into structures the way
  \<^verbatim>\<open>json.Unmarshal\<close> does it, with the field name matching, the treatment of null and the errors that do
  not stop the decoding. Text is a list of bytes; bytes from \<open>0x80\<close> on are passed through, which is
  what the library does with valid UTF-8 other than U+2028 and U+2029. The library's limit on the nesting depth is left out.
\<close>

section \<open>Values and their text\<close>

text \<open>A number is kept as its literal, as the decoder does.\<close>

datatype json = JNull | JBool bool | JNum string | JStr string | JArr "json list" | JObj "(string \<times> json) list"

definition hex_digit :: "nat \<Rightarrow> char" where
  "hex_digit n = ''0123456789abcdef'' ! (n mod 16)"

definition short_escapes :: "(char \<times> char) list" where
  "short_escapes = [(CHR 0x22, CHR 0x22), (CHR 0x5C, CHR 0x5C), (CHR 0x08, CHR ''b''), (CHR 0x0C, CHR ''f''),
     (CHR 0x0A, CHR ''n''), (CHR 0x0D, CHR ''r''), (CHR 0x09, CHR ''t'')]"

definition json_escape :: "char \<Rightarrow> string" where
  "json_escape c =
     (case map_of short_escapes c of
        Some e \<Rightarrow> [CHR 0x5C, e]
      | None \<Rightarrow> if of_char c < (32 :: nat) \<or> c \<in> {CHR ''<'', CHR ''>'', CHR ''&''}
                then [CHR 0x5C, CHR ''u'', CHR ''0'', CHR ''0'', hex_digit (of_char c div 16), hex_digit (of_char c)]
                else [c])"

definition json_quote :: "string \<Rightarrow> string" where
  "json_quote s = CHR 0x22 # concat (map json_escape s) @ [CHR 0x22]"

fun json_print :: "json \<Rightarrow> string"
  and json_elems :: "json list \<Rightarrow> string"
  and json_members :: "(string \<times> json) list \<Rightarrow> string" where
  "json_print JNull = ''null''"
| "json_print (JBool b) = (if b then ''true'' else ''false'')"
| "json_print (JNum s) = s"
| "json_print (JStr s) = json_quote s"
| "json_print (JArr js) = ''['' @ json_elems js @ '']''"
| "json_print (JObj kvs) = ''{'' @ json_members kvs @ ''}''"
| "json_elems [] = ''''"
| "json_elems [j] = json_print j"
| "json_elems (j # js) = json_print j @ '','' @ json_elems js"
| "json_members [] = ''''"
| "json_members [(k, v)] = json_quote k @ '':'' @ json_print v"
| "json_members ((k, v) # kvs) = json_quote k @ '':'' @ json_print v @ '','' @ json_members kvs"

section \<open>Parsing\<close>

definition is_ws :: "char \<Rightarrow> bool" where
  "is_ws c \<longleftrightarrow> c \<in> {CHR 0x20, CHR 0x09, CHR 0x0A, CHR 0x0D}"

definition skip_ws :: "string \<Rightarrow> string" where
  "skip_ws s = dropWhile is_ws s"

definition hex_value :: "char \<Rightarrow> nat option" where
  "hex_value c = map_of (zip ''0123456789abcdefABCDEF'' ([0..<16] @ [10..<16])) c"

fun hex4 :: "string \<Rightarrow> nat option" where
  "hex4 s = (if None \<in> set (map hex_value s) then None
     else Some (foldl (\<lambda>n c. n * 16 + the (hex_value c)) 0 s))"

text \<open>The UTF-8 encoding of a code point.\<close>

definition utf8 :: "nat \<Rightarrow> string" where
  "utf8 n = map char_of
     (if n < 0x80 then [n]
      else if n < 0x800 then [0xC0 + n div 0x40, 0x80 + n mod 0x40]
      else if n < 0x10000 then [0xE0 + n div 0x1000, 0x80 + n div 0x40 mod 0x40, 0x80 + n mod 0x40]
      else [0xF0 + n div 0x40000, 0x80 + n div 0x1000 mod 0x40, 0x80 + n div 0x40 mod 0x40, 0x80 + n mod 0x40])"

definition is_surrogate :: "nat \<Rightarrow> bool" where
  "is_surrogate n \<longleftrightarrow> 0xD800 \<le> n \<and> n < 0xE000"

text \<open>
  The code unit behind \<^verbatim>\<open>\u\<close>, with the text after it: a surrogate pair is combined, a lone surrogate
  is replaced by U+FFFD.
\<close>

definition unit_rune :: "nat \<Rightarrow> string \<Rightarrow> nat \<times> string" where
  "unit_rune n s =
     (if \<not> is_surrogate n then (n, s)
      else case s of
        b # u # g1 # g2 # g3 # g4 # rest \<Rightarrow>
          (case hex4 [g1, g2, g3, g4] of
             Some m \<Rightarrow> if b = CHR 0x5C \<and> u = CHR ''u'' \<and> n < 0xDC00 \<and> 0xDC00 \<le> m \<and> m < 0xE000
                       then ((n - 0xD800) * 0x400 + (m - 0xDC00) + 0x10000, rest) else (0xFFFD, s)
           | None \<Rightarrow> (0xFFFD, s))
      | _ \<Rightarrow> (0xFFFD, s))"

lemma unit_rune_shorter: "length (snd (unit_rune n s)) \<le> length s"
  by (auto simp: unit_rune_def split: if_splits list.splits option.splits)

definition unescape :: "char \<Rightarrow> char option" where
  "unescape e = (if e = CHR ''/'' then Some e else map_of (map (\<lambda>(c, e). (e, c)) short_escapes) e)"

abbreviation cons_str :: "string \<Rightarrow> (string \<times> string) option \<Rightarrow> (string \<times> string) option" where
  "cons_str p \<equiv> map_option (\<lambda>(s, r). (p @ s, r))"

text \<open>The rest of a string literal behind its opening quote.\<close>

function json_string :: "string \<Rightarrow> (string \<times> string) option" where
  "json_string [] = None"
| "json_string (c # cs) =
     (if c = CHR 0x22 then Some ([], cs)
      else if c = CHR 0x5C then
        (case cs of
           [] \<Rightarrow> None
         | e # cs1 \<Rightarrow>
             if e = CHR ''u'' then
               (case cs1 of
                  h1 # h2 # h3 # h4 # cs2 \<Rightarrow>
                    (case hex4 [h1, h2, h3, h4] of
                       None \<Rightarrow> None
                     | Some n \<Rightarrow> cons_str (utf8 (fst (unit_rune n cs2))) (json_string (snd (unit_rune n cs2))))
                | _ \<Rightarrow> None)
             else (case unescape e of None \<Rightarrow> None | Some d \<Rightarrow> cons_str [d] (json_string cs1)))
      else if of_char c < (32 :: nat) then None
      else cons_str [c] (json_string cs))"
  by pat_completeness auto
termination
  by (relation "measure length")
    (auto simp: less_Suc_eq_le intro!: le_SucI unit_rune_shorter simp del: hex4.simps)

definition is_digit :: "char \<Rightarrow> bool" where
  "is_digit c \<longleftrightarrow> of_char c \<ge> (48 :: nat) \<and> of_char c \<le> (57 :: nat)"

text \<open>The parts of a number literal, each returning the text it took and the rest.\<close>

fun num_int :: "string \<Rightarrow> (string \<times> string) option" where
  "num_int [] = None"
| "num_int (c # cs) =
     (if c = CHR ''0'' then Some ([c], cs)
      else if is_digit c then Some (c # takeWhile is_digit cs, dropWhile is_digit cs) else None)"

fun num_frac :: "string \<Rightarrow> (string \<times> string) option" where
  "num_frac [] = Some ([], [])"
| "num_frac (c # cs) =
     (if c \<noteq> CHR ''.'' then Some ([], c # cs)
      else if takeWhile is_digit cs = [] then None else Some (c # takeWhile is_digit cs, dropWhile is_digit cs))"

fun num_exp :: "string \<Rightarrow> (string \<times> string) option" where
  "num_exp [] = Some ([], [])"
| "num_exp (c # cs) =
     (if c \<noteq> CHR ''e'' \<and> c \<noteq> CHR ''E'' then Some ([], c # cs)
      else let (sg, ds) = (case cs of d # cs' \<Rightarrow> if d = CHR ''+'' \<or> d = CHR ''-'' then ([d], cs') else ([], cs) | [] \<Rightarrow> ([], []))
           in if takeWhile is_digit ds = [] then None else Some (c # sg @ takeWhile is_digit ds, dropWhile is_digit ds))"

definition json_number :: "string \<Rightarrow> (string \<times> string) option" where
  "json_number s =
     (let (sg, s1) = (case s of c # cs \<Rightarrow> if c = CHR ''-'' then ([c], cs) else ([], s) | [] \<Rightarrow> ([], s))
      in Option.bind (num_int s1) (\<lambda>(i, s2). Option.bind (num_frac s2) (\<lambda>(f, s3).
         Option.bind (num_exp s3) (\<lambda>(e, s4). Some (sg @ i @ f @ e, s4)))))"

definition strip :: "string \<Rightarrow> string \<Rightarrow> string option" where
  "strip p s = (if take (length p) s = p then Some (drop (length p) s) else None)"
text \<open>
  The recursive descent parser. Every nested call takes one unit of fuel, and between two calls for
  elements or members at least one character is consumed, so twice the length of the text is enough.
\<close>

fun json_value :: "nat \<Rightarrow> string \<Rightarrow> (json \<times> string) option"
  and json_array :: "nat \<Rightarrow> string \<Rightarrow> (json list \<times> string) option"
  and json_object :: "nat \<Rightarrow> string \<Rightarrow> ((string \<times> json) list \<times> string) option" where
  "json_value 0 s = None"
| "json_value (Suc k) s =
     (case skip_ws s of
        [] \<Rightarrow> None
      | c # cs \<Rightarrow>
          if c = CHR ''{'' then
            (case strip ''}'' (skip_ws cs) of
               Some r \<Rightarrow> Some (JObj [], r)
             | None \<Rightarrow> map_option (\<lambda>(kvs, r). (JObj kvs, r)) (json_object k cs))
          else if c = CHR ''['' then
            (case strip '']'' (skip_ws cs) of
               Some r \<Rightarrow> Some (JArr [], r)
             | None \<Rightarrow> map_option (\<lambda>(js, r). (JArr js, r)) (json_array k cs))
          else if c = CHR 0x22 then map_option (\<lambda>(x, r). (JStr x, r)) (json_string cs)
          else if c = CHR ''t'' then map_option (\<lambda>r. (JBool True, r)) (strip ''rue'' cs)
          else if c = CHR ''f'' then map_option (\<lambda>r. (JBool False, r)) (strip ''alse'' cs)
          else if c = CHR ''n'' then map_option (\<lambda>r. (JNull, r)) (strip ''ull'' cs)
          else map_option (\<lambda>(x, r). (JNum x, r)) (json_number (c # cs)))"
| "json_array 0 s = None"
| "json_array (Suc k) s =
     Option.bind (json_value k s) (\<lambda>(v, r).
       case strip '']'' (skip_ws r) of
         Some r' \<Rightarrow> Some ([v], r')
       | None \<Rightarrow> Option.bind (strip '','' (skip_ws r)) (\<lambda>r'. map_option (\<lambda>(vs, r''). (v # vs, r'')) (json_array k r')))"
| "json_object 0 s = None"
| "json_object (Suc k) s =
     Option.bind (strip [CHR 0x22] (skip_ws s)) (\<lambda>r0.
     Option.bind (json_string r0) (\<lambda>(x, r1).
     Option.bind (strip '':'' (skip_ws r1)) (\<lambda>r2.
     Option.bind (json_value k r2) (\<lambda>(v, r).
       case strip ''}'' (skip_ws r) of
         Some r' \<Rightarrow> Some ([(x, v)], r')
       | None \<Rightarrow> Option.bind (strip '','' (skip_ws r)) (\<lambda>r'. map_option (\<lambda>(kvs, r''). ((x, v) # kvs, r'')) (json_object k r'))))))"

definition json_parse :: "string \<Rightarrow> json option" where
  "json_parse s =
     (case json_value (2 * length s + 1) s of
        None \<Rightarrow> None
      | Some (j, r) \<Rightarrow> if skip_ws r = [] then Some j else None)"

section \<open>Parsing reads what was printed\<close>

lemma strip_append [simp]: "strip p (p @ s) = Some s"
  by (simp add: strip_def)

lemma strip_Cons: "strip [c] (d # s) = (if c = d then Some s else None)"
  by (simp add: strip_def)

lemma strip_Nil [simp]: "strip [c] [] = None"
  by (simp add: strip_def)

lemma skip_ws_Cons: "\<not> is_ws c \<Longrightarrow> skip_ws (c # s) = c # s"
  by (simp add: skip_ws_def)

lemma escape_control:
  assumes "of_char c < (128 :: nat)"
  shows "hex4 [CHR ''0'', CHR ''0'', hex_digit (of_char c div 16), hex_digit (of_char c)] = Some (of_char c)"
proof -
  have "list_all (\<lambda>n. hex4 [CHR ''0'', CHR ''0'', hex_digit (n div 16), hex_digit n] = Some n) [0..<128]"
    by code_simp
  with assms show ?thesis by (auto simp: list_all_iff)
qed

lemma unescape_short: "map_of short_escapes c = Some e \<Longrightarrow> unescape e = Some c \<and> e \<noteq> CHR ''u''"
  by (auto simp: short_escapes_def unescape_def split: if_splits)

lemma short_escapes_None: "map_of short_escapes c = None \<Longrightarrow> c \<noteq> CHR 0x22 \<and> c \<noteq> CHR 0x5C"
  by (auto simp: short_escapes_def)

lemma json_string_escape: "json_string (json_escape c @ s) = cons_str [c] (json_string s)"
proof (cases "map_of short_escapes c")
  case (Some e)
  then show ?thesis using unescape_short [OF Some] by (simp add: json_escape_def)
next
  case None
  note c = short_escapes_None [OF None]
  let ?n = "of_char c :: nat"
  show ?thesis
  proof (cases "?n < 32 \<or> c \<in> {CHR ''<'', CHR ''>'', CHR ''&''}")
    case True
    then have n: "?n < 128" by auto
    then have "\<not> is_surrogate ?n" "utf8 ?n = [c]" by (simp_all add: is_surrogate_def utf8_def)
    with None True escape_control [OF n] show ?thesis
      by (simp add: json_escape_def unit_rune_def del: hex4.simps)
  next
    case False
    with None c show ?thesis by (simp add: json_escape_def)
  qed
qed

lemma json_string_quote: "json_string (concat (map json_escape s) @ CHR 0x22 # rest) = Some (s, rest)"
  by (induction s) (simp_all add: json_string_escape)

text \<open>Integers in decimal, as \<^verbatim>\<open>strconv\<close> writes and reads them.\<close>

fun show_nat :: "nat \<Rightarrow> string" where
  "show_nat n = (if n < 10 then [char_of (48 + n)] else show_nat (n div 10) @ [char_of (48 + n mod 10)])"

declare show_nat.simps [simp del]

definition show_int :: "int \<Rightarrow> string" where
  "show_int i = (if i < 0 then CHR ''-'' # show_nat (nat (- i)) else show_nat (nat i))"

definition read_nat :: "string \<Rightarrow> nat option" where
  "read_nat s = (if s = [] \<or> \<not> list_all is_digit s then None else Some (foldl (\<lambda>n c. n * 10 + (of_char c - 48)) 0 s))"

definition read_int :: "string \<Rightarrow> int option" where
  "read_int s =
     (case s of
        [] \<Rightarrow> None
      | c # cs \<Rightarrow> if c = CHR ''-'' then map_option (\<lambda>n. - int n) (read_nat cs) else map_option int (read_nat s))"

lemma digit_char: "d < 10 \<Longrightarrow> is_digit (char_of (48 + d)) \<and> of_char (char_of (48 + d)) = 48 + d" for d :: nat
  by (simp add: is_digit_def)

lemma show_nat_digits: "list_all is_digit (show_nat n)"
proof (induction n rule: show_nat.induct)
  case (1 n)
  then show ?case using digit_char [of n] digit_char [of "n mod 10"] by (subst show_nat.simps) simp
qed

lemma show_nat_nonempty: "show_nat n \<noteq> []"
  by (subst show_nat.simps) simp

lemma read_show_nat: "read_nat (show_nat n) = Some n"
proof -
  have "foldl (\<lambda>n c. n * 10 + (of_char c - 48)) 0 (show_nat n) = n"
  proof (induction n rule: show_nat.induct)
    case (1 n)
    then show ?case
      using digit_char [of n] digit_char [of "n mod 10"] by (subst show_nat.simps) (simp split: if_splits)
  qed
  then show ?thesis by (simp add: read_nat_def show_nat_nonempty show_nat_digits)
qed

lemma show_nat_first: "\<exists>c cs. show_nat n = c # cs \<and> is_digit c \<and> (c = CHR ''0'' \<longrightarrow> cs = [])"
proof (induction n rule: show_nat.induct)
  case (1 n)
  show ?case
  proof (cases "n < 10")
    case True
    then show ?thesis using digit_char [of n] by (subst (1) show_nat.simps) simp
  next
    case False
    then obtain c cs where c: "show_nat (n div 10) = c # cs" "is_digit c" "c = CHR ''0'' \<longrightarrow> cs = []"
      using "1.IH" by blast
    moreover have "c \<noteq> CHR ''0''"
    proof
      assume "c = CHR ''0''"
      with c have "read_nat (show_nat (n div 10)) = Some 0" by (simp add: read_nat_def is_digit_def)
      with False show False by (simp add: read_show_nat)
    qed
    ultimately show ?thesis using False by (subst (1) show_nat.simps) simp
  qed
qed

lemma read_show_int: "read_int (show_int i) = Some i"
proof -
  obtain c cs where "show_nat (nat i) = c # cs" "is_digit c" using show_nat_first by blast
  moreover have "c \<noteq> CHR ''-''" using \<open>is_digit c\<close> by (auto simp: is_digit_def)
  ultimately show ?thesis
    using read_show_nat [of "nat i"] read_show_nat [of "nat (- i)"] by (simp add: read_int_def show_int_def)
qed

text \<open>Behind a value comes the end of the text or one of the delimiters.\<close>

definition delimited :: "string \<Rightarrow> bool" where
  "delimited r \<longleftrightarrow> r = [] \<or> hd r \<in> {CHR '','', CHR '']'', CHR ''}''}"

lemma delimited_Cons [simp]: "delimited (c # r) \<longleftrightarrow> c \<in> {CHR '','', CHR '']'', CHR ''}''}"
  by (simp add: delimited_def)

lemma delimited_num:
  assumes "delimited r"
  shows "takeWhile is_digit r = []" "dropWhile is_digit r = r" "num_frac r = Some ([], r)" "num_exp r = Some ([], r)"
  using assms by (cases r; auto simp: delimited_def is_digit_def)+

lemma takeWhile_digits:
  assumes "list_all is_digit s" "delimited r"
  shows "takeWhile is_digit (s @ r) = s" "dropWhile is_digit (s @ r) = r"
  using assms delimited_num by (auto simp: takeWhile_append2 dropWhile_append2 list_all_iff)

lemma num_int_show: "delimited r \<Longrightarrow> num_int (show_nat n @ r) = Some (show_nat n, r)"
  using show_nat_first [of n] show_nat_digits [of n] by (auto simp: takeWhile_digits delimited_num)

lemma json_number_show:
  assumes "delimited r"
  shows "json_number (show_int i @ r) = Some (show_int i, r)"
proof -
  obtain c cs where "show_nat (nat i) = c # cs" "is_digit c" using show_nat_first by blast
  moreover have "c \<noteq> CHR ''-''" using \<open>is_digit c\<close> by (auto simp: is_digit_def)
  ultimately show ?thesis
    using num_int_show [OF assms, of "nat i"] num_int_show [OF assms, of "nat (- i)"] delimited_num [OF assms]
    by (simp add: json_number_def show_int_def)
qed

section \<open>The round trip of values\<close>

fun json_ok :: "json \<Rightarrow> bool" where
  "json_ok (JNum s) \<longleftrightarrow> (\<exists>i. s = show_int i)"
| "json_ok (JArr js) \<longleftrightarrow> list_all json_ok js"
| "json_ok (JObj kvs) \<longleftrightarrow> list_all (\<lambda>kv. json_ok (snd kv)) kvs"
| "json_ok _ \<longleftrightarrow> True"

lemma not_ws [simp]: "\<not> is_ws CHR ''{''" "\<not> is_ws CHR ''}''" "\<not> is_ws CHR ''[''" "\<not> is_ws CHR '']''"
  "\<not> is_ws CHR '',''" "\<not> is_ws CHR '':''" "\<not> is_ws CHR 0x22" "\<not> is_ws CHR ''n''" "\<not> is_ws CHR ''t''" "\<not> is_ws CHR ''f''"
  by (simp_all add: is_ws_def)

lemma show_int_first: "\<exists>c cs. show_int i = c # cs \<and> (c = CHR ''-'' \<or> is_digit c)"
  using show_nat_first [of "nat i"] by (cases "i < 0") (auto simp: show_int_def)

text \<open>The first character of a printed value.\<close>

lemma json_print_first:
  assumes "json_ok j"
  shows "\<exists>c cs. json_print j = c # cs \<and> \<not> is_ws c \<and> c \<noteq> CHR '']'' \<and> c \<noteq> CHR ''}''"
proof (cases j)
  case (JNum s)
  then obtain i where "s = show_int i" using assms by auto
  moreover obtain c cs where "show_nat (nat i) = c # cs" "is_digit c" using show_nat_first by blast
  ultimately show ?thesis using JNum by (auto simp: show_int_def is_digit_def is_ws_def)
qed (auto simp: json_quote_def)

lemma json_value_num:
  assumes "delimited r"
  shows "json_value (Suc k) (show_int i @ r) = Some (JNum (show_int i), r)"
proof -
  obtain c cs where c: "show_int i = c # cs" "c = CHR ''-'' \<or> is_digit c"
    using show_int_first by blast
  then have "\<not> is_ws c" "c \<notin> {CHR ''{'', CHR ''['', CHR 0x22, CHR ''t'', CHR ''f'', CHR ''n''}"
    by (auto simp: is_ws_def is_digit_def)
  with c json_number_show [OF assms, of i] show ?thesis by (simp add: skip_ws_Cons)
qed

lemma json_value_string: "json_value (Suc k) (json_quote s @ r) = Some (JStr s, r)"
  by (simp add: json_quote_def skip_ws_Cons json_string_quote)

lemma first_not_strip:
  assumes "json_ok j"
  shows "strip '']'' (skip_ws (json_print j @ r)) = None" "skip_ws (json_print j @ r) = json_print j @ r"
  using json_print_first [OF assms] by (auto simp: skip_ws_Cons strip_Cons)

lemma json_print_length: "json_ok j \<Longrightarrow> 0 < length (json_print j)"
  using json_print_first [of j] by auto

lemma json_array_last:
  assumes "json_value k s = Some (v, CHR '']'' # r)"
  shows "json_array (Suc k) s = Some ([v], r)"
  using assms by (simp add: skip_ws_Cons strip_Cons)

lemma json_array_more:
  assumes "json_value k s = Some (v, CHR '','' # r)" "json_array k r = Some (vs, r')"
  shows "json_array (Suc k) s = Some (v # vs, r')"
  using assms by (simp add: skip_ws_Cons strip_Cons)

lemma json_object_last:
  assumes "json_value k s = Some (v, CHR ''}'' # r)"
  shows "json_object (Suc k) (json_quote x @ CHR '':'' # s) = Some ([(x, v)], r)"
  using assms by (simp add: json_quote_def skip_ws_Cons strip_Cons json_string_quote)

lemma json_object_more:
  assumes "json_value k s = Some (v, CHR '','' # r)" "json_object k r = Some (kvs, r')"
  shows "json_object (Suc k) (json_quote x @ CHR '':'' # s) = Some ((x, v) # kvs, r')"
  using assms by (simp add: json_quote_def skip_ws_Cons strip_Cons json_string_quote)

lemma json_value_array:
  assumes "list_all json_ok js" "js \<noteq> [] \<Longrightarrow> json_array k (json_elems js @ CHR '']'' # r) = Some (js, r)"
  shows "json_value (Suc k) (json_print (JArr js) @ r) = Some (JArr js, r)"
proof (cases js)
  case (Cons j js')
  have "strip '']'' (skip_ws (json_elems js @ CHR '']'' # r)) = None"
    using first_not_strip [of j] assms(1) Cons by (cases js') simp_all
  with assms(2) Cons show ?thesis by (simp add: skip_ws_Cons)
qed (simp add: skip_ws_Cons strip_Cons)

lemma json_value_object:
  assumes "kvs \<noteq> [] \<Longrightarrow> json_object k (json_members kvs @ CHR ''}'' # r) = Some (kvs, r)"
  shows "json_value (Suc k) (json_print (JObj kvs) @ r) = Some (JObj kvs, r)"
proof (cases kvs)
  case (Cons kv kvs')
  have "strip ''}'' (skip_ws (json_members kvs @ CHR ''}'' # r)) = None"
    using Cons by (cases kv; cases kvs') (simp_all add: json_quote_def skip_ws_Cons strip_Cons)
  with assms Cons show ?thesis by (simp add: skip_ws_Cons)
qed (simp add: skip_ws_Cons strip_Cons)

lemma json_roundtrip:
  "json_ok j \<Longrightarrow> delimited r \<Longrightarrow> 2 * length (json_print j) \<le> Suc k \<Longrightarrow> json_value (Suc k) (json_print j @ r) = Some (j, r)"
  "list_all json_ok js \<Longrightarrow> js \<noteq> [] \<Longrightarrow> 2 * length (json_elems js) \<le> Suc k \<Longrightarrow>
   json_array (Suc (Suc k)) (json_elems js @ CHR '']'' # r) = Some (js, r)"
  "list_all (\<lambda>kv. json_ok (snd kv)) kvs \<Longrightarrow> kvs \<noteq> [] \<Longrightarrow> 2 * length (json_members kvs) \<le> Suc k \<Longrightarrow>
   json_object (Suc (Suc k)) (json_members kvs @ CHR ''}'' # r) = Some (kvs, r)"
proof (induction j and js and kvs arbitrary: r k and r k and r k rule: json_print_json_elems_json_members.induct)
  case (3 s)
  then show ?case using json_value_num by auto
next
  case (5 js)
  show ?case
  proof (rule json_value_array)
    assume "js \<noteq> []"
    then obtain k' where "k = Suc (Suc k')" using 5 json_print_length by (cases js; cases k; cases "k - 1") auto
    then show "json_array k (json_elems js @ CHR '']'' # r) = Some (js, r)" using 5 \<open>js \<noteq> []\<close> by auto
  qed (use 5 in simp)
next
  case (6 kvs)
  show ?case
  proof (rule json_value_object)
    assume "kvs \<noteq> []"
    then obtain k' where "k = Suc (Suc k')" using 6 by (cases kvs; cases k; cases "k - 1") auto
    then show "json_object k (json_members kvs @ CHR ''}'' # r) = Some (kvs, r)" using 6 \<open>kvs \<noteq> []\<close> by auto
  qed
next
  case (8 j)
  then show ?case by (auto intro!: json_array_last simp del: json_array.simps json_value.simps)
next
  case (9 j j' js)
  then obtain k' where k: "k = Suc k'" by (cases k) auto
  have "json_value (Suc k) (json_print j @ CHR '','' # R) = Some (j, CHR '','' # R)" for R
    using 9 by (intro "9.IH"(1)) auto
  moreover have "json_array (Suc k) (json_elems (j' # js) @ CHR '']'' # r) = Some (j' # js, r)"
    unfolding k using 9 k by (intro "9.IH"(2)) auto
  ultimately show ?case using json_array_more by (simp del: json_array.simps json_value.simps)
next
  case (11 x v)
  then show ?case by (auto intro!: json_object_last simp del: json_object.simps json_value.simps)
next
  case (12 x v kv kvs)
  then obtain k' where k: "k = Suc k'" by (cases k) auto
  have "json_value (Suc k) (json_print v @ CHR '','' # R) = Some (v, CHR '','' # R)" for R
    using 12 by (intro "12.IH"(1)) auto
  moreover have "json_object (Suc k) (json_members (kv # kvs) @ CHR ''}'' # r) = Some (kv # kvs, r)"
    unfolding k using 12 k by (intro "12.IH"(2)) auto
  ultimately show ?case using json_object_more by (simp del: json_object.simps json_value.simps)
qed (auto simp: skip_ws_Cons strip_def json_quote_def json_string_quote)

lemma json_parse_print:
  assumes "json_ok j"
  shows "json_parse (json_print j) = Some j"
proof -
  have "json_value (Suc (2 * length (json_print j))) (json_print j @ []) = Some (j, [])"
    using assms by (intro json_roundtrip(1)) (simp_all add: delimited_def)
  then show ?thesis by (simp add: json_parse_def skip_ws_def del: json_value.simps)
qed

section \<open>Byte slices as padded base64\<close>

definition StdAlphabet :: string where
  "StdAlphabet = ''ABCDEFGHIJKLMNOPQRSTUVWXYZ'' @ ''abcdefghijklmnopqrstuvwxyz'' @ ''0123456789+/''"

definition std_value :: "char \<Rightarrow> nat option" where
  "std_value c = map_of (zip StdAlphabet [0..<64]) c"

definition std_encode :: "bytes \<Rightarrow> string" where
  "std_encode bs = map (\<lambda>d. StdAlphabet ! d) (enc_digits bs) @ replicate ((3 - length bs mod 3) mod 3) CHR ''=''"

definition std_group :: "string \<Rightarrow> bytes option" where
  "std_group cs = (if None \<in> set (map std_value cs) then None else Some (quantum_bytes (map (\<lambda>c. the (std_value c)) cs)))"

fun std_groups :: "string \<Rightarrow> bytes option" where
  "std_groups [] = Some []"
| "std_groups [a, b, c, d] =
     (if d = CHR ''='' then (if c = CHR ''='' then std_group [a, b] else std_group [a, b, c])
      else std_group [a, b, c, d])"
| "std_groups (a # b # c # d # rest) =
     Option.bind (std_group [a, b, c, d]) (\<lambda>g. map_option (\<lambda>bs. g @ bs) (std_groups rest))"
| "std_groups _ = None"

definition std_decode :: "string \<Rightarrow> bytes option" where
  "std_decode s = std_groups (filter (\<lambda>c. \<not> is_newline c) s)"

lemma std_alphabet: "length StdAlphabet = 64" "distinct StdAlphabet" "CHR ''='' \<notin> set StdAlphabet"
  "\<forall>c \<in> set StdAlphabet. \<not> is_newline c"
  by (simp_all add: StdAlphabet_def is_newline_def)

lemma std_value_nth: "d < 64 \<Longrightarrow> std_value (StdAlphabet ! d) = Some d"
  using std_alphabet by (simp add: std_value_def map_of_zip_nth)

lemma std_group_enc:
  assumes "\<forall>d \<in> set ds. d < 64"
  shows "std_group (map (\<lambda>d. StdAlphabet ! d) ds) = Some (quantum_bytes ds)"
proof -
  have "map (\<lambda>c. the (std_value c)) (map (\<lambda>d. StdAlphabet ! d) ds) = ds"
    using assms by (simp add: std_value_nth map_idI)
  moreover have "None \<notin> set (map std_value (map (\<lambda>d. StdAlphabet ! d) ds))"
    using assms by (auto simp: std_value_nth)
  ultimately show ?thesis by (simp add: std_group_def)
qed

lemma std_not_pad: "d < 64 \<Longrightarrow> StdAlphabet ! d \<noteq> CHR ''=''"
  using std_alphabet(1,3) by (metis nth_mem)

lemma std_encode_short:
  "std_groups (std_encode [a]) = Some [a]" "std_groups (std_encode [a, b]) = Some [a, b]"
  "std_groups (std_encode [a, b, c]) = Some [a, b, c]"
proof -
  obtain p q where pq: "enc_digits [a] = [p, q]" "quantum_bytes [p, q] = [a]" using enc_digits_group(3) by blast
  have "\<forall>d \<in> set [p, q]. d < 64" unfolding pq(1) [symmetric] using enc_digits_less by blast
  with pq std_group_enc [of "[p, q]"] show "std_groups (std_encode [a]) = Some [a]"
    by (simp add: std_encode_def numeral_2_eq_2 del: enc_digits.simps)
next
  obtain p q r where pq: "enc_digits [a, b] = [p, q, r]" "quantum_bytes [p, q, r] = [a, b]" using enc_digits_group(2) by blast
  have "\<forall>d \<in> set [p, q, r]. d < 64" unfolding pq(1) [symmetric] using enc_digits_less by blast
  with pq std_group_enc [of "[p, q, r]"] show "std_groups (std_encode [a, b]) = Some [a, b]"
    by (simp add: std_encode_def std_not_pad del: enc_digits.simps)
next
  obtain p q r s where pq: "enc_digits [a, b, c] = [p, q, r, s]" "quantum_bytes [p, q, r, s] = [a, b, c]"
    using enc_digits_group(1) by blast
  have "\<forall>d \<in> set [p, q, r, s]. d < 64" unfolding pq(1) [symmetric] using enc_digits_less by blast
  with pq std_group_enc [of "[p, q, r, s]"] show "std_groups (std_encode [a, b, c]) = Some [a, b, c]"
    by (simp add: std_encode_def std_not_pad del: enc_digits.simps)
qed

lemma std_encode_Cons3:
  assumes "rest \<noteq> []"
  shows "std_groups (std_encode (a # b # c # rest)) =
     Option.bind (std_groups (std_encode [a, b, c])) (\<lambda>g. map_option (\<lambda>bs. g @ bs) (std_groups (std_encode rest)))"
proof -
  obtain p q r s where pq: "enc_digits [a, b, c] = [p, q, r, s]" using enc_digits_group(1) by blast
  have less: "\<forall>d \<in> set [p, q, r, s]. d < 64" unfolding pq(1) [symmetric] using enc_digits_less by blast
  let ?e = "\<lambda>d. StdAlphabet ! d"
  have "length (a # b # c # rest) = length rest + 3" by simp
  then have "length (a # b # c # rest) mod 3 = length rest mod 3" by (simp only: mod_add_self2)
  then have e: "std_encode (a # b # c # rest) = ?e p # ?e q # ?e r # ?e s # std_encode rest"
    unfolding std_encode_def enc_digits_Cons3 [of a b c rest] pq by (simp only: list.map append.simps)
  have "std_encode rest \<noteq> []" using assms by (cases rest rule: enc_digits.cases) (simp_all add: std_encode_def Let_def)
  then obtain x xs where "std_encode rest = x # xs" by (cases "std_encode rest") auto
  moreover have "std_encode [a, b, c] = [?e p, ?e q, ?e r, ?e s]" by (simp add: std_encode_def pq del: enc_digits.simps)
  ultimately show ?thesis using e less by (simp add: std_not_pad)
qed

lemma std_groups_encode: "std_groups (std_encode bs) = Some bs"
proof (induction bs rule: enc_digits.induct)
  case (4 a b c rest)
  then show ?case using std_encode_Cons3 [of rest a b c] std_encode_short(3) [of a b c] by (cases "rest = []") auto
qed (use std_encode_short in \<open>simp_all add: std_encode_def\<close>)

lemma std_decode_encode: "std_decode (std_encode bs) = Some bs"
proof -
  have "filter (\<lambda>c. \<not> is_newline c) (std_encode bs) = std_encode bs"
    using enc_digits_less [of _ bs] std_alphabet by (auto simp: std_encode_def filter_id_conv is_newline_def)
  then show ?thesis by (simp add: std_decode_def std_groups_encode)
qed

section \<open>Decoding into Go values\<close>

datatype json_error = JsonSyntax | JsonType | JsonText id_error

text \<open>
  A decoder stores a JSON value into a variable that holds \<open>x\<close>. Null leaves a variable as it is,
  except slices, which become nil.
\<close>

type_synonym 'a decoder = "json \<Rightarrow> 'a \<Rightarrow> (json_error, 'a) outcome"

definition json_lower :: "char \<Rightarrow> char" where
  "json_lower c = (if of_char c \<ge> (65 :: nat) \<and> of_char c \<le> (90 :: nat) then char_of (of_char c + 32 :: nat) else c)"

text \<open>A member name selects the field of that name, else one whose name differs in case only.\<close>

definition field_decoder :: "(string \<times> 'a decoder) list \<Rightarrow> string \<Rightarrow> 'a decoder option" where
  "field_decoder fs k =
     (case map_of fs k of
        Some f \<Rightarrow> Some f
      | None \<Rightarrow> map_of (map (\<lambda>(n, f). (map json_lower n, f)) fs) (map json_lower k))"

text \<open>
  Unknown members are skipped. A member that does not fit is remembered as an error and decoding goes
  on with the next one; a panic of a field's own decoder is not caught.
\<close>

fun decode_fields :: "(string \<times> 'a decoder) list \<Rightarrow> (string \<times> json) list \<Rightarrow> 'a \<Rightarrow> (json_error, 'a) outcome" where
  "decode_fields fs [] x = Ok x"
| "decode_fields fs ((k, v) # kvs) x =
     (case field_decoder fs k of
        None \<Rightarrow> decode_fields fs kvs x
      | Some f \<Rightarrow>
          (case f v x of
             Ok x' \<Rightarrow> decode_fields fs kvs x'
           | Err e \<Rightarrow> (case decode_fields fs kvs x of Panic \<Rightarrow> Panic | _ \<Rightarrow> Err e)
           | Panic \<Rightarrow> Panic))"

definition decode_struct :: "(string \<times> 'a decoder) list \<Rightarrow> 'a decoder" where
  "decode_struct fs j x = (case j of JObj kvs \<Rightarrow> decode_fields fs kvs x | JNull \<Rightarrow> Ok x | _ \<Rightarrow> Err JsonType)"

definition decode_string :: "string decoder" where
  "decode_string j x = (case j of JStr s \<Rightarrow> Ok s | JNull \<Rightarrow> Ok x | _ \<Rightarrow> Err JsonType)"

definition decode_bool :: "bool decoder" where
  "decode_bool j x = (case j of JBool b \<Rightarrow> Ok b | JNull \<Rightarrow> Ok x | _ \<Rightarrow> Err JsonType)"

text \<open>A signed integer of 64 bits, and an unsigned one of \<open>w\<close> bits.\<close>

definition decode_int :: "int decoder" where
  "decode_int j x =
     (case j of
        JNum s \<Rightarrow> (case read_int s of Some i \<Rightarrow> if - (2 ^ 63) \<le> i \<and> i < 2 ^ 63 then Ok i else Err JsonType | None \<Rightarrow> Err JsonType)
      | JNull \<Rightarrow> Ok x | _ \<Rightarrow> Err JsonType)"

definition decode_uint :: "nat \<Rightarrow> nat decoder" where
  "decode_uint w j x =
     (case j of
        JNum s \<Rightarrow> (case read_nat s of Some n \<Rightarrow> if n < 2 ^ w then Ok n else Err JsonType | None \<Rightarrow> Err JsonType)
      | JNull \<Rightarrow> Ok x | _ \<Rightarrow> Err JsonType)"

text \<open>Elements of a slice start from the zero value \<open>z\<close>; the first error is returned at the end.\<close>

fun decode_elems :: "'a decoder \<Rightarrow> 'a \<Rightarrow> json list \<Rightarrow> (json_error, 'a list) outcome" where
  "decode_elems d z [] = Ok []"
| "decode_elems d z (j # js) =
     (case d j z of
        Panic \<Rightarrow> Panic
      | Err e \<Rightarrow> (case decode_elems d z js of Panic \<Rightarrow> Panic | _ \<Rightarrow> Err e)
      | Ok v \<Rightarrow> obind (decode_elems d z js) (\<lambda>vs. Ok (v # vs)))"

definition decode_list :: "'a decoder \<Rightarrow> 'a \<Rightarrow> 'a list decoder" where
  "decode_list d z j x = (case j of JArr js \<Rightarrow> decode_elems d z js | JNull \<Rightarrow> Ok [] | _ \<Rightarrow> Err JsonType)"

definition decode_bytes :: "bytes decoder" where
  "decode_bytes j x =
     (case j of
        JStr s \<Rightarrow> (case std_decode s of Some bs \<Rightarrow> Ok bs | None \<Rightarrow> Err JsonType)
      | JArr js \<Rightarrow> obind (decode_elems (decode_uint 8) 0 js) (\<lambda>ns. Ok (map of_nat ns))
      | JNull \<Rightarrow> Ok [] | _ \<Rightarrow> Err JsonType)"

text \<open>An address decodes itself from its text form, with every panic of \<^verbatim>\<open>UnmarshalText\<close>.\<close>

definition decode_addr :: "addr decoder" where
  "decode_addr j x =
     (case j of
        JStr s \<Rightarrow> (case UnmarshalText x s of Ok a \<Rightarrow> Ok a | Err e \<Rightarrow> Err (JsonText e) | Panic \<Rightarrow> Panic)
      | JNull \<Rightarrow> Ok x | _ \<Rightarrow> Err JsonType)"

text \<open>Embedding a decoder of a field into one of the structure.\<close>

definition into :: "('a \<Rightarrow> 'b) \<Rightarrow> ('b \<Rightarrow> 'a \<Rightarrow> 'a) \<Rightarrow> 'b decoder \<Rightarrow> 'a decoder" where
  "into get put d j x = obind (d j (get x)) (\<lambda>v. Ok (put v x))"

definition json_Marshal :: "json \<Rightarrow> bytes" where
  "json_Marshal j = bytes_of_string (json_print j)"

definition json_Unmarshal :: "'a decoder \<Rightarrow> bytes \<Rightarrow> 'a \<Rightarrow> (json_error, 'a) outcome" where
  "json_Unmarshal d data x =
     (case json_parse (string_of_bytes data) of None \<Rightarrow> Err JsonSyntax | Some j \<Rightarrow> d j x)"

definition JBytes :: "bytes \<Rightarrow> json" where "JBytes bs = JStr (std_encode bs)"

definition JInt :: "int \<Rightarrow> json" where "JInt i = JNum (show_int i)"

definition JAddr :: "addr \<Rightarrow> json" where "JAddr a = JStr (MarshalText a)"

named_theorems json_simps "decoding what was encoded"

lemma json_Unmarshal_Marshal [json_simps]: "json_ok j \<Longrightarrow> json_Unmarshal d (json_Marshal j) x = d j x"
  by (simp add: json_Unmarshal_def json_Marshal_def json_parse_print)

lemma json_ok_leaf [simp]: "json_ok (JBytes bs)" "json_ok (JInt i)" "json_ok (JAddr a)"
  by (auto simp: JBytes_def JInt_def JAddr_def)

lemma decode_JBytes [json_simps]: "decode_bytes (JBytes bs) x = Ok bs"
  by (simp add: decode_bytes_def JBytes_def std_decode_encode)

lemma decode_JInt [json_simps]: "- (2 ^ 63) \<le> i \<Longrightarrow> i < 2 ^ 63 \<Longrightarrow> decode_int (JInt i) x = Ok i"
  by (simp add: decode_int_def JInt_def read_show_int)

lemma decode_JNat [json_simps]: "n < 2 ^ w \<Longrightarrow> decode_uint w (JInt (int n)) x = Ok n"
  by (simp add: decode_uint_def JInt_def show_int_def read_show_nat)

lemma decode_JUint [json_simps]: "decode_uint LENGTH('a) (JInt (uint (v :: 'a::len word))) x = Ok (unat v)"
  using decode_JNat [of "unat v" "LENGTH('a)" x] unsigned_less [of v, where ?'a = nat] by simp

lemma decode_JAddr [json_simps]: "is_addr a \<Longrightarrow> is_addr x \<Longrightarrow> decode_addr (JAddr a) x = Ok a"
  by (simp add: decode_addr_def JAddr_def UnmarshalText_MarshalText)

lemma decode_JStr [json_simps]: "decode_string (JStr s) x = Ok s"
  by (simp add: decode_string_def)

lemma decode_JBool [json_simps]: "decode_bool (JBool b) x = Ok b"
  by (simp add: decode_bool_def)

lemma decode_elems_map:
  "(\<And>v. v \<in> set vs \<Longrightarrow> d (enc v) z = Ok v) \<Longrightarrow> decode_elems d z (map enc vs) = Ok vs"
  by (induction vs) simp_all

lemma decode_list_map [json_simps]:
  "(\<And>v. v \<in> set vs \<Longrightarrow> d (enc v) z = Ok v) \<Longrightarrow> decode_list d z (JArr (map enc vs)) x = Ok vs"
  by (simp add: decode_list_def decode_elems_map)

section \<open>Bounds on the length of texts\<close>

lemma length_enc_digits: "length (enc_digits bs) \<le> 2 * length bs"
  by (induction bs rule: enc_digits.induct) (simp_all add: Let_def)

lemma length_std_encode: "length (std_encode bs) \<le> 2 * length bs + 2"
  using length_enc_digits [of bs] by (simp add: std_encode_def add_le_mono less_Suc_eq_le [symmetric])

lemma length_json_quote: "length (json_quote s) \<le> 6 * length s + 2"
proof -
  have "length (json_escape c) \<le> 6" for c by (auto simp: json_escape_def split: option.splits)
  then have "length (concat (map json_escape s)) \<le> 6 * length s"
    by (induction s) (simp_all add: add_le_mono)
  then show ?thesis by (simp add: json_quote_def)
qed

lemma length_JBytes: "length (json_print (JBytes bs)) \<le> 12 * length bs + 14"
  using length_json_quote [of "std_encode bs"] length_std_encode [of bs] by (simp add: JBytes_def)

lemma length_JAddr: "is_addr a \<Longrightarrow> length (json_print (JAddr a)) \<le> 386"
  using length_json_quote [of "MarshalText a"] length_enc_digits [of a]
  by (simp add: JAddr_def MarshalText_def EncodeToString_def is_addr_def AddrSize_def)

end
