(* ===== verification/Beaconnet.thy ===== *)
theory Beaconnet
  imports Peers Json
begin

text \<open>
  The beacon routing protocol of one node, \<^verbatim>\<open>networks/beaconnet\<close>: message headers and signed beacons
  (\<^verbatim>\<open>message.go\<close>) and the router (\<^verbatim>\<open>router.go\<close>, \<^verbatim>\<open>network.go\<close>). Every handler is a function from the
  router state to the new state and the calls it makes on its context, in order. The cryptographic
  libraries are fields of an environment record.
\<close>

section \<open>Headers\<close>

definition TypeData :: byte where "TypeData = 0"

definition TypeBeacon :: byte where "TypeBeacon = 1"

definition broadcastAddr :: addr where "broadcastAddr = zero_addr"

definition HeaderSize :: nat where "HeaderSize = 1 + 32 + 32"

type_synonym header = bytes

datatype bn_error = ShortHeader | BadJson | BadPublicKey pki_error | BadSignature | BadType byte | NoNextHop addr

definition ParseMessage :: "bytes \<Rightarrow> (bn_error, header \<times> bytes) outcome" where
  "ParseMessage data =
     (if length data < HeaderSize then Err ShortHeader
      else Ok (gocopy (replicate HeaderSize 0) (take HeaderSize data),
               if length data > HeaderSize then drop HeaderSize data else []))"

definition GetType :: "header \<Rightarrow> byte" where "GetType h = h ! 0"

definition SetType :: "header \<Rightarrow> byte \<Rightarrow> header" where "SetType h x = h[0 := x]"

definition GetSrc :: "header \<Rightarrow> addr" where "GetSrc h = IDFromBytes (take 32 (drop 1 h))"

definition SetSrc :: "header \<Rightarrow> addr \<Rightarrow> header" where "SetSrc h x = gocopy_at h 1 33 x"

definition GetDst :: "header \<Rightarrow> addr" where "GetDst h = IDFromBytes (take 32 (drop 33 h))"

definition SetDst :: "header \<Rightarrow> addr \<Rightarrow> header" where "SetDst h x = gocopy_at h 33 65 x"

section \<open>Beacons\<close>

record beacon =
  bc_PublicKey :: bytes
  bc_Counter :: u64
  bc_Sig :: bytes

definition zero_beacon :: beacon where
  "zero_beacon = \<lparr>bc_PublicKey = [], bc_Counter = 0, bc_Sig = []\<rparr>"

definition beacon_json :: "beacon \<Rightarrow> json" where
  "beacon_json b = JObj [(''public_key'', JBytes (bc_PublicKey b)), (''counter'', JInt (uint (bc_Counter b))),
     (''sig'', JBytes (bc_Sig b))]"

definition beacon_fields :: "(string \<times> beacon decoder) list" where
  "beacon_fields =
     [(''public_key'', into bc_PublicKey (\<lambda>v b. b\<lparr>bc_PublicKey := v\<rparr>) decode_bytes),
      (''counter'', into (\<lambda>b. unat (bc_Counter b)) (\<lambda>v b. b\<lparr>bc_Counter := of_nat v\<rparr>) (decode_uint 64)),
      (''sig'', into bc_Sig (\<lambda>v b. b\<lparr>bc_Sig := v\<rparr>) decode_bytes)]"

text \<open>A nil pointer is marshalled as null.\<close>

definition jsonMarshal :: "beacon option \<Rightarrow> bytes" where
  "jsonMarshal ob = json_Marshal (case ob of None \<Rightarrow> JNull | Some b \<Rightarrow> beacon_json b)"

definition parseBeacon :: "bytes \<Rightarrow> beacon option" where
  "parseBeacon body = (case json_Unmarshal (decode_struct beacon_fields) body zero_beacon of Ok b \<Rightarrow> Some b | _ \<Rightarrow> None)"

lemma parseBeacon_jsonMarshal [simp]: "parseBeacon (jsonMarshal (Some b)) = Some b"
  using decode_JUint [of "bc_Counter b"]
  by (simp add: parseBeacon_def jsonMarshal_def beacon_json_def json_simps decode_struct_def beacon_fields_def
      field_decoder_def into_def)

text \<open>
  The environment of a router: the algorithms, the sponge and the order in which the scheme map is
  visited.
\<close>

record ('p, 's, 'r) env =
  e_circl :: "('p, 's, 'r) circl"
  e_sponge :: sponge
  e_tags :: "string list"

abbreviation env_NewID :: "('p, 's, 'r) env \<Rightarrow> 'p public_key \<Rightarrow> addr option" where
  "env_NewID E \<equiv> NewID (e_circl E) (e_sponge E) (e_tags E)"

definition sigPurpose :: "('p, 's, 'r) env \<Rightarrow> bytes" where
  "sigPurpose E = SigCtxString (e_sponge E) ''inet256/beaconnet/beacon''"

text \<open>Time is in nanoseconds; the counter is the Unix time truncated to 64 bits.\<close>

definition newBeacon :: "('p, 's, 'r) env \<Rightarrow> 's private_key \<Rightarrow> int \<Rightarrow> beacon option" where
  "newBeacon E privateKey now =
     (let counter = of_int now
      in Option.bind (pki_Sign (e_circl E) (e_sponge E) (Some (sigPurpose E)) privateKey (put_be64 counter) []) (\<lambda>sig.
         Option.bind (MarshalPublicKey (e_circl E) (e_tags E) [] (PublicFromPrivate (e_circl E) privateKey)) (\<lambda>pub.
         Some \<lparr>bc_PublicKey = pub, bc_Counter = counter, bc_Sig = sig\<rparr>)))"

definition verifyBeacon :: "('p, 's, 'r) env \<Rightarrow> beacon \<Rightarrow> (bn_error, 'p public_key) outcome" where
  "verifyBeacon E b =
     obind (err_map BadPublicKey (ParsePublicKey (e_circl E) (bc_PublicKey b))) (\<lambda>pubKey.
     obind (unwinds (pki_Verify (e_circl E) (e_sponge E) (Some (sigPurpose E)) pubKey (put_be64 (bc_Counter b)) (bc_Sig b))) (\<lambda>ok.
     if ok then Ok pubKey else Err BadSignature))"

section \<open>The router\<close>

record 'p peer_state =
  ps_next :: addr
  ps_counter :: u64
  ps_publicKey :: "'p public_key"

text \<open>\<open>r_peers\<close> is what \<^verbatim>\<open>peers.List()\<close> returns; \<^verbatim>\<open>Contains\<close> is membership in it.\<close>

record ('p, 's) router =
  r_privateKey :: "'s private_key option"
  r_peers :: "addr list"
  r_localID :: addr
  r_peerStateTTL :: int
  r_beaconPeriod :: int
  r_lastCleanup :: int
  r_lastBeacon :: int
  r_peerStates :: "addr \<rightharpoonup> 'p peer_state"
  r_ourBeacon :: "beacon option"

text \<open>The calls a handler makes on its context.\<close>

datatype 'p action = Send addr bytes | OnData addr bytes | OnAddr addr | OnPublicKey addr "'p public_key"

text \<open>The zero \<^verbatim>\<open>time.Time\<close> on the Unix scale.\<close>

definition zero_time :: int where
  "zero_time = - 62135596800 * 1000000000"

definition defaultBeaconPeriod :: int where "defaultBeaconPeriod = 1000000000"

definition defaultPeerStateTTL :: int where "defaultPeerStateTTL = 30 * 1000000000"

definition NewRouter :: "('p, 's) router" where
  "NewRouter = \<lparr>r_privateKey = None, r_peers = [], r_localID = zero_addr,
     r_peerStateTTL = defaultPeerStateTTL, r_beaconPeriod = defaultBeaconPeriod,
     r_lastCleanup = zero_time, r_lastBeacon = zero_time, r_peerStates = Map.empty, r_ourBeacon = None\<rparr>"

text \<open>The loop of \<^verbatim>\<open>Reset\<close> deletes every key it visits.\<close>

definition Reset :: "('p, 's, 'r) env \<Rightarrow> 's private_key \<Rightarrow> addr list \<Rightarrow> int \<Rightarrow> ('p, 's) router \<Rightarrow> ('p, 's) router option" where
  "Reset E priv peers now r =
     Option.bind (env_NewID E (PublicFromPrivate (e_circl E) priv)) (\<lambda>i.
     Option.bind (newBeacon E priv now) (\<lambda>b.
     Some (r\<lparr>r_privateKey := Some priv, r_peers := peers, r_localID := i, r_ourBeacon := Some b,
             r_peerStates := Map.empty\<rparr>)))"

definition lookupPeerState :: "('p, 's) router \<Rightarrow> addr \<Rightarrow> 'p peer_state option" where
  "lookupPeerState r dst = r_peerStates r dst"

definition make_header :: "('p, 's) router \<Rightarrow> addr \<Rightarrow> byte \<Rightarrow> header" where
  "make_header r dst mtype = SetType (SetDst (SetSrc (replicate HeaderSize 0) (r_localID r)) dst) mtype"

definition bn_broadcast :: "('p, 's) router \<Rightarrow> addr \<Rightarrow> byte \<Rightarrow> bytes \<Rightarrow> 'p action list" where
  "bn_broadcast r exclude mtype body =
     map (\<lambda>peerID. Send peerID (make_header r broadcastAddr mtype @ body)) (filter (\<lambda>p. p \<noteq> exclude) (r_peers r))"

definition bn_send :: "('p, 's) router \<Rightarrow> addr \<Rightarrow> addr \<Rightarrow> byte \<Rightarrow> bytes \<Rightarrow> 'p action" where
  "bn_send r next dst mtype body = Send next (make_header r dst mtype @ body)"

definition HandleAbove :: "('p, 's) router \<Rightarrow> addr \<Rightarrow> bytes \<Rightarrow> 'p action list \<times> bool" where
  "HandleAbove r dst data =
     (if dst \<in> set (r_peers r) then ([bn_send r dst dst TypeData data], True)
      else case lookupPeerState r dst of
             None \<Rightarrow> ([], False)
           | Some ps \<Rightarrow> ([bn_send r (ps_next ps) dst TypeData data], True))"

text \<open>\<^verbatim>\<open>NewID\<close> panics on a key without a registered scheme.\<close>

definition updatePeerState ::
  "('p, 's, 'r) env \<Rightarrow> ('p, 's) router \<Rightarrow> addr \<Rightarrow> 'p public_key \<Rightarrow> u64 \<Rightarrow> (('p, 's) router \<times> bool \<times> bool) option" where
  "updatePeerState E r next pubKey counter =
     Option.bind (env_NewID E pubKey) (\<lambda>peer.
       case r_peerStates r peer of
         None \<Rightarrow> Some (r\<lparr>r_peerStates := (r_peerStates r)(peer \<mapsto> \<lparr>ps_next = next, ps_counter = counter, ps_publicKey = pubKey\<rparr>)\<rparr>, True, True)
       | Some ps \<Rightarrow>
           if counter > ps_counter ps
           then Some (r\<lparr>r_peerStates := (r_peerStates r)(peer \<mapsto> \<lparr>ps_next = next, ps_counter = counter, ps_publicKey = pubKey\<rparr>)\<rparr>, True, False)
           else Some (r\<lparr>r_peerStates := (r_peerStates r)(peer \<mapsto> ps)\<rparr>, False, False))"

definition handleBeacon ::
  "('p, 's, 'r) env \<Rightarrow> ('p, 's) router \<Rightarrow> addr \<Rightarrow> header \<Rightarrow> beacon \<Rightarrow> (bn_error, ('p, 's) router \<times> 'p action list) outcome" where
  "handleBeacon E r prev hdr b =
     obind (verifyBeacon E b) (\<lambda>pubKey.
     obind (unwinds (updatePeerState E r prev pubKey (bc_Counter b))) (\<lambda>(r1, updated, created).
     obind (unwinds (env_NewID E pubKey)) (\<lambda>addr.
       let data = jsonMarshal (Some b);
           a1 = (if updated \<and> GetDst hdr = broadcastAddr then bn_broadcast r1 prev TypeBeacon data else []);
           a2 = (if GetDst hdr \<noteq> broadcastAddr
                 then case lookupPeerState r1 (GetDst hdr) of None \<Rightarrow> []
                      | Some ps \<Rightarrow> [bn_send r1 (ps_next ps) (GetDst hdr) TypeBeacon data]
                 else []);
           a3 = (if created then [bn_send r1 prev (GetSrc hdr) TypeBeacon (jsonMarshal (r_ourBeacon r1))] else [])
       in Ok (r1, a1 @ a2 @ a3 @ [OnAddr addr, OnPublicKey addr pubKey]))))"

definition handleData ::
  "('p, 's) router \<Rightarrow> addr \<Rightarrow> header \<Rightarrow> bytes \<Rightarrow> (bn_error, ('p, 's) router \<times> 'p action list) outcome" where
  "handleData r prev hdr body =
     (let dst = GetDst hdr; src = GetSrc hdr
      in if dst = r_localID r then Ok (r, [OnData src body])
         else if dst \<in> set (r_peers r) then Ok (r, [Send dst (hdr @ body)])
         else case lookupPeerState r dst of
                None \<Rightarrow> Err (NoNextHop dst)
              | Some ps \<Rightarrow> Ok (r, [Send (ps_next ps) (hdr @ body)]))"

definition handleMessage ::
  "('p, 's, 'r) env \<Rightarrow> ('p, 's) router \<Rightarrow> addr \<Rightarrow> bytes \<Rightarrow> (bn_error, ('p, 's) router \<times> 'p action list) outcome" where
  "handleMessage E r from payload =
     obind (ParseMessage payload) (\<lambda>(hdr, body).
       if GetType hdr = TypeBeacon then
         (case parseBeacon body of
            None \<Rightarrow> Err BadJson
          | Some b \<Rightarrow> handleBeacon E r from hdr b)
       else if GetType hdr = TypeData then handleData r from hdr body
       else Err (BadType (GetType hdr)))"

text \<open>An error is logged and the message dropped; nothing has been changed or sent by then.\<close>

definition HandleBelow ::
  "('p, 's, 'r) env \<Rightarrow> ('p, 's) router \<Rightarrow> addr \<Rightarrow> bytes \<Rightarrow> (('p, 's) router \<times> 'p action list) option" where
  "HandleBelow E r from data =
     (case handleMessage E r from data of Ok x \<Rightarrow> Some x | Err e \<Rightarrow> Some (r, []) | Panic \<Rightarrow> None)"

text \<open>The difference of the counters wraps around and is read as a signed duration.\<close>

definition cleanupOnce :: "('p, 's) router \<Rightarrow> int \<Rightarrow> ('p, 's) router" where
  "cleanupOnce r now =
     r\<lparr>r_peerStates := (\<lambda>a. case r_peerStates r a of None \<Rightarrow> None
        | Some ps \<Rightarrow> if sint (of_int now - ps_counter ps) > r_peerStateTTL r then None else Some ps)\<rparr>"

text \<open>Before \<^verbatim>\<open>Reset\<close> there is no private key, and making a beacon panics.\<close>

definition Heartbeat :: "('p, 's, 'r) env \<Rightarrow> ('p, 's) router \<Rightarrow> int \<Rightarrow> (('p, 's) router \<times> 'p action list) option" where
  "Heartbeat E r now =
     (let r1 = (if time_Sub (r_lastCleanup r) now \<ge> r_peerStateTTL r
                then (cleanupOnce r now)\<lparr>r_lastCleanup := now\<rparr> else r)
      in if time_Sub now (r_lastBeacon r1) \<ge> r_beaconPeriod r1
         then Option.bind (r_privateKey r1) (\<lambda>priv.
              Option.bind (newBeacon E priv now) (\<lambda>b.
                let r2 = r1\<lparr>r_ourBeacon := Some b\<rparr>
                in Some (r2\<lparr>r_lastBeacon := now\<rparr>, bn_broadcast r2 (r_localID r2) TypeBeacon (jsonMarshal (Some b)))))
         else Some (r1, []))"

text \<open>The first match in the order \<open>ks\<close> in which the peer states are visited; the zero address is none.\<close>

definition bn_FindAddr :: "addr list \<Rightarrow> ('p, 's) router \<Rightarrow> bytes \<Rightarrow> int \<Rightarrow> addr option" where
  "bn_FindAddr ks r pfx nbits =
     (let a = (case find (\<lambda>i. id_HasPrefix i pfx nbits) ks of None \<Rightarrow> zero_addr | Some i \<Rightarrow> i)
      in if IsZero a then None else Some a)"

definition bn_LookupPublicKey :: "('p, 's) router \<Rightarrow> addr \<Rightarrow> 'p public_key option" where
  "bn_LookupPublicKey r target = map_option ps_publicKey (lookupPeerState r target)"

definition bn_MTU :: "int \<Rightarrow> int" where
  "bn_MTU below = below - int HeaderSize"

section \<open>Headers read what was written\<close>

lemma length_SetSrc [simp]: "length h = 65 \<Longrightarrow> length (SetSrc h x) = 65"
  by (simp add: SetSrc_def)

lemma length_SetDst [simp]: "length h = 65 \<Longrightarrow> length (SetDst h x) = 65"
  by (simp add: SetDst_def)

lemma length_SetType [simp]: "length (SetType h x) = length h"
  by (simp add: SetType_def)

lemma GetType_SetType [simp]: "length h = 65 \<Longrightarrow> GetType (SetType h t) = t"
  by (simp add: GetType_def SetType_def)

lemma GetSrc_SetType [simp]: "GetSrc (SetType h t) = GetSrc h"
  by (simp add: GetSrc_def SetType_def drop_update_cancel)

lemma GetDst_SetType [simp]: "GetDst (SetType h t) = GetDst h"
  by (simp add: GetDst_def SetType_def drop_update_cancel)

lemma GetDst_SetDst [simp]: "length h = 65 \<Longrightarrow> is_addr x \<Longrightarrow> GetDst (SetDst h x) = x"
  using gocopy_at_inside [of 33 65 h x] by (simp add: GetDst_def SetDst_def is_addr_def AddrSize_def IDFromBytes_addr)

lemma GetSrc_SetSrc [simp]: "length h = 65 \<Longrightarrow> is_addr x \<Longrightarrow> GetSrc (SetSrc h x) = x"
  using gocopy_at_inside [of 1 33 h x] by (simp add: GetSrc_def SetSrc_def is_addr_def AddrSize_def IDFromBytes_addr)

lemma GetSrc_SetDst [simp]: "length h = 65 \<Longrightarrow> GetSrc (SetDst h x) = GetSrc h"
  using gocopy_at_before [of 33 33 h 65 x] by (simp add: GetSrc_def SetDst_def take_drop)

lemma length_make_header [simp]: "length (make_header r dst t) = 65"
  by (simp add: make_header_def HeaderSize_def)

lemma make_header_fields:
  "GetType (make_header r dst t) = t"
  "is_addr dst \<Longrightarrow> GetDst (make_header r dst t) = dst"
  "is_addr (r_localID r) \<Longrightarrow> GetSrc (make_header r dst t) = r_localID r"
  by (simp_all add: make_header_def HeaderSize_def)

lemma ParseMessage_header:
  assumes "length h = 65"
  shows "ParseMessage (h @ body) = Ok (h, body)"
  using assms by (auto simp: ParseMessage_def HeaderSize_def gocopy_exact)

section \<open>What a handler can do to the peer states\<close>

text \<open>An entry is only ever replaced by one with a higher counter.\<close>

definition fresher :: "'p peer_state \<Rightarrow> 'p peer_state \<Rightarrow> bool" where
  "fresher ps ps' \<longleftrightarrow> ps' = ps \<or> ps_counter ps < ps_counter ps'"

definition states_grow :: "(addr \<rightharpoonup> 'p peer_state) \<Rightarrow> (addr \<rightharpoonup> 'p peer_state) \<Rightarrow> bool" where
  "states_grow m m' \<longleftrightarrow> (\<forall>a ps. m a = Some ps \<longrightarrow> (\<exists>ps'. m' a = Some ps' \<and> fresher ps ps'))"

lemma states_grow_refl [simp]: "states_grow m m"
  by (auto simp: states_grow_def fresher_def)

lemma states_grow_counter:
  "states_grow m m' \<Longrightarrow> m a = Some ps \<Longrightarrow> \<exists>ps'. m' a = Some ps' \<and> ps_counter ps \<le> ps_counter ps'"
  by (fastforce simp: states_grow_def fresher_def)

text \<open>The outcome of \<^verbatim>\<open>updatePeerState\<close>: the new entry is written exactly when it is fresher.\<close>

lemma updatePeerState_Some:
  assumes "updatePeerState E r nxt pk cnt = Some (r', updated, created)"
  obtains i where "env_NewID E pk = Some i" "created \<longleftrightarrow> r_peerStates r i = None"
    "updated \<longleftrightarrow> (\<forall>ps. r_peerStates r i = Some ps \<longrightarrow> ps_counter ps < cnt)"
    "r' = (if updated then r\<lparr>r_peerStates := (r_peerStates r)(i \<mapsto> \<lparr>ps_next = nxt, ps_counter = cnt, ps_publicKey = pk\<rparr>)\<rparr> else r)"
  using assms unfolding updatePeerState_def
  by (auto split: option.splits if_splits Option.bind_splits simp: fun_upd_idem)

lemma updatePeerState_grow:
  assumes "updatePeerState E r nxt pk cnt = Some (r', updated, created)"
  shows "states_grow (r_peerStates r) (r_peerStates r')"
  using assms by (rule updatePeerState_Some) (auto simp: states_grow_def fresher_def)

lemma updatePeerState_has:
  assumes "updatePeerState E r nxt pk cnt = Some (r', updated, created)" "env_NewID E pk = Some i"
  shows "\<exists>ps. r_peerStates r' i = Some ps \<and> cnt \<le> ps_counter ps"
  using assms(1)
proof (rule updatePeerState_Some)
  fix j assume j: "env_NewID E pk = Some j" "updated \<longleftrightarrow> (\<forall>ps. r_peerStates r j = Some ps \<longrightarrow> ps_counter ps < cnt)"
    "r' = (if updated then r\<lparr>r_peerStates := (r_peerStates r)(j \<mapsto> \<lparr>ps_next = nxt, ps_counter = cnt, ps_publicKey = pk\<rparr>)\<rparr> else r)"
  with assms(2) have "j = i" by simp
  with j show ?thesis by (cases updated) (auto simp: not_less)
qed

lemma handleData_state: "handleData r from hdr body = Ok (r', acts) \<Longrightarrow> r' = r"
  by (auto simp: handleData_def Let_def split: option.splits if_splits)

text \<open>A message that changes the state is a beacon that passed verification.\<close>

lemma HandleBelow_cases:
  assumes "HandleBelow E r from data = Some (r', acts)"
  obtains (same) "r' = r" "acts = []"
    | (data) hdr body where "ParseMessage data = Ok (hdr, body)" "GetType hdr = TypeData" "r' = r"
        "handleData r from hdr body = Ok (r, acts)"
    | (beacon) hdr body b where "ParseMessage data = Ok (hdr, body)" "GetType hdr = TypeBeacon"
        "parseBeacon body = Some b" "handleBeacon E r from hdr b = Ok (r', acts)"
proof (cases "handleMessage E r from data")
  case (Ok x)
  with assms have x: "x = (r', acts)" by (simp add: HandleBelow_def)
  obtain hdr body where p: "ParseMessage data = Ok (hdr, body)"
    using Ok by (auto simp: handleMessage_def outcome_simps)
  show ?thesis
  proof (cases "GetType hdr = TypeBeacon")
    case True
    with Ok x p show ?thesis by (auto simp: handleMessage_def split: option.splits intro: beacon)
  next
    case False
    with Ok x p have "GetType hdr = TypeData" "handleData r from hdr body = Ok (r', acts)"
      by (auto simp: handleMessage_def split: if_splits)
    with p handleData_state show ?thesis by (intro data) auto
  qed
qed (use assms same in \<open>auto simp: HandleBelow_def\<close>)

lemma handleBeacon_Ok:
  assumes "handleBeacon E r from hdr b = Ok (r', acts)"
  obtains pk updated created where "verifyBeacon E b = Ok pk"
    "updatePeerState E r from pk (bc_Counter b) = Some (r', updated, created)"
    "\<And>nxt msg. Send nxt msg \<in> set acts \<Longrightarrow>
       (\<exists>dst. msg = make_header r' dst TypeBeacon @ jsonMarshal (Some b)) \<or>
       created \<and> nxt = from \<and> msg = make_header r' (GetSrc hdr) TypeBeacon @ jsonMarshal (r_ourBeacon r')"
proof -
  obtain pk where pk: "verifyBeacon E b = Ok pk" using assms by (auto simp: handleBeacon_def outcome_simps)
  obtain r1 updated created where u: "updatePeerState E r from pk (bc_Counter b) = Some (r1, updated, created)"
    using assms pk by (cases "updatePeerState E r from pk (bc_Counter b)") (auto simp: handleBeacon_def)
  have "r1 = r'" using assms pk u by (auto simp: handleBeacon_def outcome_simps Let_def)
  with pk u assms show ?thesis
    by (intro that [of pk updated created])
      (auto simp: handleBeacon_def outcome_simps Let_def bn_broadcast_def bn_send_def split: if_splits option.splits)
qed

lemma HandleBelow_grow:
  assumes "HandleBelow E r from data = Some (r', acts)"
  shows "states_grow (r_peerStates r) (r_peerStates r')"
  using assms
proof (cases rule: HandleBelow_cases)
  case (beacon hdr body b)
  from beacon(4) show ?thesis by (rule handleBeacon_Ok) (rule updatePeerState_grow)
qed simp_all

lemma time_Sub_past: "t \<le> now \<Longrightarrow> time_Sub t now \<le> 0"
  by (simp add: time_Sub_def)

lemma Heartbeat_past:
  assumes "Heartbeat E r now = Some (r', acts)" "r_lastCleanup r \<le> now" "0 < r_peerStateTTL r"
  shows "(r', acts) = (r, []) \<or>
    (\<exists>priv b. r_privateKey r = Some priv \<and> newBeacon E priv now = Some b \<and>
       r' = r\<lparr>r_ourBeacon := Some b, r_lastBeacon := now\<rparr> \<and>
       acts = bn_broadcast r' (r_localID r) TypeBeacon (jsonMarshal (Some b)))"
proof -
  have "\<not> r_peerStateTTL r \<le> time_Sub (r_lastCleanup r) now"
    using time_Sub_past [OF assms(2)] assms(3) by simp
  moreover have "bn_broadcast (r\<lparr>r_ourBeacon := b, r_lastBeacon := now\<rparr>) x t d = bn_broadcast (r\<lparr>r_ourBeacon := b\<rparr>) x t d" for b x t d
    by (simp add: bn_broadcast_def make_header_def)
  ultimately show ?thesis
    using assms(1) by (auto simp: Heartbeat_def Let_def bind_eq_Some_conv split: if_splits)
qed

lemma handleBeacon_again:
  assumes "handleBeacon E r from hdr b = Ok (r', acts)" "GetDst hdr = broadcastAddr"
  shows "\<exists>acts'. handleBeacon E r' from' hdr b = Ok (r', acts') \<and> (\<forall>nxt m. Send nxt m \<notin> set acts')"
  using assms(1)
proof (rule handleBeacon_Ok)
  fix pk updated created
  assume pk: "verifyBeacon E b = Ok pk"
    and u: "updatePeerState E r from pk (bc_Counter b) = Some (r', updated, created)"
  from u obtain i where i: "env_NewID E pk = Some i" by (rule updatePeerState_Some)
  from updatePeerState_has [OF u i] obtain ps where ps: "r_peerStates r' i = Some ps" "bc_Counter b \<le> ps_counter ps" by blast
  then have "updatePeerState E r' from' pk (bc_Counter b) = Some (r', False, False)"
    using i by (simp add: updatePeerState_def not_less fun_upd_idem)
  with pk i assms(2) show ?thesis by (simp add: handleBeacon_def Let_def)
qed

text \<open>A small environment and a beacon it accepts.\<close>

lemma NewRouter_simps [simp]:
  "r_localID NewRouter = zero_addr" "r_peers NewRouter = []" "r_peerStates NewRouter = Map.empty"
  by (simp_all add: NewRouter_def)

definition sample_env :: "(bool, bool, nat) env" where
  "sample_env = \<lparr>e_circl = sample_circl, e_sponge = sample_sponge, e_tags = default_tags\<rparr>"

definition sample_beacon :: beacon where
  "sample_beacon = \<lparr>bc_PublicKey = writeTag [] (algo_tag Ed25519) @ sample_bytes 32 True, bc_Counter = 5,
     bc_Sig = sample_bytes 64 True\<rparr>"

lemma sample_env_NewID: "\<exists>i. env_NewID sample_env (BasePublic a p) = Some i"
  by (simp add: NewID_def pki_NewID_def pki_MarshalPublicKey_def sample_env_def findTag_Default [OF default_tags_enumerates]
      sample_circl_def)

lemma sample_beacon_verifies: "verifyBeacon sample_env sample_beacon = Ok (BasePublic Ed25519 True)"
proof -
  have "readTag (writeTag [] (algo_tag Ed25519) @ sample_bytes 32 True) = Ok (algo_tag Ed25519, sample_bytes 32 True)"
    by (rule readTag_writeTag [OF length_algo_tag(2)])
  moreover have "Schemes DefaultPKI (algo_tag Ed25519) = Some (BaseScheme Ed25519)" by (simp add: DefaultPKI_schemes del: algo_tag.simps)
  ultimately show ?thesis
    by (simp add: verifyBeacon_def sample_env_def sample_beacon_def ParsePublicKey_def pki_ParsePublicKey_def pki_Verify_def
        sample_circl_def del: algo_tag.simps)
qed

lemma sample_beacon_handled:
  assumes "GetDst hdr = broadcastAddr" "GetType hdr = TypeBeacon" "length hdr = 65"
  shows "\<exists>r' acts. HandleBelow sample_env NewRouter from (hdr @ jsonMarshal (Some sample_beacon)) = Some (r', acts)"
proof -
  obtain i where i: "env_NewID sample_env (BasePublic Ed25519 True) = Some i" using sample_env_NewID by blast
  have "parseBeacon (jsonMarshal (Some sample_beacon)) = Some sample_beacon"
    by simp
  with assms i sample_beacon_verifies show ?thesis
    by (simp add: HandleBelow_def handleMessage_def ParseMessage_header handleBeacon_def updatePeerState_def
        NewRouter_def Let_def)
qed

section \<open>Properties\<close>

text \<open>
  What a router sends is what the next router reads: the type, the source, the destination and
  the body of a message survive the trip.
\<close>

theorem bn_message_roundtrip:
  assumes "is_addr (r_localID r)" "is_addr dst"
  shows "\<exists>msg hdr. bn_send r nxt dst t body = Send nxt msg \<and> ParseMessage msg = Ok (hdr, body) \<and>
     GetType hdr = t \<and> GetSrc hdr = r_localID r \<and> GetDst hdr = dst"
  using assms by (auto simp: bn_send_def ParseMessage_header make_header_fields)

theorem bn_message_roundtrip_witness:
  "\<exists>msg hdr. bn_send (NewRouter :: (bool, bool) router) [7] (IDFromBytes [1]) TypeData [9] = Send [7] msg \<and>
     ParseMessage msg = Ok (hdr, [9]) \<and> GetType hdr = TypeData \<and> GetSrc hdr = zero_addr \<and> GetDst hdr = IDFromBytes [1]"
  using bn_message_roundtrip [of "NewRouter :: (bool, bool) router" "IDFromBytes [1]" "[7]" TypeData "[9]"]
  by (simp add: NewRouter_def)





text \<open>
  C19: flooding a beacon ends: a router that has handled a broadcast beacon sends nothing when the
  same beacon arrives again, from whatever peer, and its state no longer changes.
\<close>

theorem beacon_flooded_once:
  assumes "HandleBelow E r from data = Some (r', acts)" "ParseMessage data = Ok (hdr, body)"
    and "GetType hdr = TypeBeacon" "GetDst hdr = broadcastAddr"
  shows "\<exists>acts'. HandleBelow E r' from' data = Some (r', acts') \<and> (\<forall>nxt m. Send nxt m \<notin> set acts')"
proof (cases "parseBeacon body")
  case None
  with assms show ?thesis by (auto simp: HandleBelow_def handleMessage_def)
next
  case (Some b)
  then have m: "handleMessage E q f data = handleBeacon E q f hdr b" for q f
    using assms(2,3) by (simp add: handleMessage_def)
  show ?thesis
  proof (cases "handleBeacon E r from hdr b")
    case (Ok x)
    then have "handleBeacon E r from hdr b = Ok (r', acts)" using assms(1) by (simp add: HandleBelow_def m)
    from handleBeacon_again [OF this assms(4), of from'] show ?thesis by (auto simp: HandleBelow_def m)
  next
    case (Err e)
    then have "r' = r" using assms(1) by (simp add: HandleBelow_def m)
    moreover have "verifyBeacon E b = Err e"
      using Err by (auto simp: handleBeacon_def outcome_simps Let_def)
    ultimately show ?thesis by (simp add: HandleBelow_def m handleBeacon_def)
  qed (use assms(1) in \<open>simp add: HandleBelow_def m\<close>)
qed

theorem beacon_flooded_once_witness:
  "\<exists>r' acts'. HandleBelow sample_env r' [2] (make_header (NewRouter :: (bool, bool) router) broadcastAddr TypeBeacon @ jsonMarshal (Some sample_beacon)) =
     Some (r', acts') \<and> (\<forall>nxt m. Send nxt m \<notin> set acts')"
proof -
  let ?h = "make_header (NewRouter :: (bool, bool) router) broadcastAddr TypeBeacon"
  have h: "GetDst ?h = broadcastAddr" "GetType ?h = TypeBeacon" "length ?h = 65"
    by (simp_all add: make_header_fields broadcastAddr_def)
  obtain r' acts where "HandleBelow sample_env NewRouter [1] (?h @ jsonMarshal (Some sample_beacon)) = Some (r', acts)"
    using sample_beacon_handled [OF h] by blast
  from beacon_flooded_once [OF this ParseMessage_header [OF h(3)] h(2,1), of "[2]"] show ?thesis by blast
qed

text \<open>
  The heartbeat never cleans up: with a clock that does not run backwards the peer states and the
  time of the last cleanup stay as they are, however old the entries get.
\<close>

theorem Heartbeat_never_cleans:
  assumes "Heartbeat E r now = Some (r', acts)" "r_lastCleanup r \<le> now" "0 < r_peerStateTTL r"
  shows "r_peerStates r' = r_peerStates r \<and> r_lastCleanup r' = r_lastCleanup r"
  using Heartbeat_past [OF assms] by auto

theorem Heartbeat_never_cleans_witness:
  "\<exists>r' acts. Heartbeat sample_env (NewRouter\<lparr>r_lastBeacon := 5\<rparr>) 6 = Some (r', acts) \<and>
     r_peerStates r' = Map.empty \<and> r_lastCleanup r' = zero_time"
proof -
  let ?r = "NewRouter\<lparr>r_lastBeacon := 5\<rparr> :: (bool, bool) router"
  have e: "Heartbeat sample_env ?r 6 = Some (?r, [])"
    by (simp add: Heartbeat_def NewRouter_def time_Sub_def zero_time_def defaultPeerStateTTL_def defaultBeaconPeriod_def)
  have "r_lastCleanup ?r \<le> 6" "0 < r_peerStateTTL ?r" by (simp_all add: NewRouter_def zero_time_def defaultPeerStateTTL_def)
  from Heartbeat_never_cleans [OF e this] e show ?thesis by (auto simp: NewRouter_def)
qed

text \<open>
  C39: a beacon that carries a product key and an empty signature crashes every router it reaches.
\<close>

theorem product_key_beacon_crashes:
  assumes "ParseMessage data = Ok (hdr, body)" "GetType hdr = TypeBeacon" "parseBeacon body = Some b"
    and "ParsePublicKey (e_circl E) (bc_PublicKey b) = Ok (ProductVerifier ks)" "bc_Sig b = []"
  shows "HandleBelow E r from data = None"
proof -
  have "verifyBeacon E b = Ok (ProductVerifier ks)"
    using assms(4,5) by (simp add: verifyBeacon_def pki_Verify_def)
  moreover have "env_NewID E (ProductVerifier ks) = None"
    using findTag_unregistered [of DefaultPKI "ProductSignScheme []"]
    by (simp add: NewID_def pki_NewID_def pki_MarshalPublicKey_def DefaultPKI_schemes)
  ultimately show ?thesis
    using assms(1-3) by (simp add: HandleBelow_def handleMessage_def handleBeacon_def updatePeerState_def)
qed

theorem product_key_beacon_crashes_witness:
  "HandleBelow sample_env NewRouter [1] (make_header (NewRouter :: (bool, bool) router) broadcastAddr TypeBeacon @
     jsonMarshal (Some \<lparr>bc_PublicKey = writeTag [] (SignAlgo_Product [SignAlgo_Ed25519, SignAlgo_Dilithium2]) @ replicate 64 1,
       bc_Counter = 1, bc_Sig = []\<rparr>)) = None"
proof -
  let ?tag = "SignAlgo_Product [SignAlgo_Ed25519, SignAlgo_Dilithium2]"
  have "readTag (writeTag [] ?tag @ replicate 64 1) = Ok (?tag, replicate 64 1)"
    by (rule readTag_writeTag) (simp add: tag_defs)
  moreover have "Schemes DefaultPKI ?tag = Some (ProductSignScheme [BaseScheme Ed25519, BaseScheme Dilithium2])"
    by (simp add: DefaultPKI_def)
  ultimately have "\<exists>ks. ParsePublicKey (e_circl sample_env) (writeTag [] ?tag @ replicate 64 1) = Ok (ProductVerifier ks)"
    by (simp add: ParsePublicKey_def pki_ParsePublicKey_def sample_env_def sample_circl_def goslice_def)
  then obtain ks where "ParsePublicKey (e_circl sample_env) (writeTag [] ?tag @ replicate 64 1) = Ok (ProductVerifier ks)" by blast
  then show ?thesis
    by (intro product_key_beacon_crashes [where hdr = "make_header (NewRouter :: (bool, bool) router) broadcastAddr TypeBeacon" and
        body = "jsonMarshal (Some \<lparr>bc_PublicKey = writeTag [] ?tag @ replicate 64 1, bc_Counter = 1, bc_Sig = []\<rparr>)" and b = "\<lparr>bc_PublicKey = writeTag [] ?tag @ replicate 64 1, bc_Counter = 1, bc_Sig = []\<rparr>" and ks = ks])
      (simp_all add: ParseMessage_header make_header_fields sample_env_def)
qed

section \<open>Well-typed states\<close>

text \<open>
  Addresses are byte lists here and arrays of 32 bytes in the source. In a well-typed router every address is
  one, and a well-typed action has addresses and messages that parse and have one of the two types.
\<close>

definition typed_router :: "('p, 's) router \<Rightarrow> bool" where
  "typed_router r \<longleftrightarrow> is_addr (r_localID r) \<and> list_all is_addr (r_peers r) \<and>
     (\<forall>i ps. r_peerStates r i = Some ps \<longrightarrow> is_addr i \<and> is_addr (ps_next ps))"

fun typed_action :: "'p action \<Rightarrow> bool" where
  "typed_action (Send nxt msg) \<longleftrightarrow> is_addr nxt \<and>
     (\<exists>hdr body. ParseMessage msg = Ok (hdr, body) \<and> GetType hdr \<in> {TypeData, TypeBeacon})"
| "typed_action (OnData src body) \<longleftrightarrow> is_addr src"
| "typed_action (OnAddr a) \<longleftrightarrow> is_addr a"
| "typed_action (OnPublicKey a pk) \<longleftrightarrow> is_addr a"

text \<open>The sponge returns as many bytes as it is asked for.\<close>

definition sponge_sized :: "sponge \<Rightarrow> bool" where
  "sponge_sized sp \<longleftrightarrow> (\<forall>x n. length (shake256 sp x n) = n)"

lemma NewID_is_addr: "sponge_sized (e_sponge E) \<Longrightarrow> env_NewID E pk = Some i \<Longrightarrow> is_addr i"
  by (auto simp: NewID_def pki_NewID_def crypto_Sum256_def XOF_def sponge_sized_def is_addr_def AddrSize_def split: outcome.splits)

lemma typed_bn_send: "is_addr nxt \<Longrightarrow> t \<in> {TypeData, TypeBeacon} \<Longrightarrow> typed_action (bn_send r nxt dst t body)"
  by (auto simp: bn_send_def ParseMessage_header make_header_fields)

lemma typed_bn_broadcast: "list_all is_addr (r_peers r) \<Longrightarrow> t \<in> {TypeData, TypeBeacon} \<Longrightarrow> list_all typed_action (bn_broadcast r ex t body)"
  by (auto simp: bn_broadcast_def list.pred_set ParseMessage_header make_header_fields)

lemma typed_updatePeerState:
  assumes "sponge_sized (e_sponge E)" "typed_router r" "is_addr nxt" "updatePeerState E r nxt pk cnt = Some (r', updated, created)"
  shows "typed_router r'"
  using assms(4)
proof (rule updatePeerState_Some)
  fix i assume "env_NewID E pk = Some i"
    "r' = (if updated then r\<lparr>r_peerStates := (r_peerStates r)(i \<mapsto> \<lparr>ps_next = nxt, ps_counter = cnt, ps_publicKey = pk\<rparr>)\<rparr> else r)"
  with assms(2,3) NewID_is_addr [OF assms(1)] show ?thesis by (auto simp: typed_router_def)
qed

lemma typed_handleBeacon:
  assumes "sponge_sized (e_sponge E)" "typed_router r" "is_addr prev" "handleBeacon E r prev hdr b = Ok (r', acts)"
  shows "typed_router r' \<and> list_all typed_action acts"
proof -
  obtain pk r1 updated created i where o: "updatePeerState E r prev pk (bc_Counter b) = Some (r1, updated, created)" "env_NewID E pk = Some i" "r' = r1"
    and acts: "acts = (if updated \<and> GetDst hdr = broadcastAddr then bn_broadcast r1 prev TypeBeacon (jsonMarshal (Some b)) else []) @
      (if GetDst hdr \<noteq> broadcastAddr then case lookupPeerState r1 (GetDst hdr) of None \<Rightarrow> [] | Some ps \<Rightarrow> [bn_send r1 (ps_next ps) (GetDst hdr) TypeBeacon (jsonMarshal (Some b))] else []) @
      (if created then [bn_send r1 prev (GetSrc hdr) TypeBeacon (jsonMarshal (r_ourBeacon r1))] else []) @ [OnAddr i, OnPublicKey i pk]"
    using assms(4) by (auto simp: handleBeacon_def outcome_simps Let_def)
  have r1: "typed_router r1" by (rule typed_updatePeerState [OF assms(1-3) o(1)])
  then have "typed_action (bn_send r1 (ps_next ps) d TypeBeacon body)" if "lookupPeerState r1 d = Some ps" for ps d body
    using that by (intro typed_bn_send) (auto simp: typed_router_def lookupPeerState_def)
  moreover have "list_all typed_action (bn_broadcast r1 prev TypeBeacon body)" for body
    using r1 by (intro typed_bn_broadcast) (auto simp: typed_router_def)
  moreover have "typed_action (bn_send r1 prev d TypeBeacon body)" for d body by (rule typed_bn_send [OF assms(3)]) simp
  ultimately show ?thesis using r1 o(3) NewID_is_addr [OF assms(1) o(2)] by (auto simp: acts split: option.splits)
qed

lemma typed_handleData:
  assumes "typed_router r" "ParseMessage data = Ok (hdr, body)" "GetType hdr = TypeData" "handleData r prev hdr body = Ok (r', acts)"
  shows "list_all typed_action acts"
proof -
  have "length hdr = 65" using assms(2) by (auto simp: ParseMessage_def HeaderSize_def split: if_splits)
  then have "ParseMessage (hdr @ body) = Ok (hdr, body)" by (rule ParseMessage_header)
  then have s: "is_addr nxt \<Longrightarrow> typed_action (Send nxt (hdr @ body))" for nxt using assms(3) by auto
  have a: "is_addr (GetSrc hdr)" "is_addr (GetDst hdr)" by (simp_all add: GetSrc_def GetDst_def)
  have "typed_action (Send (ps_next ps) (hdr @ body))" if "lookupPeerState r (GetDst hdr) = Some ps" for ps
    by (rule s) (use that assms(1) in \<open>simp add: typed_router_def lookupPeerState_def\<close>)
  then show ?thesis
    using assms(4) s [OF a(2)] a(1)
    by (auto simp: handleData_def Let_def simp del: typed_action.simps(1) split: if_splits option.splits)
qed

lemma typed_HandleBelow:
  assumes "sponge_sized (e_sponge E)" "typed_router r" "is_addr from" "HandleBelow E r from data = Some (r', acts)"
  shows "typed_router r' \<and> list_all typed_action acts"
  using assms(4)
proof (cases rule: HandleBelow_cases)
  case (data hdr body)
  then show ?thesis using typed_handleData [OF assms(2) data(1,2,4)] assms(2) by simp
next
  case (beacon hdr body b)
  then show ?thesis using typed_handleBeacon [OF assms(1-3) beacon(4)] by simp
qed (use assms(2) in simp)

lemma typed_HandleAbove:
  assumes "typed_router r" "is_addr dst"
  shows "list_all typed_action (fst (HandleAbove r dst data))"
  using assms typed_bn_send [of _ TypeData] by (auto simp: HandleAbove_def typed_router_def lookupPeerState_def split: option.splits)

lemma typed_Heartbeat:
  assumes "typed_router r" "Heartbeat E r now = Some (r', acts)"
  shows "typed_router r' \<and> list_all typed_action acts"
proof -
  have c: "typed_router ((cleanupOnce r now)\<lparr>r_lastCleanup := now\<rparr>)"
    using assms(1) by (auto simp: typed_router_def cleanupOnce_def split: option.splits if_splits)
  have "list_all typed_action (bn_broadcast r1 ex TypeBeacon body)" if "typed_router r1" for r1 :: "('a, 'b) router" and ex body
    using that by (intro typed_bn_broadcast) (auto simp: typed_router_def)
  moreover have "typed_router (r1\<lparr>r_ourBeacon := b\<rparr>)" "typed_router (r1\<lparr>r_ourBeacon := b, r_lastBeacon := t\<rparr>)" if "typed_router r1" for r1 :: "('a, 'b) router" and b t
    using that by (auto simp: typed_router_def)
  ultimately show ?thesis using assms c by (auto simp: Heartbeat_def Let_def bind_eq_Some_conv split: if_splits)
qed



end
