(* ===== verification/Beacon_Net.thy ===== *)
theory Beacon_Net
  imports Beaconnet
begin

text \<open>
  A network of beacon routers. The state holds the router of every node and every message ever sent,
  with its true sender and receiver, as the authenticated swarms below the routers guarantee. A
  message can be delivered any number of times, in any order, or never. The steps are the calls the
  surrounding \<^verbatim>\<open>Network\<close> makes on its router. The invariant is the one of sequence-numbered
  distance-vector protocols: whoever passes a beacon on holds an entry at least as fresh, so next hops
  lead to ever fresher routers and never in a circle.
\<close>

section \<open>States and steps\<close>

record ('p, 's) bnet =
  n_routers :: "addr \<rightharpoonup> ('p, 's) router"
  n_msgs :: "(addr \<times> addr \<times> bytes) set"

definition emitted :: "addr \<Rightarrow> 'p action list \<Rightarrow> (addr \<times> addr \<times> bytes) set" where
  "emitted n acts = {(n, nxt, m) | nxt m. Send nxt m \<in> set acts}"

definition node_does :: "('p, 's) bnet \<Rightarrow> addr \<Rightarrow> ('p, 's) router \<Rightarrow> 'p action list \<Rightarrow> ('p, 's) bnet" where
  "node_does g n r acts = \<lparr>n_routers = (n_routers g)(n \<mapsto> r), n_msgs = n_msgs g \<union> emitted n acts\<rparr>"

inductive bn_step :: "('p, 's, 'r) env \<Rightarrow> ('p, 's) bnet \<Rightarrow> ('p, 's) bnet \<Rightarrow> bool" for E where
  deliver: "bn_step E g (node_does g n r' acts)"
    if "(src, n, data) \<in> n_msgs g" "n_routers g n = Some r" "HandleBelow E r src data = Some (r', acts)"
| beat: "bn_step E g (node_does g n r' acts)"
    if "n_routers g n = Some r" "r_lastCleanup r \<le> now" "Heartbeat E r now = Some (r', acts)"
| app: "bn_step E g (node_does g n r acts)"
    if "n_routers g n = Some r" "HandleAbove r dst data = (acts, ok)"
| peers: "bn_step E g (node_does g n (r\<lparr>r_peers := ps\<rparr>) [])"
    if "n_routers g n = Some r"

text \<open>Initially every node has just been reset with its own key.\<close>

definition bn_init :: "('p, 's, 'r) env \<Rightarrow> ('p, 's) bnet \<Rightarrow> bool" where
  "bn_init E g \<longleftrightarrow> n_msgs g = {} \<and>
     (\<forall>n r. n_routers g n = Some r \<longrightarrow> r_localID r = n \<and> (\<exists>priv ps now. Reset E priv ps now NewRouter = Some r))"

section \<open>The invariant\<close>

text \<open>The next hop of every node other than the destination itself.\<close>

definition hops :: "('p, 's) bnet \<Rightarrow> addr \<Rightarrow> (addr \<times> addr) set" where
  "hops g dst = {(n, m). n \<noteq> dst \<and> (\<exists>r ps. n_routers g n = Some r \<and> r_peerStates r dst = Some ps \<and> m = ps_next ps)}"

text \<open>A node vouches for a counter of a destination.\<close>

definition vouches :: "('p, 's) bnet \<Rightarrow> addr \<Rightarrow> addr \<Rightarrow> u64 \<Rightarrow> bool" where
  "vouches g n dst c \<longleftrightarrow>
     n = dst \<or> (\<exists>r ps. n_routers g n = Some r \<and> r_peerStates r dst = Some ps \<and> c \<le> ps_counter ps)"

text \<open>The message carries a valid beacon of \<open>dst\<close> with counter \<open>c\<close>.\<close>

definition carries :: "('p, 's, 'r) env \<Rightarrow> bytes \<Rightarrow> addr \<Rightarrow> u64 \<Rightarrow> bool" where
  "carries E data dst c \<longleftrightarrow>
     (\<exists>hdr body b pk. ParseMessage data = Ok (hdr, body) \<and> GetType hdr = TypeBeacon \<and> parseBeacon body = Some b \<and>
        verifyBeacon E b = Ok pk \<and> env_NewID E pk = Some dst \<and> bc_Counter b = c)"

text \<open>A router knows its own key and announces nobody but itself.\<close>

definition router_ok :: "('p, 's, 'r) env \<Rightarrow> addr \<Rightarrow> ('p, 's) router \<Rightarrow> bool" where
  "router_ok E n r \<longleftrightarrow> r_localID r = n \<and> 0 < r_peerStateTTL r \<and>
     (\<exists>priv t b. r_privateKey r = Some priv \<and> env_NewID E (PublicFromPrivate (e_circl E) priv) = Some n \<and>
        newBeacon E priv t = Some b \<and> r_ourBeacon r = Some b)"

definition bnet_ok :: "('p, 's, 'r) env \<Rightarrow> ('p, 's) bnet \<Rightarrow> bool" where
  "bnet_ok E g \<longleftrightarrow>
     (\<forall>n r. n_routers g n = Some r \<longrightarrow> router_ok E n r) \<and>
     (\<forall>from n data dst c. (from, n, data) \<in> n_msgs g \<longrightarrow> carries E data dst c \<longrightarrow> vouches g from dst c) \<and>
     (\<forall>n r dst ps. n_routers g n = Some r \<longrightarrow> r_peerStates r dst = Some ps \<longrightarrow> vouches g (ps_next ps) dst (ps_counter ps)) \<and>
     (\<forall>dst. acyclic (hops g dst))"

text \<open>What is assumed of the libraries: keys can be read back from their encodings.\<close>

definition env_ok :: "('p, 's, 'r) env \<Rightarrow> bool" where
  "env_ok E \<longleftrightarrow> circl_marshals (e_circl E)"

lemma vouches_mono: "vouches g n dst c \<Longrightarrow> c' \<le> c \<Longrightarrow> vouches g n dst c'"
  by (auto simp: vouches_def intro: order_trans)

lemma vouches_along_hops:
  assumes "(m, n) \<in> (hops g dst)\<^sup>*" "vouches g m dst c"
    and "\<And>n r ps. n_routers g n = Some r \<Longrightarrow> r_peerStates r dst = Some ps \<Longrightarrow> vouches g (ps_next ps) dst (ps_counter ps)"
  shows "vouches g n dst c"
  using assms(1)
proof induction
  case base
  show ?case by (rule assms(2))
next
  case (step y z)
  from step.hyps(2) obtain r ps where y: "y \<noteq> dst" "n_routers g y = Some r" "r_peerStates r dst = Some ps" "z = ps_next ps"
    by (auto simp: hops_def)
  with step.IH have "c \<le> ps_counter ps" by (auto simp: vouches_def)
  with assms(3) [OF y(2,3)] y(4) show ?case by (auto intro: vouches_mono)
qed

text \<open>Growing peer states keep every vouching.\<close>

lemma vouches_grow:
  assumes "n_routers g n = Some r" "states_grow (r_peerStates r) (r_peerStates r')" "vouches g m dst c"
  shows "vouches (node_does g n r' acts) m dst c"
proof (cases "m = n \<and> m \<noteq> dst")
  case True
  then obtain ps where "r_peerStates r dst = Some ps" "c \<le> ps_counter ps"
    using assms(1,3) by (auto simp: vouches_def)
  with states_grow_counter [OF assms(2)] obtain ps' where "r_peerStates r' dst = Some ps'" "c \<le> ps_counter ps'"
    by (meson order_trans)
  with True show ?thesis by (auto simp: vouches_def node_does_def)
next
  case False
  with assms(3) show ?thesis by (auto simp: vouches_def node_does_def)
qed

text \<open>
  The central step: a node that takes a fresher entry for \<open>dst\<close> from a peer who vouches for it closes
  no circle, since every node on a path back to it would have to be at least as fresh.
\<close>

lemma acyclic_update:
  assumes acyc: "acyclic R" and R': "R' \<subseteq> insert (n, m) R" and path: "(m, n) \<notin> R\<^sup>*"
  shows "acyclic R'"
proof -
  have "acyclic (insert (n, m) R)" using acyc path by (simp add: acyclic_insert)
  then show ?thesis using R' by (rule acyclic_subset)
qed

lemma hops_node_does:
  "hops (node_does g n r acts) dst \<subseteq>
     hops g dst \<union> (case r_peerStates r dst of None \<Rightarrow> {} | Some ps \<Rightarrow> if n = dst then {} else {(n, ps_next ps)})"
  by (auto simp: hops_def node_does_def split: if_splits)

section \<open>Every step keeps the invariant\<close>

lemma node_does_ok:
  assumes ok: "bnet_ok E g" and r: "n_routers g n = Some r" and r': "router_ok E n r'"
    and grow: "states_grow (r_peerStates r) (r_peerStates r')"
    and entries: "\<And>dst ps'. r_peerStates r' dst = Some ps' \<Longrightarrow>
       r_peerStates r dst = Some ps' \<or>
       vouches g (ps_next ps') dst (ps_counter ps') \<and> (\<forall>ps. r_peerStates r dst = Some ps \<longrightarrow> ps_counter ps < ps_counter ps')"
    and msgs: "\<And>nxt d dst c. Send nxt d \<in> set acts \<Longrightarrow> carries E d dst c \<Longrightarrow> vouches (node_does g n r' acts) n dst c"
  shows "bnet_ok E (node_does g n r' acts)"
proof -
  let ?g = "node_does g n r' acts"
  note v_old = vouches_grow [OF r grow]
  have old_entries: "vouches g (ps_next ps) dst (ps_counter ps)"
    if "n_routers g k = Some q" "r_peerStates q dst = Some ps" for k q dst ps
    using ok that unfolding bnet_ok_def by blast
  have 1: "\<forall>k q. n_routers ?g k = Some q \<longrightarrow> router_ok E k q"
    using ok r' by (auto simp: bnet_ok_def node_does_def)
  have 2: "vouches ?g src dst c" if "(src, k, data) \<in> n_msgs ?g" "carries E data dst c" for src k data dst c
  proof (cases "(src, k, data) \<in> n_msgs g")
    case True
    then have "vouches g src dst c" using ok that(2) unfolding bnet_ok_def by blast
    then show ?thesis by (rule v_old)
  next
    case False
    with that(1) have "src = n" "Send k data \<in> set acts" by (auto simp: node_does_def emitted_def)
    then show ?thesis using msgs [OF _ that(2)] by simp
  qed
  have 3: "vouches ?g (ps_next ps) dst (ps_counter ps)" if "n_routers ?g k = Some q" "r_peerStates q dst = Some ps" for k q dst ps
  proof (cases "k = n")
    case True
    then have "r_peerStates r' dst = Some ps" using that by (simp add: node_does_def)
    then have "vouches g (ps_next ps) dst (ps_counter ps)" using entries old_entries [OF r] by blast
    then show ?thesis by (rule v_old)
  next
    case False
    then have "n_routers g k = Some q" using that(1) by (simp add: node_does_def)
    then show ?thesis using old_entries that(2) v_old by blast
  qed
  have old_acyclic: "acyclic (hops g dst)" for dst using ok by (simp add: bnet_ok_def)
  have 4: "acyclic (hops ?g dst)" for dst
  proof (cases "r_peerStates r' dst")
    case None
    then have "hops ?g dst \<subseteq> hops g dst" using hops_node_does [of g n r' acts dst] by simp
    then show ?thesis using old_acyclic acyclic_subset by blast
  next
    case (Some ps')
    have sub: "hops ?g dst \<subseteq> hops g dst \<union> (if n = dst then {} else {(n, ps_next ps')})"
      using hops_node_does [of g n r' acts dst] Some by simp
    from entries [OF Some] consider (same) "n = dst \<or> r_peerStates r dst = Some ps'"
      | (new) "n \<noteq> dst" "vouches g (ps_next ps') dst (ps_counter ps')" "\<forall>ps. r_peerStates r dst = Some ps \<longrightarrow> ps_counter ps < ps_counter ps'"
      by blast
    then show ?thesis
    proof cases
      case same
      then have "(if n = dst then {} else {(n, ps_next ps')}) \<subseteq> hops g dst" using r by (auto simp: hops_def)
      then have "hops ?g dst \<subseteq> hops g dst" using sub by blast
      then show ?thesis using old_acyclic acyclic_subset by blast
    next
      case new
      have path: "(ps_next ps', n) \<notin> (hops g dst)\<^sup>*"
      proof
        assume "(ps_next ps', n) \<in> (hops g dst)\<^sup>*"
        then have "vouches g n dst (ps_counter ps')"
          using new(2) by (rule vouches_along_hops) (rule old_entries)
        with new(1,3) r show False by (auto simp: vouches_def)
      qed
      have "hops ?g dst \<subseteq> insert (n, ps_next ps') (hops g dst)" using sub new(1) by simp
      from acyclic_update [OF old_acyclic this path] show ?thesis .
    qed
  qed
  show ?thesis
    unfolding bnet_ok_def
  proof (intro conjI)
    show "\<forall>from k data dst c. (from, k, data) \<in> n_msgs ?g \<longrightarrow> carries E data dst c \<longrightarrow> vouches ?g from dst c"
      by (intro allI impI) (rule 2)
    show "\<forall>k q dst ps. n_routers ?g k = Some q \<longrightarrow> r_peerStates q dst = Some ps \<longrightarrow> vouches ?g (ps_next ps) dst (ps_counter ps)"
      by (intro allI impI) (rule 3)
  qed (use 1 4 in simp_all)
qed

text \<open>Which beacons the messages of a router carry.\<close>

lemma carries_header:
  assumes "carries E (make_header r dst' t @ body) dst c"
  shows "t = TypeBeacon \<and> (\<exists>b pk. parseBeacon body = Some b \<and> verifyBeacon E b = Ok pk \<and> env_NewID E pk = Some dst \<and> bc_Counter b = c)"
  using assms by (auto simp: carries_def ParseMessage_header make_header_fields)

lemma verify_own_beacon:
  assumes "env_ok E" "newBeacon E priv t = Some b" "verifyBeacon E b = Ok pk"
  shows "pk = PublicFromPrivate (e_circl E) priv"
proof -
  have "MarshalPublicKey (e_circl E) (e_tags E) [] (PublicFromPrivate (e_circl E) priv) = Some (bc_PublicKey b)"
    using assms(2) by (auto simp: newBeacon_def Let_def bind_eq_Some_conv)
  then have "ParsePublicKey (e_circl E) (bc_PublicKey b) = Ok (PublicFromPrivate (e_circl E) priv)"
    using assms(1) ParsePublicKey_of_marshalled unfolding env_ok_def by blast
  with assms(3) show ?thesis by (auto simp: verifyBeacon_def outcome_simps split: if_splits)
qed

lemma own_beacon_carries:
  assumes "env_ok E" "newBeacon E priv t = Some b" "env_NewID E (PublicFromPrivate (e_circl E) priv) = Some n"
    and "carries E (make_header r dst' mt @ jsonMarshal (Some b)) dst c"
  shows "dst = n"
  using carries_header [OF assms(4)] verify_own_beacon [OF assms(1,2)] assms(1,3) by (auto simp: env_ok_def)

lemma router_ok_fields:
  assumes "router_ok E n r" "r_localID r' = r_localID r" "r_peerStateTTL r' = r_peerStateTTL r" "r_privateKey r' = r_privateKey r"
    and "r_ourBeacon r' = r_ourBeacon r \<or> (\<exists>priv t. r_privateKey r = Some priv \<and> newBeacon E priv t = r_ourBeacon r' \<and> r_ourBeacon r' \<noteq> None)"
  shows "router_ok E n r'"
  using assms unfolding router_ok_def by auto

lemma handleData_not_beacon:
  assumes "ParseMessage data = Ok (hdr, body)" "GetType hdr = TypeData" "handleData r from hdr body = Ok (r, acts)" "Send nxt d \<in> set acts"
  shows "\<not> carries E d dst c"
proof -
  have "d = hdr @ body" "length hdr = 65"
    using assms by (auto simp: handleData_def Let_def ParseMessage_def HeaderSize_def split: option.splits if_splits)
  with assms(2) show ?thesis by (auto simp: carries_def ParseMessage_header TypeData_def TypeBeacon_def)
qed

lemma deliver_ok:
  assumes "env_ok E" "bnet_ok E g" "(from, n, data) \<in> n_msgs g" "n_routers g n = Some r" "HandleBelow E r from data = Some (r', acts)"
  shows "bnet_ok E (node_does g n r' acts)"
  using assms(5)
proof (cases rule: HandleBelow_cases)
  case same
  with assms(2,4) show ?thesis by (intro node_does_ok [where r = r]) (auto simp: bnet_ok_def)
next
  case (data hdr body)
  show ?thesis
  proof (rule node_does_ok [OF assms(2,4)])
    show "router_ok E n r'" using assms(2,4) data(3) by (simp add: bnet_ok_def)
    fix nxt d dst c assume "Send nxt d \<in> set acts" "carries E d dst c"
    with handleData_not_beacon [OF data(1,2,4)] show "vouches (node_does g n r' acts) n dst c" by blast
  qed (use data(3) in simp_all)
next
  case (beacon hdr body b)
  from beacon(4) obtain pk updated created where
    pk: "verifyBeacon E b = Ok pk" and u: "updatePeerState E r from pk (bc_Counter b) = Some (r', updated, created)"
    and sends: "\<And>nxt msg. Send nxt msg \<in> set acts \<Longrightarrow>
       (\<exists>dst. msg = make_header r' dst TypeBeacon @ jsonMarshal (Some b)) \<or>
       created \<and> nxt = from \<and> msg = make_header r' (GetSrc hdr) TypeBeacon @ jsonMarshal (r_ourBeacon r')"
    by (rule handleBeacon_Ok) blast
  from u obtain i where i: "env_NewID E pk = Some i"
    and upd: "updated \<longleftrightarrow> (\<forall>ps. r_peerStates r i = Some ps \<longrightarrow> ps_counter ps < bc_Counter b)"
    and r': "r' = (if updated then r\<lparr>r_peerStates := (r_peerStates r)(i \<mapsto> \<lparr>ps_next = from, ps_counter = bc_Counter b, ps_publicKey = pk\<rparr>)\<rparr> else r)"
    by (rule updatePeerState_Some) blast
  have "router_ok E n r" using assms(2,4) by (simp add: bnet_ok_def)
  then have ok': "router_ok E n r'" by (rule router_ok_fields) (simp_all add: r')
  have "carries E data i (bc_Counter b)" using beacon pk i by (auto simp: carries_def)
  then have from_v: "vouches g from i (bc_Counter b)" using assms(2,3) unfolding bnet_ok_def by blast
  show ?thesis
  proof (rule node_does_ok [OF assms(2,4) ok'])
    show "states_grow (r_peerStates r) (r_peerStates r')" by (rule updatePeerState_grow [OF u])
    fix dst ps' assume "r_peerStates r' dst = Some ps'"
    then show "r_peerStates r dst = Some ps' \<or> vouches g (ps_next ps') dst (ps_counter ps') \<and> (\<forall>ps. r_peerStates r dst = Some ps \<longrightarrow> ps_counter ps < ps_counter ps')"
      using from_v upd unfolding r' by (auto split: if_splits)
  next
    fix nxt d dst c assume s: "Send nxt d \<in> set acts" and c: "carries E d dst c"
    obtain priv t ob where own: "env_NewID E (PublicFromPrivate (e_circl E) priv) = Some n"
        "newBeacon E priv t = Some ob" "r_ourBeacon r' = Some ob"
      using ok' by (auto simp: router_ok_def)
    from sends [OF s] show "vouches (node_does g n r' acts) n dst c"
    proof
      assume "\<exists>dst. d = make_header r' dst TypeBeacon @ jsonMarshal (Some b)"
      then have "dst = i" "c = bc_Counter b" using carries_header c assms(1) pk i by (fastforce simp: env_ok_def)+
      with updatePeerState_has [OF u i] show ?thesis by (auto simp: vouches_def node_does_def)
    next
      assume "created \<and> nxt = from \<and> d = make_header r' (GetSrc hdr) TypeBeacon @ jsonMarshal (r_ourBeacon r')"
      then have "dst = n" using own_beacon_carries [OF assms(1) own(2,1)] c own(3) by simp
      then show ?thesis by (simp add: vouches_def)
    qed
  qed
qed

lemma beat_ok:
  assumes "env_ok E" "bnet_ok E g" "n_routers g n = Some r" "r_lastCleanup r \<le> now" "Heartbeat E r now = Some (r', acts)"
  shows "bnet_ok E (node_does g n r' acts)"
proof -
  have r: "router_ok E n r" using assms(2,3) by (simp add: bnet_ok_def)
  then have "0 < r_peerStateTTL r" by (simp add: router_ok_def)
  from Heartbeat_past [OF assms(5,4) this] show ?thesis
  proof
    assume "(r', acts) = (r, [])"
    with r assms(2,3) show ?thesis by (intro node_does_ok [where r = r]) auto
  next
    assume "\<exists>priv b. r_privateKey r = Some priv \<and> newBeacon E priv now = Some b \<and>
       r' = r\<lparr>r_ourBeacon := Some b, r_lastBeacon := now\<rparr> \<and>
       acts = bn_broadcast r' (r_localID r) TypeBeacon (jsonMarshal (Some b))"
    then obtain priv b where b: "r_privateKey r = Some priv" "newBeacon E priv now = Some b"
      "r' = r\<lparr>r_ourBeacon := Some b, r_lastBeacon := now\<rparr>" "acts = bn_broadcast r' (r_localID r) TypeBeacon (jsonMarshal (Some b))"
      by blast
    have "router_ok E n r'" using r by (rule router_ok_fields) (use b in auto)
    moreover have own: "env_NewID E (PublicFromPrivate (e_circl E) priv) = Some n" using r b(1) by (auto simp: router_ok_def)
    moreover have "dst = n" if "Send nxt d \<in> set acts" "carries E d dst c" for nxt d dst c
      using that own_beacon_carries [OF assms(1) b(2) own] by (auto simp: b(4) bn_broadcast_def)
    ultimately show ?thesis
      using assms(2,3) b(3) by (intro node_does_ok [where r = r]) (auto simp: vouches_def)
  qed
qed

lemma bn_step_ok:
  assumes "bn_step E g g'" "env_ok E" "bnet_ok E g"
  shows "bnet_ok E g'"
  using assms(1)
proof cases
  case (deliver src n data r r' acts)
  then show ?thesis using deliver_ok [OF assms(2,3)] by simp
next
  case (beat n r now r' acts)
  then show ?thesis using beat_ok [OF assms(2,3)] by simp
next
  case (app n r dst data acts ok)
  have "\<not> carries E d dst' c" if "Send nxt d \<in> set acts" for nxt d dst' c
    using that app(3) carries_header [of E r _ TypeData]
    by (fastforce simp: HandleAbove_def bn_send_def TypeData_def TypeBeacon_def split: if_splits option.splits)
  moreover have "router_ok E n r" using app(2) assms(3) by (simp add: bnet_ok_def)
  ultimately show ?thesis
    unfolding app(1) by (intro node_does_ok [OF assms(3) app(2)]) simp_all
next
  case (peers n r ps)
  have "router_ok E n (r\<lparr>r_peers := ps\<rparr>)"
    by (rule router_ok_fields [of E n r]) (use peers assms(3) in \<open>simp_all add: bnet_ok_def\<close>)
  then show ?thesis unfolding peers(1) by (intro node_does_ok [OF assms(3) peers(2)]) simp_all
qed

lemma Reset_router_ok:
  assumes "Reset E priv ps now NewRouter = Some r"
  shows "router_ok E (r_localID r) r \<and> r_peerStates r = Map.empty"
  using assms by (auto simp: Reset_def bind_eq_Some_conv router_ok_def NewRouter_def defaultPeerStateTTL_def)

lemma bn_init_ok:
  assumes "bn_init E g"
  shows "bnet_ok E g"
proof -
  have r: "router_ok E n r \<and> r_peerStates r = Map.empty" if "n_routers g n = Some r" for n r
    using assms that Reset_router_ok unfolding bn_init_def by metis
  then have "hops g dst = {}" for dst by (auto simp: hops_def)
  with r assms show ?thesis by (auto simp: bnet_ok_def bn_init_def acyclic_def)
qed

lemma bn_reachable_ok:
  assumes "(bn_step E)\<^sup>*\<^sup>* g0 g" "env_ok E" "bn_init E g0"
  shows "bnet_ok E g"
  using assms(1)
proof induction
  case base
  show ?case by (rule bn_init_ok [OF assms(3)])
next
  case (step g g')
  show ?case by (rule bn_step_ok [OF step.hyps(2) assms(2) step.IH])
qed

text \<open>Next hops lead to the destination: the relation is finite and has no circles and no dead ends.\<close>

lemma hops_reach:
  assumes ok: "bnet_ok E g" and fin: "finite (dom (n_routers g))"
    and n: "n_routers g n = Some r" "r_peerStates r dst = Some ps" "n \<noteq> dst"
  shows "(n, dst) \<in> (hops g dst)\<^sup>+"
proof -
  let ?next = "\<lambda>k. ps_next (the (r_peerStates (the (n_routers g k)) dst))"
  have "hops g dst \<subseteq> (\<lambda>k. (k, ?next k)) ` dom (n_routers g)" by (force simp: hops_def)
  then have "finite (hops g dst)" using fin by (meson finite_imageI finite_subset)
  moreover have "acyclic (hops g dst)" using ok by (simp add: bnet_ok_def)
  ultimately have "wf ((hops g dst)\<inverse>)" by (rule finite_acyclic_wf_converse)
  then show ?thesis
    using n
  proof (induction n arbitrary: r ps rule: wf_induct_rule)
    case (less n)
    have hop: "(n, ps_next ps) \<in> hops g dst" using less.prems by (auto simp: hops_def)
    have "vouches g (ps_next ps) dst (ps_counter ps)" using ok less.prems unfolding bnet_ok_def by blast
    then consider "ps_next ps = dst" | "ps_next ps \<noteq> dst" "\<exists>r' ps'. n_routers g (ps_next ps) = Some r' \<and> r_peerStates r' dst = Some ps'"
      unfolding vouches_def by blast
    then show ?case
    proof cases
      case 1
      with hop show ?thesis by auto
    next
      case 2
      with less.IH [of "ps_next ps"] hop have "(ps_next ps, dst) \<in> (hops g dst)\<^sup>+" by blast
      with hop show ?thesis by (rule trancl_into_trancl2)
    qed
  qed
qed

section \<open>A network of two nodes\<close>

definition sample_id :: "bool \<Rightarrow> addr" where
  "sample_id k = the (env_NewID sample_env (BasePublic Ed25519 k))"

definition sample_router :: "bool \<Rightarrow> (bool, bool) router" where
  "sample_router k = the (Reset sample_env (BasePrivate Ed25519 k) [sample_id (\<not> k)] 5 NewRouter)"

definition sample_net :: "(bool, bool) bnet" where
  "sample_net = \<lparr>n_routers = [sample_id True \<mapsto> sample_router True, sample_id False \<mapsto> sample_router False], n_msgs = {}\<rparr>"

lemma sample_ids: "env_NewID sample_env (BasePublic Ed25519 k) = Some (sample_id k)" "sample_id True \<noteq> sample_id False"
  subgoal using sample_env_NewID [of Ed25519 k] by (auto simp: sample_id_def)
  subgoal by code_simp
  done

lemma sample_env_ok: "env_ok sample_env"
  by (simp add: env_ok_def sample_env_def sample_circl_marshals)

lemma sample_newBeacon:
  "\<exists>b. newBeacon sample_env (BasePrivate Ed25519 k) t = Some b \<and> verifyBeacon sample_env b = Ok (BasePublic Ed25519 k) \<and> bc_Counter b = of_int t"
proof -
  obtain bs where bs: "MarshalPublicKey sample_circl default_tags [] (BasePublic Ed25519 k) = Some bs"
    using MarshalPublicKey_base [OF sample_circl_marshals default_tags_enumerates] by blast
  from ParsePublicKey_of_marshalled [OF sample_circl_marshals this]
  have p: "ParsePublicKey sample_circl bs = Ok (BasePublic Ed25519 k)" .
  have pub: "PublicFromPrivate sample_circl (BasePrivate Ed25519 k) = BasePublic Ed25519 k"
    by (simp add: PublicFromPrivate_def sample_circl_def)
  have "pki_Sign sample_circl sp (Some ctx) (BasePrivate Ed25519 k) m [] = Some (sample_bytes 64 k)"
    and "pki_Verify sample_circl sp (Some ctx) (BasePublic Ed25519 k) m (sample_bytes 64 k) = Some True" for sp ctx m
    by (simp_all add: pki_Sign_def pki_Verify_def sample_circl_def)
  with bs p pub show ?thesis
    by (simp add: newBeacon_def verifyBeacon_def sample_env_def Let_def del: sample_bytes.simps)
qed

lemma sample_reset:
  "\<exists>b. Reset sample_env (BasePrivate Ed25519 k) [sample_id (\<not> k)] 5 NewRouter = Some (sample_router k) \<and>
     sample_router k = NewRouter\<lparr>r_privateKey := Some (BasePrivate Ed25519 k), r_peers := [sample_id (\<not> k)],
        r_localID := sample_id k, r_ourBeacon := Some b, r_peerStates := Map.empty\<rparr>"
proof -
  obtain b where b: "newBeacon sample_env (BasePrivate Ed25519 k) 5 = Some b" using sample_newBeacon by blast
  have "PublicFromPrivate (e_circl sample_env) (BasePrivate Ed25519 k) = BasePublic Ed25519 k"
    by (simp add: PublicFromPrivate_def sample_env_def sample_circl_def)
  with b sample_ids(1) show ?thesis by (intro exI [of _ b]) (simp add: sample_router_def Reset_def)
qed

lemma sample_net_init: "bn_init sample_env sample_net"
  using sample_reset [of True] sample_reset [of False] sample_ids(2)
  by (auto simp: bn_init_def sample_net_def split: if_splits)

lemma sample_net_run:
  "\<exists>g r ps. (bn_step sample_env)\<^sup>*\<^sup>* sample_net g \<and> finite (dom (n_routers g)) \<and>
     n_routers g (sample_id False) = Some r \<and> r_peerStates r (sample_id True) = Some ps \<and> n_routers g (sample_id True) \<noteq> None"
proof -
  let ?A = "sample_id True" and ?B = "sample_id False"
  obtain oa where ra: "sample_router True = NewRouter\<lparr>r_privateKey := Some (BasePrivate Ed25519 True), r_peers := [?B],
        r_localID := ?A, r_ourBeacon := Some oa, r_peerStates := Map.empty\<rparr>" using sample_reset [of True] by auto
  obtain ob where rb: "sample_router False = NewRouter\<lparr>r_privateKey := Some (BasePrivate Ed25519 False), r_peers := [?A],
        r_localID := ?B, r_ourBeacon := Some ob, r_peerStates := Map.empty\<rparr>" using sample_reset [of False] by auto
  obtain b where b: "newBeacon sample_env (BasePrivate Ed25519 True) 9 = Some b" "verifyBeacon sample_env b = Ok (BasePublic Ed25519 True)"
    using sample_newBeacon by blast
  have "\<exists>r'. Heartbeat sample_env (sample_router True) 9 = Some (r', [Send ?B (make_header (sample_router True) broadcastAddr TypeBeacon @ jsonMarshal (Some b))])"
    using b sample_ids(2) unfolding ra
    by (simp add: Heartbeat_def NewRouter_def time_Sub_def zero_time_def defaultBeaconPeriod_def defaultPeerStateTTL_def
        bn_broadcast_def make_header_def Let_def sample_env_def)
  then obtain r' where hb: "Heartbeat sample_env (sample_router True) 9 =
      Some (r', [Send ?B (make_header (sample_router True) broadcastAddr TypeBeacon @ jsonMarshal (Some b))])" by blast
  let ?msg = "make_header (sample_router True) broadcastAddr TypeBeacon @ jsonMarshal (Some b)"
  let ?g1 = "node_does sample_net ?A r' [Send ?B ?msg]"
  have "r_lastCleanup (sample_router True) \<le> 9" by (simp add: ra NewRouter_def zero_time_def)
  then have s1: "bn_step sample_env sample_net ?g1"
    using hb sample_ids(2) by (intro bn_step.beat [where r = "sample_router True" and now = 9]) (auto simp: sample_net_def)
  have un: "parseBeacon (jsonMarshal (Some b)) = Some b" by (simp add: sample_env_def)
  have "\<exists>r'' acts ps. HandleBelow sample_env (sample_router False) ?A ?msg = Some (r'', acts) \<and> r_peerStates r'' ?A = Some ps"
    using b(2) un sample_ids unfolding rb
    by (simp add: HandleBelow_def handleMessage_def ParseMessage_header make_header_fields handleBeacon_def updatePeerState_def Let_def)
  then obtain r'' acts ps where hd: "HandleBelow sample_env (sample_router False) ?A ?msg = Some (r'', acts)" "r_peerStates r'' ?A = Some ps"
    by blast
  have s2: "bn_step sample_env ?g1 (node_does ?g1 ?B r'' acts)"
    using hd(1) sample_ids(2)
    by (intro bn_step.deliver [where r = "sample_router False" and data = ?msg and src = ?A])
      (auto simp: sample_net_def node_does_def emitted_def)
  show ?thesis
    using s1 s2 hd(2) sample_ids(2)
    by (intro exI [of _ "node_does ?g1 ?B r'' acts"] exI [of _ r''] exI [of _ ps] conjI)
      (auto simp: node_does_def sample_net_def intro: rtranclp.intros)
qed

section \<open>Properties\<close>

text \<open>
  C1: routing is free of loops: in every state the network can reach, however messages are delayed,
  repeated, reordered or lost, following the next hops towards a destination never comes back to a
  node it has left.
\<close>

theorem beacon_routing_loop_free:
  assumes "env_ok E" "bn_init E g0" "(bn_step E)\<^sup>*\<^sup>* g0 g"
  shows "acyclic (hops g dst)"
  using bn_reachable_ok [OF assms(3,1,2)] by (simp add: bnet_ok_def)

theorem beacon_routing_loop_free_witness: "acyclic (hops sample_net (sample_id True))"
  by (rule beacon_routing_loop_free [OF sample_env_ok sample_net_init rtranclp.rtrancl_refl])

text \<open>
  C2: routes lead somewhere: in every reachable state of a finite network, the next hops from a node
  that has an entry for a destination end at that destination.
\<close>

theorem beacon_routes_reach_destination:
  assumes "env_ok E" "bn_init E g0" "(bn_step E)\<^sup>*\<^sup>* g0 g" "finite (dom (n_routers g))"
    and "n_routers g n = Some r" "r_peerStates r dst = Some ps" "n \<noteq> dst"
  shows "(n, dst) \<in> (hops g dst)\<^sup>+"
  by (rule hops_reach [OF bn_reachable_ok [OF assms(3,1,2)] assms(4-7)])

theorem beacon_routes_reach_destination_witness:
  "\<exists>g. (bn_step sample_env)\<^sup>*\<^sup>* sample_net g \<and> (sample_id False, sample_id True) \<in> (hops g (sample_id True))\<^sup>+"
proof -
  obtain g r ps where g: "(bn_step sample_env)\<^sup>*\<^sup>* sample_net g" "finite (dom (n_routers g))"
      "n_routers g (sample_id False) = Some r" "r_peerStates r (sample_id True) = Some ps"
    using sample_net_run by blast
  from beacon_routes_reach_destination [OF sample_env_ok sample_net_init this] g(1) sample_ids(2) show ?thesis by metis
qed

section \<open>Data reaches its destination\<close>

text \<open>
  The journey of a data message through the routers of a state, from the node \<open>n\<close> that receives it: it
  ends at the node that hands it to the application, with the source and the body found there.
\<close>

fun journey :: "('p, 's, 'r) env \<Rightarrow> ('p, 's) bnet \<Rightarrow> nat \<Rightarrow> addr \<Rightarrow> addr \<Rightarrow> bytes \<Rightarrow> (addr \<times> addr \<times> bytes) option" where
  "journey E g 0 prev n data = None"
| "journey E g (Suc fuel) prev n data =
     (case n_routers g n of
        None \<Rightarrow> None
      | Some r \<Rightarrow> (case HandleBelow E r prev data of
            Some (r', [OnData src body]) \<Rightarrow> Some (n, src, body)
          | Some (r', [Send nxt m]) \<Rightarrow> journey E g fuel n nxt m
          | _ \<Rightarrow> None))"

lemma HandleBelow_data_header:
  assumes "length h = 65" "GetType h = TypeData"
  shows "HandleBelow E r prev (h @ body) = Some (r,
     if GetDst h = r_localID r then [OnData (GetSrc h) body]
     else if GetDst h \<in> set (r_peers r) then [Send (GetDst h) (h @ body)]
     else case r_peerStates r (GetDst h) of None \<Rightarrow> [] | Some ps \<Rightarrow> [Send (ps_next ps) (h @ body)])"
  using assms by (auto simp: HandleBelow_def handleMessage_def ParseMessage_header handleData_def lookupPeerState_def
      TypeData_def TypeBeacon_def split: option.splits)

lemma journey_at_destination:
  assumes "bnet_ok E g" "n_routers g dst = Some rd" "length h = 65" "GetType h = TypeData" "GetDst h = dst"
  shows "journey E g (Suc 0) prev dst (h @ body) = Some (dst, GetSrc h, body)"
  using assms by (auto simp: HandleBelow_data_header bnet_ok_def router_ok_def)

lemma journey_along_hops:
  assumes ok: "bnet_ok E g" and rd: "n_routers g dst = Some rd"
    and h: "length h = 65" "GetType h = TypeData" "GetDst h = dst"
    and path: "(m, dst) \<in> (hops g dst)\<^sup>*"
  shows "\<exists>fuel. \<forall>prev. journey E g fuel prev m (h @ body) = Some (dst, GetSrc h, body)"
  using path
proof (induction rule: converse_rtrancl_induct)
  case base
  show ?case using journey_at_destination [OF ok rd h] by blast
next
  case (step m m')
  then obtain r ps where r: "m \<noteq> dst" "n_routers g m = Some r" "r_peerStates r dst = Some ps" "m' = ps_next ps"
    by (auto simp: hops_def)
  with ok have id: "r_localID r = m" by (simp add: bnet_ok_def router_ok_def)
  obtain fuel where fuel: "\<And>prev. journey E g fuel prev m' (h @ body) = Some (dst, GetSrc h, body)"
    using step.IH by blast
  let ?k = "if dst \<in> set (r_peers r) then Suc 0 else fuel"
  have "journey E g (Suc ?k) prev m (h @ body) = Some (dst, GetSrc h, body)" for prev
    using r id fuel journey_at_destination [OF ok rd h]
    by (simp add: HandleBelow_data_header [OF h(1,2)] h(3) del: One_nat_def)
  then show ?case by blast
qed

text \<open>
  C3: in every reachable state of a finite network, what the application of a node sends to a
  destination for which the node has a route is accepted, and the routers of that state carry it to
  the destination, which hands the same bytes to its application under the address of the sender.
\<close>

theorem beacon_data_delivered:
  assumes "env_ok E" "bn_init E g0" "(bn_step E)\<^sup>*\<^sup>* g0 g" "finite (dom (n_routers g))"
    and "n_routers g n = Some r" "r_peerStates r dst = Some ps" "n \<noteq> dst"
    and "n_routers g dst = Some rd" "is_addr n" "is_addr dst"
  shows "\<exists>nxt m fuel. HandleAbove r dst data = ([Send nxt m], True) \<and> journey E g fuel n nxt m = Some (dst, n, data)"
proof -
  have ok: "bnet_ok E g" by (rule bn_reachable_ok [OF assms(3,1,2)])
  then have id: "r_localID r = n" using assms(5) by (simp add: bnet_ok_def router_ok_def)
  let ?h = "make_header r dst TypeData"
  have h: "length ?h = 65" "GetType ?h = TypeData" "GetDst ?h = dst" "GetSrc ?h = n"
    using assms(9,10) id by (simp_all add: make_header_fields)
  have "(ps_next ps, dst) \<in> (hops g dst)\<^sup>*"
    using tranclD [OF hops_reach [OF ok assms(4-7)]] assms(5,6) by (auto simp: hops_def)
  then obtain fuel where fuel: "journey E g fuel n (ps_next ps) (?h @ data) = Some (dst, n, data)"
    using journey_along_hops [OF ok assms(8) h(1-3)] h(4) by metis
  show ?thesis
  proof (cases "dst \<in> set (r_peers r)")
    case True
    then show ?thesis
      using journey_at_destination [OF ok assms(8) h(1-3), of n data] h(4)
      by (intro exI [of _ dst] exI [of _ "?h @ data"] exI [of _ "Suc 0"]) (simp add: HandleAbove_def bn_send_def)
  next
    case False
    with fuel assms(6) show ?thesis
      by (intro exI [of _ "ps_next ps"] exI [of _ "?h @ data"] exI [of _ fuel])
        (simp add: HandleAbove_def bn_send_def lookupPeerState_def)
  qed
qed

theorem beacon_data_delivered_witness:
  "\<exists>g r nxt m fuel. (bn_step sample_env)\<^sup>*\<^sup>* sample_net g \<and> n_routers g (sample_id False) = Some r \<and>
     HandleAbove r (sample_id True) [1, 2] = ([Send nxt m], True) \<and>
     journey sample_env g fuel (sample_id False) nxt m = Some (sample_id True, sample_id False, [1, 2])"
proof -
  obtain g r ps where g: "(bn_step sample_env)\<^sup>*\<^sup>* sample_net g" "finite (dom (n_routers g))"
      "n_routers g (sample_id False) = Some r" "r_peerStates r (sample_id True) = Some ps" "n_routers g (sample_id True) \<noteq> None"
    using sample_net_run by blast
  have "is_addr (sample_id False)" "is_addr (sample_id True)" by code_simp+
  with beacon_data_delivered [OF sample_env_ok sample_net_init g(1-4), of _ "[1, 2]"] g sample_ids(2) show ?thesis by auto
qed

end
