(* ===== verification/Futures.thy ===== *)
theory Futures
  imports Prelude
begin

text \<open>
  The package \<^verbatim>\<open>go.brendoncarroll.net/exp/futures\<close>, which the sources use for pending requests and which
  is not part of them: a record of its operations, over which the callers are defined.
\<close>

text \<open>
  The operations of \<^verbatim>\<open>futures.Store\<close> and \<^verbatim>\<open>futures.Promise\<close> on a state \<open>'s\<close> that holds the store and its
  promises. \<open>fs_forEach\<close> lists the entries in the order \<^verbatim>\<open>ForEach\<close> visits them; \<open>fs_succeed\<close> tells
  whether this call fulfilled the promise, \<open>fs_fail\<close> completes it with an error, and \<open>fs_await\<close> waits for
  it, while other goroutines may change the state.
\<close>

record ('s, 'k, 'f, 'v, 'e) futures =
  fs_getOrCreate :: "'s \<Rightarrow> 'k \<Rightarrow> 's \<times> 'f \<times> bool"
  fs_get :: "'s \<Rightarrow> 'k \<Rightarrow> 'f option"
  fs_forEach :: "'s \<Rightarrow> ('k \<times> 'f) list"
  fs_succeed :: "'s \<Rightarrow> 'f \<Rightarrow> 'v \<Rightarrow> 's \<times> bool"
  fs_fail :: "'s \<Rightarrow> 'f \<Rightarrow> 'e \<Rightarrow> 's \<times> bool"
  fs_delete :: "'s \<Rightarrow> 'k \<Rightarrow> 'f \<Rightarrow> 's"
  fs_await :: "'s \<Rightarrow> 'f \<Rightarrow> 's \<times> ('e, 'v) outcome"

text \<open>A store as a list of keys with the result of their future, used for concrete runs.\<close>

definition sample_complete :: "('k \<times> 'r option) list \<Rightarrow> nat \<Rightarrow> 'r \<Rightarrow> ('k \<times> 'r option) list \<times> bool" where
  "sample_complete s i v = (case snd (s ! i) of None \<Rightarrow> (s[i := (fst (s ! i), Some v)], True) | Some _ \<Rightarrow> (s, False))"

definition sample_futures :: "(('k \<times> ('e, 'v) outcome option) list, 'k, nat, 'v, 'e) futures" where
  "sample_futures = \<lparr>fs_getOrCreate = (\<lambda>s k. (s @ [(k, None)], length s, True)),
     fs_get = (\<lambda>s k. map_option snd (find (\<lambda>(k', i). k' = k) (zip (map fst s) [0..<length s]))),
     fs_forEach = (\<lambda>s. zip (map fst s) [0..<length s]),
     fs_succeed = (\<lambda>s i v. sample_complete s i (Ok v)),
     fs_fail = (\<lambda>s i e. sample_complete s i (Err e)),
     fs_delete = (\<lambda>s k f. s),
     fs_await = (\<lambda>s i. (s, case snd (s ! i) of None \<Rightarrow> Panic | Some r \<Rightarrow> r))\<rparr>"

end
