(* ===== verification/Routers.thy ===== *)
theory Routers
  imports Beaconnet Futures
begin

text \<open>
  The template that turns a router into a network, \<^verbatim>\<open>mesh256/routers/routers.go\<close>. A router's handlers
  return the calls they make on their context; this theory says what the network does with each
  call: messages go to the swarm or to the application, addresses and public keys fulfil the requests
  that wait for them. The package \<^verbatim>\<open>futures\<close> and the retry helper are not part of the sources and are
  parameters: a record of operations, and a function that runs an attempt until it succeeds.
\<close>

section \<open>The network\<close>

text \<open>
  The state of a \<^verbatim>\<open>Network\<close>: its identity, the router, the two stores of pending requests, the messages
  handed to \<^verbatim>\<open>Swarm.Tell\<close> and the messages delivered to the application, both in order.
\<close>

record ('p, 'r, 's, 't) network =
  n_publicKey :: "'p public_key"
  n_localID :: addr
  n_router :: 'r
  n_findAddr :: 's
  n_lookupPubKey :: 't
  n_told :: "(addr \<times> bytes) list"
  n_hub :: "(addr \<times> addr \<times> bytes) list"

definition TransportMTU :: int where "TransportMTU = 2 ^ 17"

datatype 'e tell_error = SwarmError 'e | AddrUnreachable addr

text \<open>\<open>reset\<close> is the router's \<^verbatim>\<open>Reset\<close>; the two stores start empty.\<close>

definition NewNetwork ::
  "('p, 's, 'q) env \<Rightarrow> ('r \<Rightarrow> 'r option) \<Rightarrow> 's private_key \<Rightarrow> 'a \<Rightarrow> 'b \<Rightarrow> 'r \<Rightarrow> ('p, 'r, 'a, 'b) network option" where
  "NewNetwork E reset priv addrs keys r =
     (let publicKey = PublicFromPrivate (e_circl E) priv
      in Option.bind (env_NewID E publicKey) (\<lambda>i.
         Option.bind (reset r) (\<lambda>r'.
         Some \<lparr>n_publicKey = publicKey, n_localID = i, n_router = r', n_findAddr = addrs, n_lookupPubKey = keys,
               n_told = [], n_hub = []\<rparr>)))"

text \<open>
  One attempt of \<^verbatim>\<open>Tell\<close>. The error of the last failing \<^verbatim>\<open>Send\<close> is kept in \<^verbatim>\<open>retErr\<close>, which is looked at
  only when the router did not accept the message.
\<close>

fun swarm_error :: "(addr \<Rightarrow> bytes \<Rightarrow> 'e option) \<Rightarrow> 'p action list \<Rightarrow> 'e option \<Rightarrow> 'e option" where
  "swarm_error tell [] retErr = retErr"
| "swarm_error tell (Send dst data # as) retErr =
     swarm_error tell as (case tell dst data of None \<Rightarrow> retErr | Some e \<Rightarrow> Some e)"
| "swarm_error tell (_ # as) retErr = swarm_error tell as retErr"

definition tell_attempt ::
  "('r \<Rightarrow> addr \<Rightarrow> bytes \<Rightarrow> 'p action list \<times> bool) \<Rightarrow> (addr \<Rightarrow> bytes \<Rightarrow> 'e option) \<Rightarrow> 'r \<Rightarrow> addr \<Rightarrow> bytes \<Rightarrow>
   ('e tell_error, unit) outcome" where
  "tell_attempt handleAbove tell r dst data =
     (let (acts, ok) = handleAbove r dst data; retErr = swarm_error tell acts None
      in if ok then Ok ()
         else case retErr of Some e \<Rightarrow> Err (SwarmError e) | None \<Rightarrow> Err (AddrUnreachable dst))"

text \<open>
  \<^verbatim>\<open>Tell\<close> repeats the attempt within its three seconds. \<open>routers\<close> are the states the router has at the
  attempts that fit into that time; \<open>retry\<close> picks the result of the call from theirs.
\<close>

definition Tell ::
  "(('e tell_error, unit) outcome list \<Rightarrow> ('e tell_error, unit) outcome) \<Rightarrow>
   ('r \<Rightarrow> addr \<Rightarrow> bytes \<Rightarrow> 'p action list \<times> bool) \<Rightarrow> (addr \<Rightarrow> bytes \<Rightarrow> 'e option) \<Rightarrow> 'r list \<Rightarrow> addr \<Rightarrow> bytes \<Rightarrow>
   ('e tell_error, unit) outcome" where
  "Tell retry handleAbove tell routers dst data = retry (map (\<lambda>r. tell_attempt handleAbove tell r dst data) routers)"

section \<open>Requests\<close>

text \<open>What a router sends while it looks something up goes to the swarm; errors are only logged.\<close>

fun sends :: "'p action list \<Rightarrow> (addr \<times> bytes) list" where
  "sends [] = []"
| "sends (Send dst data # as) = (dst, data) # sends as"
| "sends (_ # as) = sends as"

text \<open>The attempt of \<^verbatim>\<open>FindAddr\<close> and of \<^verbatim>\<open>LookupPublicKey\<close>: ask the router, then wait for the future.\<close>

definition await_request ::
  "('s, 'k, 'f, 'v, 'e) futures \<Rightarrow> 'v option \<Rightarrow> 'f \<Rightarrow> 's \<Rightarrow> 's \<times> ('e, 'v) outcome" where
  "await_request F found fut s =
     (let s1 = (case found of None \<Rightarrow> s | Some x \<Rightarrow> fst (fs_succeed F s fut x)) in fs_await F s1 fut)"

definition findAddr_attempt ::
  "('s, bit_string, 'f, addr, 'e) futures \<Rightarrow> ('r \<Rightarrow> bytes \<Rightarrow> int \<Rightarrow> 'p action list \<times> addr option) \<Rightarrow> bytes \<Rightarrow> int \<Rightarrow> 'f \<Rightarrow>
   ('p, 'r, 's, 't) network \<Rightarrow> ('p, 'r, 's, 't) network \<times> ('e, addr) outcome" where
  "findAddr_attempt F router_FindAddr pfx nbits fut n =
     (let (acts, maybeAddr) = router_FindAddr (n_router n) pfx nbits;
          (s, res) = await_request F maybeAddr fut (n_findAddr n)
      in (n\<lparr>n_told := n_told n @ sends acts, n_findAddr := s\<rparr>, res))"

definition lookupPublicKey_attempt ::
  "('t, addr, 'f, 'p public_key, 'e) futures \<Rightarrow> ('r \<Rightarrow> addr \<Rightarrow> 'p action list \<times> 'p public_key option) \<Rightarrow> addr \<Rightarrow> 'f \<Rightarrow>
   ('p, 'r, 's, 't) network \<Rightarrow> ('p, 'r, 's, 't) network \<times> ('e, 'p public_key) outcome" where
  "lookupPublicKey_attempt F router_LookupPublicKey target fut n =
     (let (acts, maybePub) = router_LookupPublicKey (n_router n) target;
          (s, res) = await_request F maybePub fut (n_lookupPubKey n)
      in (n\<lparr>n_told := n_told n @ sends acts, n_lookupPubKey := s\<rparr>, res))"

text \<open>\<open>retry\<close> runs the attempt on the network until it succeeds or the context ends.\<close>

definition net_FindAddr ::
  "('s, bit_string, 'f, addr, 'e) futures \<Rightarrow>
   ((('p, 'r, 's, 't) network \<Rightarrow> ('p, 'r, 's, 't) network \<times> ('e, addr) outcome) \<Rightarrow>
     ('p, 'r, 's, 't) network \<Rightarrow> ('p, 'r, 's, 't) network \<times> ('e, addr) outcome) \<Rightarrow>
   ('r \<Rightarrow> bytes \<Rightarrow> int \<Rightarrow> 'p action list \<times> addr option) \<Rightarrow> ('p, 'r, 's, 't) network \<Rightarrow> bytes \<Rightarrow> int \<Rightarrow>
   (('p, 'r, 's, 't) network \<times> ('e, addr) outcome) option" where
  "net_FindAddr F retry router_FindAddr n pfx nbits =
     Option.bind (FromSource (BytesMSB pfx 0 nbits)) (\<lambda>bs.
       let (s, fut, created) = fs_getOrCreate F (n_findAddr n) bs;
           (n1, res) = retry (findAddr_attempt F router_FindAddr pfx nbits fut) (n\<lparr>n_findAddr := s\<rparr>)
       in Some (if created then n1\<lparr>n_findAddr := fs_delete F (n_findAddr n1) bs fut\<rparr> else n1, res))"

definition net_LookupPublicKey ::
  "('t, addr, 'f, 'p public_key, 'e) futures \<Rightarrow>
   ((('p, 'r, 's, 't) network \<Rightarrow> ('p, 'r, 's, 't) network \<times> ('e, 'p public_key) outcome) \<Rightarrow>
     ('p, 'r, 's, 't) network \<Rightarrow> ('p, 'r, 's, 't) network \<times> ('e, 'p public_key) outcome) \<Rightarrow>
   (addr \<Rightarrow> bool) \<Rightarrow> (addr \<Rightarrow> ('e, 'p public_key) outcome) \<Rightarrow> ('r \<Rightarrow> addr \<Rightarrow> 'p action list \<times> 'p public_key option) \<Rightarrow>
   ('p, 'r, 's, 't) network \<Rightarrow> addr \<Rightarrow> ('p, 'r, 's, 't) network \<times> ('e, 'p public_key) outcome" where
  "net_LookupPublicKey F retry peers_Contains swarm_LookupPublicKey router_LookupPublicKey n target =
     (if peers_Contains target then (n, swarm_LookupPublicKey target)
      else let (s, fut, created) = fs_getOrCreate F (n_lookupPubKey n) target;
               (n1, res) = retry (lookupPublicKey_attempt F router_LookupPublicKey target fut) (n\<lparr>n_lookupPubKey := s\<rparr>)
           in (if created then n1\<lparr>n_lookupPubKey := fs_delete F (n_lookupPubKey n1) target fut\<rparr> else n1, res))"

definition handleAddr_visit ::
  "('s, bit_string, 'f, addr, 'e) futures \<Rightarrow> bit_string \<Rightarrow> addr \<Rightarrow> bit_string \<times> 'f \<Rightarrow> 's \<times> bool \<Rightarrow> ('s \<times> bool) option" where
  "handleAddr_visit F bs target = (\<lambda>(pfx, fut) (s, ret).
     Option.bind (bitstr_HasPrefix (StringSrc bs) (StringSrc pfx)) (\<lambda>b.
       if b then (let (s', ok) = fs_succeed F s fut target in Some (s', ok \<or> ret)) else Some (s, ret)))"

definition handleAddr ::
  "('s, bit_string, 'f, addr, 'e) futures \<Rightarrow> addr \<Rightarrow> 's \<Rightarrow> ('s \<times> bool) option" where
  "handleAddr F target s =
     Option.bind (FromSource (BytesMSB target 0 256)) (\<lambda>bs.
       pfold (handleAddr_visit F bs target) (fs_forEach F s) (s, False))"

definition handlePublicKey ::
  "('t, addr, 'f, 'p public_key, 'e) futures \<Rightarrow> addr \<Rightarrow> 'p public_key \<Rightarrow> 't \<Rightarrow> 't \<times> bool" where
  "handlePublicKey F target publicKey s =
     (case fs_get F s target of Some fut \<Rightarrow> fs_succeed F s fut publicKey | None \<Rightarrow> (s, False))"

definition getPublicKey :: "(addr \<Rightarrow> ('e, 'p public_key) outcome) \<Rightarrow> addr \<Rightarrow> 'p public_key option" where
  "getPublicKey lookup x = (case lookup x of Ok k \<Rightarrow> Some k | _ \<Rightarrow> None)"

section \<open>The loops\<close>

text \<open>What the network does with one call of a router; an error of \<^verbatim>\<open>Swarm.Tell\<close> is only logged.\<close>

fun perform ::
  "('s, bit_string, 'f, addr, 'e) futures \<Rightarrow> ('t, addr, 'g, 'p public_key, 'e) futures \<Rightarrow> 'p action \<Rightarrow>
   ('p, 'r, 's, 't) network \<Rightarrow> ('p, 'r, 's, 't) network option" where
  "perform F G (Send dst data) n = Some (n\<lparr>n_told := n_told n @ [(dst, data)]\<rparr>)"
| "perform F G (OnData src data) n = Some (n\<lparr>n_hub := n_hub n @ [(src, n_localID n, data)]\<rparr>)"
| "perform F G (OnAddr a) n =
     Option.bind (handleAddr F a (n_findAddr n)) (\<lambda>(s, _). Some (n\<lparr>n_findAddr := s\<rparr>))"
| "perform F G (OnPublicKey a k) n = Some (n\<lparr>n_lookupPubKey := fst (handlePublicKey G a k (n_lookupPubKey n))\<rparr>)"

text \<open>\<open>below\<close> is the router's \<^verbatim>\<open>HandleBelow\<close>; the messages are those the swarm delivers, in order.\<close>

definition handle_received ::
  "('s, bit_string, 'f, addr, 'e) futures \<Rightarrow> ('t, addr, 'g, 'p public_key, 'e) futures \<Rightarrow>
   ('r \<Rightarrow> addr \<Rightarrow> bytes \<Rightarrow> ('r \<times> 'p action list) option) \<Rightarrow> addr \<times> bytes \<Rightarrow>
   ('p, 'r, 's, 't) network \<Rightarrow> ('p, 'r, 's, 't) network option" where
  "handle_received F G below = (\<lambda>(src, payload) n.
     Option.bind (below (n_router n) src payload) (\<lambda>(r, acts). pfold (perform F G) acts (n\<lparr>n_router := r\<rparr>)))"

definition readLoop ::
  "('s, bit_string, 'f, addr, 'e) futures \<Rightarrow> ('t, addr, 'g, 'p public_key, 'e) futures \<Rightarrow>
   ('r \<Rightarrow> addr \<Rightarrow> bytes \<Rightarrow> ('r \<times> 'p action list) option) \<Rightarrow> (addr \<times> bytes) list \<Rightarrow>
   ('p, 'r, 's, 't) network \<Rightarrow> ('p, 'r, 's, 't) network option" where
  "readLoop F G below msgs n = pfold (handle_received F G below) msgs n"

text \<open>One round of \<^verbatim>\<open>heartbeatLoop\<close> per tick; with a period of zero the loop returns at once.\<close>

definition heartbeatLoop ::
  "('s, bit_string, 'f, addr, 'e) futures \<Rightarrow> ('t, addr, 'g, 'p public_key, 'e) futures \<Rightarrow>
   ('r \<Rightarrow> int \<Rightarrow> ('r \<times> 'p action list) option) \<Rightarrow> int \<Rightarrow> int list \<Rightarrow>
   ('p, 'r, 's, 't) network \<Rightarrow> ('p, 'r, 's, 't) network option" where
  "heartbeatLoop F G heartbeat d ticks n =
     (if d = 0 then Some n
      else pfold (\<lambda>now n. Option.bind (heartbeat (n_router n) now) (\<lambda>(r, acts).
             pfold (perform F G) acts (n\<lparr>n_router := r\<rparr>))) ticks n)"

definition net_MTU :: "(int \<Rightarrow> int) \<Rightarrow> int" where
  "net_MTU router_MTU = router_MTU TransportMTU"
section \<open>Requests are answered by matching addresses\<close>

lemma key_bits:
  assumes "FromSource (BytesMSB p 0 (int n)) = Some key" "0 < n" "n \<le> 8 * length p"
  shows "denotes (StringSrc key) (take n (bits_msb p))"
  using FromSource_ok [OF denotes_BytesMSB [of 0 n p]] assms by auto

lemma target_bits:
  assumes "is_addr target"
  obtains bs where "FromSource (BytesMSB target 0 256) = Some bs" "denotes (StringSrc bs) (bits_msb target)"
  using FromSource_ok [OF denotes_BytesMSB [of 0 256 target]] assms by (auto simp: is_addr_def AddrSize_def)

lemma prefix_take_iff:
  assumes "n \<le> length ps"
  shows "prefix (take n ps) xs \<longleftrightarrow> n \<le> length xs \<and> take n xs = take n ps"
proof
  assume "prefix (take n ps) xs"
  with assms show "n \<le> length xs \<and> take n xs = take n ps"
    using take_eq_iff_prefix [of "take n ps" xs] prefix_length_le [of "take n ps" xs] by simp
qed (metis take_is_prefix)

text \<open>The prefix test on bit strings and the one on byte slices agree.\<close>

lemma HasPrefix_agree:
  assumes "is_addr target" "denotes (StringSrc bs) (bits_msb target)"
    and "FromSource (BytesMSB p 0 (int n)) = Some key" "0 < n" "n \<le> 8 * length p"
  shows "bitstr_HasPrefix (StringSrc bs) (StringSrc key) = Some (id_HasPrefix target p (int n))"
  using assms bitstr_HasPrefix_ok [OF assms(2) key_bits [OF assms(3-5)]] prefix_take_iff [of n "bits_msb p" "bits_msb target"]
  by (simp add: id_HasPrefix_bits del: msb_pos_def)

text \<open>A pending request of \<^verbatim>\<open>FindAddr\<close>: the prefix, its length, and the future stored under its key.\<close>

definition request_key :: "bytes \<times> nat \<times> 'f \<Rightarrow> bit_string \<times> 'f" where
  "request_key = (\<lambda>(p, n, fut). (the (FromSource (BytesMSB p 0 (int n))), fut))"

definition request_ok :: "bytes \<times> nat \<times> 'f \<Rightarrow> bool" where
  "request_ok = (\<lambda>(p, n, fut). 0 < n \<and> n \<le> 8 * length p)"

definition fulfil :: "('s, 'k, 'f, addr, 'e) futures \<Rightarrow> addr \<Rightarrow> bytes \<times> nat \<times> 'f \<Rightarrow> 's \<times> bool \<Rightarrow> 's \<times> bool" where
  "fulfil F target = (\<lambda>(p, n, fut) (s, ret). let (s', ok) = fs_succeed F s fut target in (s', ok \<or> ret))"

lemma handleAddr_visit_request:
  assumes "is_addr target" "denotes (StringSrc bs) (bits_msb target)" "request_ok (p, n, fut)"
  shows "handleAddr_visit F bs target (request_key (p, n, fut)) (s, ret) =
     Some (if id_HasPrefix target p (int n) then fulfil F target (p, n, fut) (s, ret) else (s, ret))"
proof -
  have n: "0 < n" "n \<le> 8 * length p" using assms(3) by (simp_all add: request_ok_def)
  then obtain key where "FromSource (BytesMSB p 0 (int n)) = Some key"
    using FromSource_ok [OF denotes_BytesMSB [of 0 n p]] by auto
  with HasPrefix_agree [OF assms(1,2) this n] show ?thesis
    by (simp add: handleAddr_visit_def request_key_def fulfil_def split: prod.splits)
qed

lemma handleAddr_requests:
  assumes "is_addr target" "denotes (StringSrc bs) (bits_msb target)" "list_all request_ok reqs"
  shows "pfold (handleAddr_visit F bs target) (map request_key reqs) (s, ret) =
     Some (fold (fulfil F target) (filter (\<lambda>(p, n, fut). id_HasPrefix target p (int n)) reqs) (s, ret))"
  using assms(3)
proof (induction reqs arbitrary: s ret)
  case (Cons r reqs)
  obtain p n fut where [simp]: "r = (p, n, fut)" by (cases r)
  obtain s' ret' where f: "fulfil F target r (s, ret) = (s', ret')" by (cases "fulfil F target r (s, ret)")
  show ?case
    using Cons.IH Cons.prems f handleAddr_visit_request [OF assms(1,2), of p n fut F s ret] by simp
qed simp

lemma sample_prefix:
  "id_HasPrefix (IDFromBytes [5]) [5] (int 8)" "\<not> id_HasPrefix (IDFromBytes [5]) [6] (int 8)"
  by code_simp+


section \<open>Sending and receiving\<close>

lemma HandleAbove_peer:
  "dst \<in> set (r_peers r) \<Longrightarrow> HandleAbove r dst data = ([Send dst (make_header r dst TypeData @ data)], True)"
  by (simp add: HandleAbove_def bn_send_def)

lemma HandleBelow_local:
  assumes "is_addr (r_localID r)" "is_addr (r_localID r')" "dst = r_localID r'"
  shows "HandleBelow E r' src (make_header r dst TypeData @ data) = Some (r', [OnData (r_localID r) data])"
  using assms by (simp add: HandleBelow_def handleMessage_def ParseMessage_header make_header_fields handleData_def
      TypeData_def TypeBeacon_def)

lemma network_router_idem [simp]: "n\<lparr>n_router := n_router n\<rparr> = n"
  by simp

text \<open>
  C27: a message for a peer arrives: \<^verbatim>\<open>Tell\<close> reports success after one message to the swarm, and the read
  loop of the peer's network hands the application the same bytes, with the sender's address as the
  source and its own as the destination.
\<close>

theorem peer_message_arrives:
  assumes "dst \<in> set (r_peers r)" "is_addr (r_localID r)" "is_addr dst"
    and "r_localID (n_router peer) = dst" "n_localID peer = dst"
  shows "\<exists>msg. sends (fst (HandleAbove r dst data)) = [(dst, msg)] \<and>
     tell_attempt HandleAbove (\<lambda>_ _. None) r dst data = (Ok () :: ('e tell_error, unit) outcome) \<and>
     readLoop F G (HandleBelow E) [(r_localID r, msg)] peer = Some (peer\<lparr>n_hub := n_hub peer @ [(r_localID r, dst, data)]\<rparr>)"
proof -
  have below: "HandleBelow E (n_router peer) (r_localID r) (make_header r dst TypeData @ data) =
      Some (n_router peer, [OnData (r_localID r) data])"
    using assms by (intro HandleBelow_local) auto
  then show ?thesis
    using HandleAbove_peer [OF assms(1), of data] assms(5)
    by (simp add: tell_attempt_def readLoop_def handle_received_def)
qed

definition sample_network :: "(bool, (bool, bool) router, (bit_string \<times> (unit, addr) outcome option) list, (addr \<times> (unit, bool public_key) outcome option) list) network" where
  "sample_network = \<lparr>n_publicKey = BasePublic Ed25519 True, n_localID = IDFromBytes [7],
     n_router = NewRouter\<lparr>r_localID := IDFromBytes [7]\<rparr>, n_findAddr = [], n_lookupPubKey = [], n_told = [], n_hub = []\<rparr>"

theorem peer_message_arrives_witness:
  "\<exists>msg. readLoop sample_futures sample_futures (HandleBelow sample_env) [(IDFromBytes [6], msg)] sample_network =
     Some (sample_network\<lparr>n_hub := [(IDFromBytes [6], IDFromBytes [7], [1, 2, 3])]\<rparr>)"
proof -
  let ?r = "NewRouter\<lparr>r_peers := [IDFromBytes [7]], r_localID := IDFromBytes [6]\<rparr> :: (bool, bool) router"
  show ?thesis
    using peer_message_arrives [of "IDFromBytes [7]" ?r sample_network "[1, 2, 3]" sample_futures sample_futures sample_env, where ?'e = unit]
    by (auto simp: sample_network_def)
qed

text \<open>
  What the router sends for the application fits the transport: a message no longer than the
  \<^verbatim>\<open>MTU\<close> of the network, which leaves room for every INET256 message of up to 65535 bytes, becomes
  messages no longer than \<^verbatim>\<open>TransportMTU\<close>.
\<close>

theorem messages_fit_transport:
  assumes "int (length data) \<le> net_MTU bn_MTU" "(nxt, msg) \<in> set (sends (fst (HandleAbove r dst data)))"
  shows "int (length msg) \<le> TransportMTU \<and> 2 ^ 16 - 1 \<le> net_MTU bn_MTU"
  using assms
  by (auto simp: HandleAbove_def bn_send_def net_MTU_def bn_MTU_def TransportMTU_def HeaderSize_def split: if_splits option.splits)

theorem messages_fit_transport_witness:
  "int (length (make_header (NewRouter\<lparr>r_peers := [IDFromBytes [7]]\<rparr> :: (bool, bool) router) (IDFromBytes [7]) TypeData @ [1, 2, 3])) \<le> TransportMTU"
  using messages_fit_transport [of "[1, 2, 3]" "IDFromBytes [7]"
      "make_header (NewRouter\<lparr>r_peers := [IDFromBytes [7]]\<rparr> :: (bool, bool) router) (IDFromBytes [7]) TypeData @ [1, 2, 3]"
      "NewRouter\<lparr>r_peers := [IDFromBytes [7]]\<rparr> :: (bool, bool) router" "IDFromBytes [7]"]
  by (simp add: HandleAbove_peer net_MTU_def bn_MTU_def TransportMTU_def HeaderSize_def)

text \<open>
  An attempt of \<^verbatim>\<open>Tell\<close> hides transport errors: once the router accepts the message the attempt
  succeeds, whatever \<^verbatim>\<open>Swarm.Tell\<close> returned, so nothing is retried.
\<close>

theorem tell_attempt_hides_errors:
  assumes "snd (HandleAbove r dst data)"
  shows "tell_attempt HandleAbove tell r dst data = Ok ()"
  using assms by (auto simp: tell_attempt_def split: prod.splits)

theorem tell_attempt_hides_errors_witness:
  "tell_attempt HandleAbove (\<lambda>_ _. Some ''link down'') (NewRouter\<lparr>r_peers := [IDFromBytes [7]]\<rparr> :: (bool, bool) router) (IDFromBytes [7]) [1] = Ok ()"
  by (rule tell_attempt_hides_errors) (simp add: HandleAbove_peer)

text \<open>An attempt for an unknown destination sends nothing and reports it as unreachable.\<close>

lemma tell_attempt_unknown:
  "dst \<notin> set (r_peers r) \<Longrightarrow> r_peerStates r dst = None \<Longrightarrow>
   tell_attempt HandleAbove tell r dst data = Err (AddrUnreachable dst)"
  by (simp add: tell_attempt_def HandleAbove_def lookupPeerState_def)

text \<open>Handling received messages never changes the identity of a network.\<close>

lemma perform_identity:
  "perform F G a n = Some n' \<Longrightarrow> n_localID n' = n_localID n \<and> n_publicKey n' = n_publicKey n \<and> n_router n' = n_router n"
  by (cases a) (auto split: Option.bind_splits)

lemma pfold_perform_identity:
  "pfold (perform F G) as n = Some n' \<Longrightarrow> n_localID n' = n_localID n \<and> n_publicKey n' = n_publicKey n \<and> n_router n' = n_router n"
proof (induction as arbitrary: n)
  case (Cons a as)
  then obtain n1 where "perform F G a n = Some n1" "pfold (perform F G) as n1 = Some n'"
    by (auto split: Option.bind_splits)
  with Cons.IH perform_identity [of F G a n n1] show ?case by simp
qed simp

end
