(* ===== verification/Ipc.thy ===== *)
theory Ipc
  imports Pki Json Futures
begin

text \<open>
  Access to a node from another process, \<^verbatim>\<open>inet256ipc\<close>: the messages (\<^verbatim>\<open>message.go\<close>), their framing on a
  byte stream (\<^verbatim>\<open>stream.go\<close>), the server that runs a node for a client (\<^verbatim>\<open>server.go\<close>) and the client
  that is itself a node (\<^verbatim>\<open>client.go\<close>). A buffer is a list of bytes; a function that fills one returns
  its new contents with the length written, or \<open>None\<close> where it panics.
\<close>

section \<open>Messages\<close>

definition MT_Data :: u32 where "MT_Data = 0x44415441"

definition MT_PublicKey :: u32 where "MT_PublicKey = 0x5055424B"

definition MT_FindAddr :: u32 where "MT_FindAddr = 0x46494E44"

definition MT_KeepAlive :: u32 where "MT_KeepAlive = 0x4B454550"

definition MaxMessageLen :: nat where "MaxMessageLen = 4 + 32 + MTU"

definition MinMessageLen :: nat where "MinMessageLen = 4"

definition ReqIDLen :: nat where "ReqIDLen = 16"

definition MinDataMsgLen :: nat where "MinDataMsgLen = MinMessageLen + 32"

definition MinAskMsgLen :: nat where "MinAskMsgLen = MinMessageLen + ReqIDLen"

datatype ipc_error =
  MessageTooShort nat | DataTooShort | NoRequestID u32 | UnrecognizedType u32 | NotExpecting u32 |
  IpcJson json_error | Remote string | IpcKey pki_error

definition msg_GetType :: "bytes \<Rightarrow> u32 option" where
  "msg_GetType m = map_option get_be32 (goslice m 0 4)"

definition msg_SetType :: "bytes \<Rightarrow> u32 \<Rightarrow> bytes option" where
  "msg_SetType m mt = (if 4 \<le> length m then Some (gocopy_at m 0 4 (put_be32 mt)) else None)"

definition AsMessage :: "bytes \<Rightarrow> (ipc_error, bytes) outcome" where
  "AsMessage x =
     (if length x < MinMessageLen then Err (MessageTooShort (length x))
      else obind (unwinds (msg_GetType x)) (\<lambda>t.
        if t = MT_Data then (if length x < MinDataMsgLen then Err DataTooShort else Ok x)
        else if t = MT_FindAddr \<or> t = MT_PublicKey then (if length x < MinAskMsgLen then Err (NoRequestID t) else Ok x)
        else if t = MT_KeepAlive then Ok x
        else Err (UnrecognizedType t)))"

definition IsTell :: "bytes \<Rightarrow> bool option" where
  "IsTell m = map_option (\<lambda>t. t = MT_Data \<or> t = MT_KeepAlive) (msg_GetType m)"

definition IsAsk :: "bytes \<Rightarrow> bool option" where
  "IsAsk m = map_option (\<lambda>t. t = MT_FindAddr \<or> t = MT_PublicKey) (msg_GetType m)"

definition DataPayload :: "bytes \<Rightarrow> bytes option" where
  "DataPayload m = goslice m (4 + 32) (length m)"

record data_msg =
  dm_Addr :: addr
  dm_Payload :: bytes

definition DataMsg :: "bytes \<Rightarrow> data_msg option" where
  "DataMsg m =
     Option.bind (goslice m 4 (4 + 32)) (\<lambda>a.
     Option.bind (DataPayload m) (\<lambda>p. Some \<lparr>dm_Addr = IDFromBytes a, dm_Payload = p\<rparr>))"

definition GetRequestID :: "bytes \<Rightarrow> bytes option" where
  "GetRequestID m = goslice m 4 (4 + 16)"

definition SetRequestID :: "bytes \<Rightarrow> bytes \<Rightarrow> bytes option" where
  "SetRequestID m i = (if 4 + 16 \<le> length m then Some (gocopy_at m 4 (4 + 16) i) else None)"

definition AskBody :: "bytes \<Rightarrow> bytes option" where
  "AskBody m = goslice m (4 + 16) (length m)"

text \<open>\<^verbatim>\<open>copyExact(m[i:j], src)\<close>: both lengths must agree.\<close>

definition copyExact :: "bytes \<Rightarrow> nat \<Rightarrow> nat \<Rightarrow> bytes \<Rightarrow> bytes option" where
  "copyExact m i j src = (if i \<le> j \<and> j \<le> length m \<and> length src = j - i then Some (gocopy_at m i j src) else None)"

text \<open>The message is the prefix \<^verbatim>\<open>dst[:l]\<close>, which shares the memory of \<open>dst\<close>.\<close>

definition WriteDataMessage :: "bytes \<Rightarrow> addr \<Rightarrow> bytes \<Rightarrow> (bytes \<times> nat) option" where
  "WriteDataMessage dst a data =
     (let l = 4 + 32 + length data
      in Option.bind (goslice dst 0 l) (\<lambda>m.
         Option.bind (msg_SetType m MT_Data) (\<lambda>m.
         Option.bind (copyExact m 4 (4 + 32) a) (\<lambda>m.
         Option.bind (copyExact m (4 + 32) l data) (\<lambda>m. Some (m @ drop l dst, l))))))"

definition WriteKeepAlive :: "bytes \<Rightarrow> (bytes \<times> nat) option" where
  "WriteKeepAlive dst =
     Option.bind (goslice dst 0 4) (\<lambda>m. Option.bind (msg_SetType m MT_KeepAlive) (\<lambda>m. Some (m @ drop 4 dst, 4)))"

definition WriteAskMessage :: "bytes \<Rightarrow> bytes \<Rightarrow> u32 \<Rightarrow> json \<Rightarrow> (bytes \<times> nat) option" where
  "WriteAskMessage dst reqID mtype x =
     (let data = json_Marshal x; l = 4 + 16 + length data
      in Option.bind (goslice dst 0 l) (\<lambda>m.
         Option.bind (msg_SetType m mtype) (\<lambda>m.
         Option.bind (SetRequestID m reqID) (\<lambda>m.
         Option.bind (copyExact m (4 + 16) l data) (\<lambda>m. Some (m @ drop l dst, l))))))"

definition WriteRequest :: "bytes \<Rightarrow> bytes \<Rightarrow> u32 \<Rightarrow> json \<Rightarrow> (bytes \<times> nat) option" where
  "WriteRequest dst reqID mtype x = WriteAskMessage dst reqID mtype x"

section \<open>Requests and responses\<close>

record FindAddrReq =
  fq_Prefix :: bytes
  fq_Nbits :: int

record 'a Response =
  rs_Success :: 'a
  rs_Error :: string

definition FindAddrReq_json :: "FindAddrReq \<Rightarrow> json" where
  "FindAddrReq_json q = JObj [(''prefix'', JBytes (fq_Prefix q)), (''nbits'', JInt (fq_Nbits q))]"

definition FindAddrReq_fields :: "(string \<times> FindAddrReq decoder) list" where
  "FindAddrReq_fields =
     [(''prefix'', into fq_Prefix (\<lambda>v q. q\<lparr>fq_Prefix := v\<rparr>) decode_bytes),
      (''nbits'', into fq_Nbits (\<lambda>v q. q\<lparr>fq_Nbits := v\<rparr>) decode_int)]"

text \<open>The other structures have one field, and are identified with it.\<close>

definition FindAddrRes_json :: "addr \<Rightarrow> json" where
  "FindAddrRes_json a = JObj [(''addr'', JAddr a)]"

definition FindAddrRes_fields :: "(string \<times> addr decoder) list" where
  "FindAddrRes_fields = [(''addr'', decode_addr)]"

definition LookupPublicKeyReq_json :: "addr \<Rightarrow> json" where
  "LookupPublicKeyReq_json a = JObj [(''target'', JAddr a)]"

definition LookupPublicKeyReq_fields :: "(string \<times> addr decoder) list" where
  "LookupPublicKeyReq_fields = [(''target'', decode_addr)]"

text \<open>An empty slice is omitted.\<close>

definition LookupPublicKeyRes_json :: "bytes \<Rightarrow> json" where
  "LookupPublicKeyRes_json k = JObj (if k = [] then [] else [(''public_key'', JBytes k)])"

definition LookupPublicKeyRes_fields :: "(string \<times> bytes decoder) list" where
  "LookupPublicKeyRes_fields = [(''public_key'', decode_bytes)]"

text \<open>The option \<^verbatim>\<open>omitempty\<close> has no effect on a field that is a structure.\<close>

definition Response_json :: "json \<Rightarrow> string \<Rightarrow> json" where
  "Response_json ok err = JObj ((''ok'', ok) # (if err = '''' then [] else [(''error'', JStr err)]))"

definition Response_fields :: "(string \<times> 'a decoder) list \<Rightarrow> (string \<times> 'a Response decoder) list" where
  "Response_fields fs =
     [(''ok'', into rs_Success (\<lambda>v r. r\<lparr>rs_Success := v\<rparr>) (decode_struct fs)),
      (''error'', into rs_Error (\<lambda>v r. r\<lparr>rs_Error := v\<rparr>) decode_string)]"

definition WriteSuccess :: "bytes \<Rightarrow> bytes \<Rightarrow> u32 \<Rightarrow> json \<Rightarrow> (bytes \<times> nat) option" where
  "WriteSuccess dst reqID mtype x = WriteAskMessage dst reqID mtype (Response_json x '''')"

text \<open>\<open>zero\<close> is the text of the zero value of the response type.\<close>

definition WriteError :: "bytes \<Rightarrow> bytes \<Rightarrow> u32 \<Rightarrow> json \<Rightarrow> string \<Rightarrow> (bytes \<times> nat) option" where
  "WriteError dst reqID mtype zero err = WriteAskMessage dst reqID mtype (Response_json zero err)"

definition parseJSON :: "(string \<times> 'a decoder) list \<Rightarrow> 'a \<Rightarrow> bytes \<Rightarrow> (ipc_error, 'a) outcome" where
  "parseJSON fs zero x =
     (case json_Unmarshal (decode_struct fs) x zero of Ok y \<Rightarrow> Ok y | Err e \<Rightarrow> Err (IpcJson e) | Panic \<Rightarrow> Panic)"

definition msg_FindAddrReq :: "bytes \<Rightarrow> (ipc_error, FindAddrReq) outcome" where
  "msg_FindAddrReq m =
     obind (unwinds (AskBody m)) (parseJSON FindAddrReq_fields \<lparr>fq_Prefix = [], fq_Nbits = 0\<rparr>)"

definition msg_LookupPublicKeyReq :: "bytes \<Rightarrow> (ipc_error, addr) outcome" where
  "msg_LookupPublicKeyReq m = obind (unwinds (AskBody m)) (parseJSON LookupPublicKeyReq_fields zero_addr)"

text \<open>\<^verbatim>\<open>FindAddrRes\<close> and \<^verbatim>\<open>LookupPublicKeyRes\<close> read a response the same way.\<close>

definition msg_Res :: "(string \<times> 'a decoder) list \<Rightarrow> 'a \<Rightarrow> bytes \<Rightarrow> (ipc_error, 'a) outcome" where
  "msg_Res fs zero m =
     obind (unwinds (AskBody m)) (\<lambda>body.
     obind (parseJSON (Response_fields fs) \<lparr>rs_Success = zero, rs_Error = ''''\<rparr> body) (\<lambda>res.
       if rs_Error res \<noteq> '''' then Err (Remote (rs_Error res)) else Ok (rs_Success res)))"

definition msg_FindAddrRes :: "bytes \<Rightarrow> (ipc_error, addr) outcome" where
  "msg_FindAddrRes m = msg_Res FindAddrRes_fields zero_addr m"

definition msg_LookupPublicKeyRes :: "bytes \<Rightarrow> (ipc_error, bytes) outcome" where
  "msg_LookupPublicKeyRes m = msg_Res LookupPublicKeyRes_fields [] m"
section \<open>Framing\<close>

definition maxFrameLen :: nat where "maxFrameLen = MaxMessageLen + 4"

datatype 'e stream_error = DataTooLong | MaxLengthExceeded u32 | EOF | UnexpectedEOF | ShortWrite | WriteFailed 'e

text \<open>\<open>write\<close> is the underlying writer; the result of a successful send is what the stream has gained.\<close>

definition framer_Send :: "(bytes \<Rightarrow> nat \<times> 'e option) \<Rightarrow> bytes \<Rightarrow> ('e stream_error, bytes) outcome" where
  "framer_Send write data =
     (if length data > MaxMessageLen then Err DataTooLong
      else let v = put_be32 (of_nat (length data)) @ data; (n, err) = write v
           in case err of
                Some e \<Rightarrow> Err (WriteFailed e)
              | None \<Rightarrow> if n \<noteq> length data + 4 then Err ShortWrite else Ok v)"

text \<open>\<^verbatim>\<open>io.ReadFull\<close> on a stream that holds \<open>s\<close> and then ends.\<close>

definition ReadFull :: "nat \<Rightarrow> bytes \<Rightarrow> ('e stream_error, bytes \<times> bytes) outcome" where
  "ReadFull n s = (if n \<le> length s then Ok (take n s, drop n s) else if s = [] then Err EOF else Err UnexpectedEOF)"

definition framer_Receive :: "bytes \<Rightarrow> ('e stream_error, bytes \<times> bytes) outcome" where
  "framer_Receive s =
     obind (ReadFull 4 s) (\<lambda>(lbuf, s1).
       let l = get_be32 lbuf
       in if unat l > MaxMessageLen then Err (MaxLengthExceeded l) else ReadFull (unat l) s1)"

fun receive_all :: "nat \<Rightarrow> bytes \<Rightarrow> ('e stream_error, bytes list \<times> bytes) outcome" where
  "receive_all 0 s = Ok ([], s)"
| "receive_all (Suc n) s =
     obind (framer_Receive s) (\<lambda>(m, s'). obind (receive_all n s') (\<lambda>(ms, s''). Ok (m # ms, s'')))"

section \<open>The server\<close>

text \<open>What the server uses of the node it runs; errors of a node appear as their text.\<close>

record 'p node_ops =
  nd_FindAddr :: "bytes \<Rightarrow> int \<Rightarrow> (string, addr) outcome"
  nd_LookupPublicKey :: "addr \<Rightarrow> (string, 'p public_key) outcome"

text \<open>The result holds the response buffer and the length written to it.\<close>

definition handleAsk ::
  "('p, 's, 'r) circl \<Rightarrow> string list \<Rightarrow> 'p node_ops \<Rightarrow> bytes \<Rightarrow> bytes \<Rightarrow> (ipc_error, bytes \<times> nat) outcome" where
  "handleAsk c ks node msg resBuf =
     obind (unwinds (msg_GetType msg)) (\<lambda>t.
       if t = MT_FindAddr then
         obind (msg_FindAddrReq msg) (\<lambda>req.
         obind (unwinds (GetRequestID msg)) (\<lambda>reqID.
           case nd_FindAddr node (fq_Prefix req) (fq_Nbits req) of
             Err e \<Rightarrow> unwinds (WriteError resBuf reqID MT_FindAddr (FindAddrRes_json zero_addr) e)
           | Ok a \<Rightarrow> unwinds (WriteSuccess resBuf reqID MT_FindAddr (FindAddrRes_json a))
           | Panic \<Rightarrow> Panic))
       else if t = MT_PublicKey then
         obind (msg_LookupPublicKeyReq msg) (\<lambda>target.
         obind (unwinds (GetRequestID msg)) (\<lambda>reqID.
           case nd_LookupPublicKey node target of
             Err e \<Rightarrow> unwinds (WriteError resBuf reqID MT_PublicKey (LookupPublicKeyRes_json []) e)
           | Ok k \<Rightarrow> obind (unwinds (MarshalPublicKey c ks [] k)) (\<lambda>data.
                      unwinds (WriteSuccess resBuf reqID MT_PublicKey (LookupPublicKeyRes_json data)))
           | Panic \<Rightarrow> Panic))
       else if t = MT_KeepAlive then Ok (resBuf, 0)
       else Err (UnrecognizedType t))"

datatype serve_effect = ToNode addr bytes | ToClient bytes

text \<open>
  The handler of one message from the client. A request is copied into a buffer of \<open>maxFrameLen\<close>
  bytes, and whatever \<^verbatim>\<open>handleAsk\<close> has written, nothing included, is sent as the response.
\<close>

definition serve_message ::
  "('p, 's, 'r) circl \<Rightarrow> string list \<Rightarrow> 'p node_ops \<Rightarrow> bytes \<Rightarrow> bytes \<Rightarrow> serve_effect list option" where
  "serve_message c ks node resBuf data =
     (case AsMessage data of
        Err e \<Rightarrow> Some []
      | Panic \<Rightarrow> None
      | Ok msg \<Rightarrow>
          Option.bind (msg_GetType msg) (\<lambda>t.
            if t = MT_Data then Option.bind (DataMsg msg) (\<lambda>dm. Some [ToNode (dm_Addr dm) (dm_Payload dm)])
            else if t = MT_KeepAlive then Some []
            else (case handleAsk c ks node (take maxFrameLen data) resBuf of
                    Ok (buf, n) \<Rightarrow> Some [ToClient (take n buf)]
                  | Err e \<Rightarrow> Some [ToClient []]
                  | Panic \<Rightarrow> None)))"

definition serve_reads ::
  "('p, 's, 'r) circl \<Rightarrow> string list \<Rightarrow> 'p node_ops \<Rightarrow> bytes \<Rightarrow> bytes list \<Rightarrow> serve_effect list option" where
  "serve_reads c ks node resBuf msgs =
     pfold (\<lambda>m acc. map_option (\<lambda>es. acc @ es) (serve_message c ks node resBuf m)) msgs []"

text \<open>A message the node has received, as it is sent to the client.\<close>

definition serve_forward :: "bytes \<Rightarrow> addr \<times> bytes \<Rightarrow> bytes option" where
  "serve_forward buf = (\<lambda>(src, payload). map_option (\<lambda>(b, n). take n b) (WriteDataMessage buf src payload))"

text \<open>
  The watchdog of the server: when the timer fires, a message must have arrived since it was set.
  The result tells whether the server is still running after the events.
\<close>

datatype ka_event = GotMessage | TimerFired

fun serve_alive :: "ka_event list \<Rightarrow> bool \<Rightarrow> bool" where
  "serve_alive [] gotOne = True"
| "serve_alive (GotMessage # es) gotOne = serve_alive es True"
| "serve_alive (TimerFired # es) gotOne = (gotOne \<and> serve_alive es False)"

section \<open>The client\<close>

record ('s, 't) node_client =
  c_localAddr :: addr
  c_findAddrs :: 's
  c_lookupPubs :: 't
  c_hub :: "(addr \<times> addr \<times> bytes) list"

definition client_handleMessage ::
  "('p, 'k, 'r) circl \<Rightarrow> ('s, bytes, 'f, addr, ipc_error) futures \<Rightarrow> ('t, bytes, 'g, 'p public_key, ipc_error) futures \<Rightarrow>
   ('s, 't) node_client \<Rightarrow> bytes \<Rightarrow> (ipc_error, ('s, 't) node_client) outcome" where
  "client_handleMessage ci F G c x =
     obind (AsMessage x) (\<lambda>msg.
     obind (unwinds (msg_GetType msg)) (\<lambda>mt.
       if mt = MT_Data then
         obind (unwinds (DataMsg msg)) (\<lambda>dm. Ok (c\<lparr>c_hub := c_hub c @ [(dm_Addr dm, c_localAddr c, dm_Payload dm)]\<rparr>))
       else if mt = MT_FindAddr then
         obind (unwinds (GetRequestID msg)) (\<lambda>i.
           case fs_get F (c_findAddrs c) i of
             None \<Rightarrow> Ok c
           | Some fut \<Rightarrow>
               (case msg_FindAddrRes msg of
                  Ok a \<Rightarrow> Ok (c\<lparr>c_findAddrs := fst (fs_succeed F (c_findAddrs c) fut a)\<rparr>)
                | Err e \<Rightarrow> Ok (c\<lparr>c_findAddrs := fst (fs_fail F (c_findAddrs c) fut e)\<rparr>)
                | Panic \<Rightarrow> Panic))
       else if mt = MT_PublicKey then
         obind (unwinds (GetRequestID msg)) (\<lambda>i.
           case fs_get G (c_lookupPubs c) i of
             None \<Rightarrow> Ok c
           | Some fut \<Rightarrow>
               (case obind (msg_LookupPublicKeyRes msg) (\<lambda>data. case ParsePublicKey ci data of Ok k \<Rightarrow> Ok k | Err e \<Rightarrow> Err (IpcKey e) | Panic \<Rightarrow> Panic) of
                  Ok k \<Rightarrow> Ok (c\<lparr>c_lookupPubs := fst (fs_succeed G (c_lookupPubs c) fut k)\<rparr>)
                | Err e \<Rightarrow> Ok (c\<lparr>c_lookupPubs := fst (fs_fail G (c_lookupPubs c) fut e)\<rparr>)
                | Panic \<Rightarrow> Panic))
       else if mt = MT_KeepAlive then Ok c
       else Err (NotExpecting mt)))"

text \<open>An error of one message is logged and the loop goes on.\<close>

definition client_readLoop ::
  "('p, 'k, 'r) circl \<Rightarrow> ('s, bytes, 'f, addr, ipc_error) futures \<Rightarrow> ('t, bytes, 'g, 'p public_key, ipc_error) futures \<Rightarrow>
   bytes list \<Rightarrow> ('s, 't) node_client \<Rightarrow> ('s, 't) node_client option" where
  "client_readLoop ci F G msgs c =
     pfold (\<lambda>x c. case client_handleMessage ci F G c x of Ok c' \<Rightarrow> Some c' | Err e \<Rightarrow> Some c | Panic \<Rightarrow> None) msgs c"

text \<open>What \<^verbatim>\<open>Send\<close> and the requests hand to the transport.\<close>

definition client_Send :: "addr \<Rightarrow> bytes \<Rightarrow> bytes option" where
  "client_Send dst data = map_option (\<lambda>(b, n). take n b) (WriteDataMessage (replicate MaxMessageLen 0) dst data)"

definition client_sendRequest :: "bytes \<Rightarrow> u32 \<Rightarrow> json \<Rightarrow> bytes option" where
  "client_sendRequest reqID mtype req =
     map_option (\<lambda>(b, n). take n b) (WriteRequest (replicate MaxMessageLen 0) reqID mtype req)"

text \<open>\<open>send\<close> is the transport; the result is the new state with the answer of the request.\<close>

definition client_FindAddr ::
  "('s, bytes, 'f, addr, ipc_error) futures \<Rightarrow> (bytes \<Rightarrow> ipc_error option) \<Rightarrow> bytes \<Rightarrow> ('s, 't) node_client \<Rightarrow> bytes \<Rightarrow> int \<Rightarrow>
   (('s, 't) node_client \<times> (ipc_error, addr) outcome) option" where
  "client_FindAddr F send reqID c pfx nbits =
     (let (s1, fut, created) = fs_getOrCreate F (c_findAddrs c) reqID
      in Option.bind (client_sendRequest reqID MT_FindAddr (FindAddrReq_json \<lparr>fq_Prefix = pfx, fq_Nbits = nbits\<rparr>)) (\<lambda>req.
         let (s2, res) = (case send req of Some e \<Rightarrow> (s1, Err e) | None \<Rightarrow> fs_await F s1 fut)
         in Some (c\<lparr>c_findAddrs := fs_delete F s2 reqID fut\<rparr>, res)))"

definition client_LookupPublicKey ::
  "('t, bytes, 'g, 'p public_key, ipc_error) futures \<Rightarrow> (bytes \<Rightarrow> ipc_error option) \<Rightarrow> bytes \<Rightarrow> ('s, 't) node_client \<Rightarrow> addr \<Rightarrow>
   (('s, 't) node_client \<times> (ipc_error, 'p public_key) outcome) option" where
  "client_LookupPublicKey G send reqID c target =
     (let (s1, fut, created) = fs_getOrCreate G (c_lookupPubs c) reqID
      in Option.bind (client_sendRequest reqID MT_PublicKey (LookupPublicKeyReq_json target)) (\<lambda>req.
         let (s2, res) = (case send req of Some e \<Rightarrow> (s1, Err e) | None \<Rightarrow> fs_await G s1 fut)
         in Some (c\<lparr>c_lookupPubs := fs_delete G s2 reqID fut\<rparr>, res)))"

section \<open>The layout of messages\<close>

lemma gocopy_at_exact:
  "i \<le> j \<Longrightarrow> j \<le> length m \<Longrightarrow> length src = j - i \<Longrightarrow> gocopy_at m i j src = take i m @ src @ drop j m"
  by (simp add: gocopy_at_def gocopy_exact)

lemma copyExact_ok:
  "i \<le> j \<Longrightarrow> j \<le> length m \<Longrightarrow> length src = j - i \<Longrightarrow> copyExact m i j src = Some (take i m @ src @ drop j m)"
  by (simp add: copyExact_def gocopy_at_exact)

lemma WriteDataMessage_ok:
  assumes "is_addr a" "4 + 32 + length data \<le> length dst"
  shows "WriteDataMessage dst a data =
     Some ((put_be32 MT_Data @ a @ data) @ drop (4 + 32 + length data) dst, 4 + 32 + length data)"
  using assms
  by (simp add: WriteDataMessage_def goslice_def msg_SetType_def gocopy_at_exact copyExact_ok is_addr_def AddrSize_def Let_def)

lemma WriteDataMessage_panics:
  "length dst < 4 + 32 + length data \<Longrightarrow> WriteDataMessage dst a data = None"
  by (simp add: WriteDataMessage_def goslice_def Let_def)

lemma WriteAskMessage_ok:
  assumes "length reqID = 16" "4 + 16 + length (json_Marshal x) \<le> length dst"
  shows "WriteAskMessage dst reqID mt x =
     Some ((put_be32 mt @ reqID @ json_Marshal x) @ drop (4 + 16 + length (json_Marshal x)) dst, 4 + 16 + length (json_Marshal x))"
  using assms
  by (simp add: WriteAskMessage_def goslice_def msg_SetType_def gocopy_at_exact copyExact_ok SetRequestID_def Let_def)

lemma msg_GetType_put [simp]: "msg_GetType (put_be32 t @ rest) = Some t"
  by (simp add: msg_GetType_def goslice_def)

lemma mt_distinct [simp]:
  "MT_Data \<noteq> MT_PublicKey" "MT_Data \<noteq> MT_FindAddr" "MT_Data \<noteq> MT_KeepAlive"
  "MT_PublicKey \<noteq> MT_Data" "MT_FindAddr \<noteq> MT_Data" "MT_KeepAlive \<noteq> MT_Data"
  "MT_PublicKey \<noteq> MT_FindAddr" "MT_PublicKey \<noteq> MT_KeepAlive" "MT_FindAddr \<noteq> MT_PublicKey" "MT_FindAddr \<noteq> MT_KeepAlive"
  by (simp_all add: MT_Data_def MT_PublicKey_def MT_FindAddr_def MT_KeepAlive_def)

lemma AsMessage_data: "is_addr a \<Longrightarrow> AsMessage (put_be32 MT_Data @ a @ data) = Ok (put_be32 MT_Data @ a @ data)"
  by (simp add: AsMessage_def MinMessageLen_def MinDataMsgLen_def is_addr_def AddrSize_def)

lemma DataMsg_data: "is_addr a \<Longrightarrow> DataMsg (put_be32 MT_Data @ a @ data) = Some \<lparr>dm_Addr = a, dm_Payload = data\<rparr>"
  by (simp add: DataMsg_def DataPayload_def goslice_def is_addr_def AddrSize_def IDFromBytes_addr)

lemma AsMessage_ask:
  "length reqID = 16 \<Longrightarrow> mt = MT_FindAddr \<or> mt = MT_PublicKey \<Longrightarrow>
   AsMessage (put_be32 mt @ reqID @ body) = Ok (put_be32 mt @ reqID @ body)"
  by (auto simp: AsMessage_def MinMessageLen_def MinAskMsgLen_def ReqIDLen_def)

lemma ask_fields:
  assumes "length reqID = 16"
  shows "GetRequestID (put_be32 mt @ reqID @ body) = Some reqID" "AskBody (put_be32 mt @ reqID @ body) = Some body"
  using assms by (simp_all add: GetRequestID_def AskBody_def goslice_def)

section \<open>Framing loses nothing\<close>

lemma framer_Receive_frame:
  assumes "length m \<le> MaxMessageLen"
  shows "framer_Receive (put_be32 (of_nat (length m)) @ m @ rest) = Ok (m, rest)"
proof -
  have "unat (of_nat (length m) :: u32) = length m"
    using assms by (intro unat_of_nat_small) (simp add: MaxMessageLen_def MTU_def)
  then show ?thesis using assms by (simp add: framer_Receive_def ReadFull_def)
qed

text \<open>A writer that takes everything.\<close>

definition writes_all :: "(bytes \<Rightarrow> nat \<times> 'e option) \<Rightarrow> bool" where
  "writes_all write \<longleftrightarrow> (\<forall>v. write v = (length v, None))"

lemma framer_Send_frame:
  "writes_all write \<Longrightarrow> length m \<le> MaxMessageLen \<Longrightarrow> framer_Send write m = Ok (put_be32 (of_nat (length m)) @ m)"
  by (simp add: framer_Send_def writes_all_def Let_def)

lemma receive_frames:
  "list_all (\<lambda>m. length m \<le> MaxMessageLen) ms \<Longrightarrow>
   receive_all (length ms) (concat (map (\<lambda>m. put_be32 (of_nat (length m)) @ m) ms) @ rest) = Ok (ms, rest)"
  by (induction ms) (simp_all add: framer_Receive_frame)

text \<open>
  Framing is lossless: the frames written for a sequence of messages, concatenated on the stream,
  are read back as exactly these messages, and what follows them on the stream is untouched.
\<close>

theorem framing_roundtrip:
  assumes "writes_all write" "list_all2 (\<lambda>m f. framer_Send write m = Ok f) ms fs"
  shows "receive_all (length ms) (concat fs @ rest) = Ok (ms, rest)"
proof -
  have "list_all (\<lambda>m. length m \<le> MaxMessageLen) ms \<and> fs = map (\<lambda>m. put_be32 (of_nat (length m)) @ m) ms"
    using assms(2)
  proof (induction rule: list_all2_induct)
    case (Cons m ms f fs)
    then have "length m \<le> MaxMessageLen" by (auto simp: framer_Send_def split: if_splits)
    with Cons assms(1) show ?case by (simp add: framer_Send_frame)
  qed simp
  then show ?thesis by (auto simp: receive_frames)
qed

theorem framing_roundtrip_witness:
  "receive_all 2 (concat [put_be32 1 @ [7], put_be32 0] @ [9]) = (Ok ([[7], []], [9]) :: (unit stream_error, bytes list \<times> bytes) outcome)"
proof -
  let ?w = "\<lambda>v :: bytes. (length v, None :: unit option)"
  have "list_all2 (\<lambda>m f. framer_Send ?w m = Ok f) [[7], []] [put_be32 1 @ [7], put_be32 0]"
    by (simp add: framer_Send_def MaxMessageLen_def)
  from framing_roundtrip [OF _ this, of "[9]"] show ?thesis
    by (simp add: writes_all_def numeral_2_eq_2 del: receive_all.simps)
qed

section \<open>The client behaves like the node\<close>

lemma client_Send_ok:
  "is_addr dst \<Longrightarrow> length data \<le> MTU \<Longrightarrow> client_Send dst data = Some (put_be32 MT_Data @ dst @ data)"
  by (simp add: client_Send_def WriteDataMessage_ok MaxMessageLen_def is_addr_def AddrSize_def)

text \<open>
  C22: data passes unchanged in both directions: what the client sends reaches the node's \<^verbatim>\<open>Send\<close> with the
  same destination and bytes, and what the node receives is delivered by the client with the same
  source and bytes and its own address as the destination.
\<close>

theorem ipc_data_transparent:
  assumes "is_addr dst" "is_addr src" "length data \<le> MTU" "length buf = maxFrameLen"
  shows "\<exists>up down. client_Send dst data = Some up \<and> serve_message c ks node resBuf up = Some [ToNode dst data] \<and>
     serve_forward buf (src, data) = Some down \<and>
     client_handleMessage c F G cl down = Ok (cl\<lparr>c_hub := c_hub cl @ [(src, c_localAddr cl, data)]\<rparr>)"
proof -
  have "serve_forward buf (src, data) = Some (put_be32 MT_Data @ src @ data)"
    using assms by (simp add: serve_forward_def WriteDataMessage_ok maxFrameLen_def MaxMessageLen_def is_addr_def AddrSize_def)
  with client_Send_ok [OF assms(1,3)] show ?thesis
    using assms(1,2) by (simp add: serve_message_def client_handleMessage_def AsMessage_data DataMsg_data)
qed

definition sample_node :: "bool node_ops" where
  "sample_node = \<lparr>nd_FindAddr = (\<lambda>p n. if p = [5] then Ok (IDFromBytes [5]) else Err ''none''),
     nd_LookupPublicKey = (\<lambda>a. if a = IDFromBytes [5] then Ok (BasePublic Ed25519 True) else Err ''not found'')\<rparr>"

definition sample_client ::
  "((bytes \<times> (ipc_error, addr) outcome option) list, (bytes \<times> (ipc_error, bool public_key) outcome option) list) node_client" where
  "sample_client = \<lparr>c_localAddr = IDFromBytes [1], c_findAddrs = [(replicate 16 3, None)],
     c_lookupPubs = [(replicate 16 4, None)], c_hub = []\<rparr>"

theorem ipc_data_transparent_witness:
  "\<exists>up down. client_Send (IDFromBytes [2]) [1, 2] = Some up \<and>
     serve_message sample_circl default_tags sample_node [] up = Some [ToNode (IDFromBytes [2]) [1, 2]] \<and>
     client_handleMessage sample_circl sample_futures sample_futures sample_client down =
       Ok (sample_client\<lparr>c_hub := [(IDFromBytes [3], IDFromBytes [1], [1, 2])]\<rparr>)"
  using ipc_data_transparent [of "IDFromBytes [2]" "IDFromBytes [3]" "[1, 2]" "replicate maxFrameLen 0"
      sample_circl default_tags sample_node "[]" sample_futures sample_futures sample_client]
  by (auto simp: MTU_def sample_client_def)

text \<open>
  The client's \<^verbatim>\<open>Send\<close> panics exactly on data longer than the MTU, where the interface announces the
  error \<^verbatim>\<open>ErrMTUExceeded\<close>.
\<close>

theorem client_Send_panics_iff:
  assumes "is_addr dst"
  shows "client_Send dst data = None \<longleftrightarrow> MTU < length data"
proof (cases "length data \<le> MTU")
  case True
  with client_Send_ok [OF assms True] show ?thesis by simp
next
  case False
  then show ?thesis by (simp add: client_Send_def WriteDataMessage_panics MaxMessageLen_def)
qed

theorem client_Send_panics_iff_witness:
  "client_Send (IDFromBytes [1]) (replicate 65536 0) = None \<longleftrightarrow> MTU < length (replicate 65536 (0 :: byte))"
  by (rule client_Send_panics_iff) simp

text \<open>Requests and responses as they travel.\<close>

lemma client_sendRequest_ok:
  assumes "length reqID = 16" "4 + 16 + length (json_Marshal x) \<le> MaxMessageLen"
  shows "client_sendRequest reqID mt x = Some (put_be32 mt @ reqID @ json_Marshal x)"
  using assms by (simp add: client_sendRequest_def WriteRequest_def WriteAskMessage_ok)

lemma json_ok_messages [simp]:
  "json_ok (FindAddrReq_json q)" "json_ok (FindAddrRes_json a)" "json_ok (LookupPublicKeyReq_json a)"
  "json_ok (LookupPublicKeyRes_json k)" "json_ok (Response_json x e) \<longleftrightarrow> json_ok x"
  by (simp_all add: FindAddrReq_json_def FindAddrRes_json_def LookupPublicKeyReq_json_def LookupPublicKeyRes_json_def Response_json_def)

lemma msg_FindAddrReq_ok:
  assumes "length reqID = 16" "- (2 ^ 63) \<le> fq_Nbits q" "fq_Nbits q < 2 ^ 63"
  shows "msg_FindAddrReq (put_be32 mt @ reqID @ json_Marshal (FindAddrReq_json q)) = Ok q"
  using assms ask_fields(2) [OF assms(1)]
  by (simp add: msg_FindAddrReq_def parseJSON_def json_simps decode_struct_def FindAddrReq_json_def FindAddrReq_fields_def
      field_decoder_def into_def)

lemma msg_LookupPublicKeyReq_ok:
  assumes "length reqID = 16" "is_addr a"
  shows "msg_LookupPublicKeyReq (put_be32 mt @ reqID @ json_Marshal (LookupPublicKeyReq_json a)) = Ok a"
  using assms ask_fields(2) [OF assms(1)]
  by (simp add: msg_LookupPublicKeyReq_def parseJSON_def json_simps decode_struct_def LookupPublicKeyReq_json_def
      LookupPublicKeyReq_fields_def field_decoder_def)

lemma msg_Res_ok:
  assumes "length reqID = 16" "json_ok x" "decode_struct fs x zero = Ok v"
  shows "msg_Res fs zero (put_be32 mt @ reqID @ json_Marshal (Response_json x e)) = (if e = '''' then Ok v else Err (Remote e))"
  using assms ask_fields(2) [OF assms(1)]
  by (simp add: msg_Res_def parseJSON_def json_simps Response_json_def Response_fields_def field_decoder_def into_def)
    (simp add: decode_struct_def json_simps field_decoder_def into_def)

lemma decode_FindAddrRes: "is_addr a \<Longrightarrow> decode_struct FindAddrRes_fields (FindAddrRes_json a) zero_addr = Ok a"
  by (simp add: decode_struct_def FindAddrRes_fields_def FindAddrRes_json_def field_decoder_def json_simps)

lemma decode_LookupPublicKeyRes: "decode_struct LookupPublicKeyRes_fields (LookupPublicKeyRes_json k) [] = Ok k"
  by (simp add: decode_struct_def LookupPublicKeyRes_fields_def LookupPublicKeyRes_json_def field_decoder_def json_simps)

text \<open>The buffers hold what is written to them.\<close>

definition fits :: "json \<Rightarrow> bool" where
  "fits x \<longleftrightarrow> 4 + 16 + length (json_Marshal x) \<le> MaxMessageLen"

text \<open>Messages with an address or an ordinary key always fit.\<close>

lemma fits_small: "length (json_print x) \<le> 2000 \<Longrightarrow> fits x"
  by (simp add: fits_def json_Marshal_def MaxMessageLen_def MTU_def)

lemma quote_field [simp]: "length (json_quote ''addr'') = 6" "length (json_quote ''target'') = 8" "length (json_quote ''ok'') = 4"
  "length (json_quote ''public_key'') = 12" "length (json_quote ''prefix'') = 8" "length (json_quote ''nbits'') = 7"
  by (simp_all add: json_quote_def json_escape_def short_escapes_def)

lemma fits_addr:
  assumes "is_addr a"
  shows "fits (Response_json (FindAddrRes_json a) '''')" "fits (LookupPublicKeyReq_json a)"
  using length_JAddr [OF assms]
  by (auto simp: Response_json_def FindAddrRes_json_def LookupPublicKeyReq_json_def intro!: fits_small)

lemma fits_key: "length data \<le> 150 \<Longrightarrow> fits (Response_json (LookupPublicKeyRes_json data) '''')"
  using length_JBytes [of data]
  by (auto simp: Response_json_def LookupPublicKeyRes_json_def intro!: fits_small)

lemma serve_request:
  assumes "length reqID = 16" "mt = MT_FindAddr \<or> mt = MT_PublicKey" "fits x"
    and "handleAsk c ks node (put_be32 mt @ reqID @ json_Marshal x) resBuf = Ok (r @ rest, length r)"
  shows "serve_message c ks node resBuf (put_be32 mt @ reqID @ json_Marshal x) = Some [ToClient r]"
proof -
  have "take maxFrameLen (put_be32 mt @ reqID @ json_Marshal x) = put_be32 mt @ reqID @ json_Marshal x"
    using assms(1,3) by (simp add: fits_def maxFrameLen_def)
  with assms AsMessage_ask [OF assms(1,2)] show ?thesis by (auto simp: serve_message_def)
qed

lemma WriteAsk_fits:
  assumes "length reqID = 16" "fits x" "length resBuf = maxFrameLen"
  shows "\<exists>rest. WriteAskMessage resBuf reqID mt x =
     Some ((put_be32 mt @ reqID @ json_Marshal x) @ rest, length (put_be32 mt @ reqID @ json_Marshal x))"
  using assms by (auto simp: WriteAskMessage_ok fits_def maxFrameLen_def)

text \<open>Completing a future with the result of a call, errors being known by their text.\<close>

definition complete :: "('s, 'k, 'f, 'v, ipc_error) futures \<Rightarrow> 's \<Rightarrow> 'f \<Rightarrow> (string, 'v) outcome \<Rightarrow> 's" where
  "complete F s fut res =
     (case res of Ok v \<Rightarrow> fst (fs_succeed F s fut v) | Err e \<Rightarrow> fst (fs_fail F s fut (Remote e)) | Panic \<Rightarrow> s)"

text \<open>The text of the response for the result of a call.\<close>

definition call_response :: "('v \<Rightarrow> json) \<Rightarrow> json \<Rightarrow> (string, 'v) outcome \<Rightarrow> json" where
  "call_response enc zero res = (case res of Ok v \<Rightarrow> Response_json (enc v) '''' | Err e \<Rightarrow> Response_json zero e | Panic \<Rightarrow> JNull)"

text \<open>
  C9: \<^verbatim>\<open>FindAddr\<close> over the wire gives the node's own answer: the request the client writes makes the server
  send one response, which completes the client's future with the address the node found, or with
  the text of the node's error.
\<close>

theorem ipc_FindAddr_transparent:
  assumes "length reqID = 16" "- (2 ^ 63) \<le> nbits" "nbits < 2 ^ 63" "length resBuf = maxFrameLen"
    and "q = FindAddrReq_json \<lparr>fq_Prefix = pfx, fq_Nbits = nbits\<rparr>" "fits q"
    and "nd_FindAddr node pfx nbits = res" "res \<noteq> Panic" "res \<noteq> Err ''''" "\<forall>a. res = Ok a \<longrightarrow> is_addr a"
    and "\<forall>e. res = Err e \<longrightarrow> fits (Response_json (FindAddrRes_json zero_addr) e)" "fs_get F (c_findAddrs cl) reqID = Some fut"
  shows "\<exists>req r. client_sendRequest reqID MT_FindAddr q = Some req \<and>
     serve_message c ks node resBuf req = Some [ToClient r] \<and>
     client_handleMessage c F G cl r = Ok (cl\<lparr>c_findAddrs := complete F (c_findAddrs cl) fut res\<rparr>)"
proof -
  let ?x = "call_response FindAddrRes_json (FindAddrRes_json zero_addr) res"
  let ?req = "put_be32 MT_FindAddr @ reqID @ json_Marshal q" and ?r = "put_be32 MT_FindAddr @ reqID @ json_Marshal ?x"
  have fits: "fits ?x" using assms(8,10,11) fits_addr(1) by (cases res) (auto simp: call_response_def)
  have "client_sendRequest reqID MT_FindAddr q = Some ?req"
    using assms(1,6) by (simp add: client_sendRequest_ok fits_def)
  moreover obtain rest where w: "WriteAskMessage resBuf reqID MT_FindAddr ?x = Some (?r @ rest, length ?r)"
    using WriteAsk_fits [OF assms(1) fits assms(4)] by blast
  have "handleAsk c ks node ?req resBuf = Ok (?r @ rest, length ?r)"
    using assms msg_FindAddrReq_ok [OF assms(1), of "\<lparr>fq_Prefix = pfx, fq_Nbits = nbits\<rparr>"] ask_fields(1) [OF assms(1)] w
    by (cases res) (auto simp: handleAsk_def WriteError_def WriteSuccess_def call_response_def)
  then have "serve_message c ks node resBuf ?req = Some [ToClient ?r]"
    using serve_request [OF assms(1) _ assms(6)] by blast
  moreover have "client_handleMessage c F G cl ?r = Ok (cl\<lparr>c_findAddrs := complete F (c_findAddrs cl) fut res\<rparr>)"
  proof (cases res)
    case (Ok a)
    then show ?thesis
      using assms ask_fields(1) [OF assms(1)] msg_Res_ok [OF assms(1) _ decode_FindAddrRes, of a]
      by (simp add: client_handleMessage_def AsMessage_ask msg_FindAddrRes_def call_response_def complete_def)
  next
    case (Err e)
    then show ?thesis
      using assms ask_fields(1) [OF assms(1)] msg_Res_ok [OF assms(1) _ decode_FindAddrRes, of zero_addr]
      by (simp add: client_handleMessage_def AsMessage_ask msg_FindAddrRes_def call_response_def complete_def)
  qed (use assms in simp)
  ultimately show ?thesis by blast
qed

text \<open>
  So does \<^verbatim>\<open>LookupPublicKey\<close>: the key the node knows is parsed back by the client, whatever scheme of
  the default PKI it belongs to.
\<close>

theorem ipc_LookupPublicKey_transparent:
  assumes "circl_marshals c" "length reqID = 16" "is_addr target" "length resBuf = maxFrameLen"
    and "nd_LookupPublicKey node target = Ok k" "MarshalPublicKey c ks [] k = Some data"
    and "fits (Response_json (LookupPublicKeyRes_json data) '''')" "fs_get G (c_lookupPubs cl) reqID = Some fut"
  shows "\<exists>req r. client_sendRequest reqID MT_PublicKey (LookupPublicKeyReq_json target) = Some req \<and>
     serve_message c ks node resBuf req = Some [ToClient r] \<and>
     client_handleMessage c F G cl r = Ok (cl\<lparr>c_lookupPubs := fst (fs_succeed G (c_lookupPubs cl) fut k)\<rparr>)"
proof -
  let ?q = "LookupPublicKeyReq_json target" and ?x = "Response_json (LookupPublicKeyRes_json data) ''''"
  let ?req = "put_be32 MT_PublicKey @ reqID @ json_Marshal ?q" and ?r = "put_be32 MT_PublicKey @ reqID @ json_Marshal ?x"
  have "client_sendRequest reqID MT_PublicKey ?q = Some ?req"
    using assms(2) fits_addr(2) [OF assms(3)] by (simp add: client_sendRequest_ok fits_def)
  moreover obtain rest where w: "WriteAskMessage resBuf reqID MT_PublicKey ?x = Some (?r @ rest, length ?r)"
    using WriteAsk_fits [OF assms(2) assms(7,4)] by blast
  have "handleAsk c ks node ?req resBuf = Ok (?r @ rest, length ?r)"
    using assms msg_LookupPublicKeyReq_ok [OF assms(2,3)] ask_fields(1) [OF assms(2)] w
    by (auto simp: handleAsk_def WriteSuccess_def)
  then have "serve_message c ks node resBuf ?req = Some [ToClient ?r]"
    using serve_request [OF assms(2) _ fits_addr(2) [OF assms(3)]] by blast
  moreover have "client_handleMessage c F G cl ?r = Ok (cl\<lparr>c_lookupPubs := fst (fs_succeed G (c_lookupPubs cl) fut k)\<rparr>)"
    using assms ask_fields(1) [OF assms(2)] msg_Res_ok [OF assms(2) _ decode_LookupPublicKeyRes, of data]
      ParsePublicKey_of_marshalled [OF assms(1,6)]
    by (simp add: client_handleMessage_def AsMessage_ask msg_LookupPublicKeyRes_def)
  ultimately show ?thesis by blast
qed

lemma sample_fits: "fits (FindAddrReq_json \<lparr>fq_Prefix = [5], fq_Nbits = 8\<rparr>)"
proof -
  have "length (show_int 8) = 1" by (simp add: show_int_def show_nat.simps)
  then show ?thesis
    using length_JBytes [of "[5]"] by (auto simp: FindAddrReq_json_def JInt_def intro!: fits_small)
qed

theorem ipc_FindAddr_transparent_witness:
  "\<exists>req r. client_sendRequest (replicate 16 3) MT_FindAddr (FindAddrReq_json \<lparr>fq_Prefix = [5], fq_Nbits = 8\<rparr>) = Some req \<and>
     serve_message sample_circl default_tags sample_node (replicate maxFrameLen 0) req = Some [ToClient r] \<and>
     client_handleMessage sample_circl sample_futures sample_futures sample_client r =
       Ok (sample_client\<lparr>c_findAddrs := [(replicate 16 3, Some (Ok (IDFromBytes [5])))]\<rparr>)"
proof -
  have "nd_FindAddr sample_node [5] 8 = Ok (IDFromBytes [5])" by (simp add: sample_node_def)
  moreover have "complete sample_futures (c_findAddrs sample_client) 0 (Ok (IDFromBytes [5])) = [(replicate 16 3, Some (Ok (IDFromBytes [5])))]"
    by (simp add: complete_def sample_futures_def sample_complete_def sample_client_def)
  moreover have "fs_get sample_futures (c_findAddrs sample_client) (replicate 16 3) = Some 0"
    by (simp add: sample_futures_def sample_client_def)
  ultimately show ?thesis
    using ipc_FindAddr_transparent [of "replicate 16 3" 8 "replicate maxFrameLen 0" "FindAddrReq_json \<lparr>fq_Prefix = [5], fq_Nbits = 8\<rparr>" "[5]"
        sample_node "Ok (IDFromBytes [5])" sample_futures sample_client 0 sample_circl default_tags sample_futures] sample_fits
    by (simp add: call_response_def)
qed

theorem ipc_LookupPublicKey_transparent_witness:
  "\<exists>req r. client_sendRequest (replicate 16 4) MT_PublicKey (LookupPublicKeyReq_json (IDFromBytes [5])) = Some req \<and>
     serve_message sample_circl default_tags sample_node (replicate maxFrameLen 0) req = Some [ToClient r] \<and>
     client_handleMessage sample_circl sample_futures sample_futures sample_client r =
       Ok (sample_client\<lparr>c_lookupPubs := [(replicate 16 4, Some (Ok (BasePublic Ed25519 True)))]\<rparr>)"
proof -
  obtain bs where bs: "MarshalPublicKey sample_circl default_tags [] (BasePublic Ed25519 True) = Some (writeTag [] (algo_tag Ed25519) @ bs)"
      "length bs = c_pub_size sample_circl Ed25519"
    using MarshalPublicKey_base [OF sample_circl_marshals default_tags_enumerates] by blast
  define data where "data = writeTag [] (algo_tag Ed25519) @ bs"
  then have d: "MarshalPublicKey sample_circl default_tags [] (BasePublic Ed25519 True) = Some data" using bs(1) by simp
  have "c_pub_size sample_circl Ed25519 = 32" by (simp add: sample_circl_def)
  with bs(2) have "length data \<le> 150" by (simp add: data_def writeTag_def SignAlgo_Ed25519_def)
  then have fits: "fits (Response_json (LookupPublicKeyRes_json data) '''')" by (rule fits_key)
  have "nd_LookupPublicKey sample_node (IDFromBytes [5]) = Ok (BasePublic Ed25519 True)" by (simp add: sample_node_def)
  moreover have "fst (fs_succeed sample_futures (c_lookupPubs sample_client) 0 (BasePublic Ed25519 True)) = [(replicate 16 4, Some (Ok (BasePublic Ed25519 True)))]"
    by (simp add: sample_futures_def sample_complete_def sample_client_def)
  moreover have "fs_get sample_futures (c_lookupPubs sample_client) (replicate 16 4) = Some 0"
    by (simp add: sample_futures_def sample_client_def)
  ultimately show ?thesis
    using ipc_LookupPublicKey_transparent [OF sample_circl_marshals, of "replicate 16 4" "IDFromBytes [5]" "replicate maxFrameLen 0"
        sample_node, OF _ _ _ _ d fits, of sample_futures sample_client 0 sample_futures]
    by simp
qed

text \<open>
  A request for the public key of a target written with 44 or more characters of the alphabet
  crashes the server: the decoder of the address panics and nothing recovers.
\<close>

theorem ipc_long_target_crashes:
  assumes "length reqID = 16" "\<forall>ch \<in> set t. ch \<in> set Base64Alphabet" "44 \<le> length t" "fits (JObj [(''target'', JStr t)])"
  shows "serve_message c ks node resBuf (put_be32 MT_PublicKey @ reqID @ json_Marshal (JObj [(''target'', JStr t)])) = None"
proof -
  let ?m = "put_be32 MT_PublicKey @ reqID @ json_Marshal (JObj [(''target'', JStr t)])"
  have "take maxFrameLen ?m = ?m" using assms(1,4) by (simp add: fits_def maxFrameLen_def)
  moreover have "msg_LookupPublicKeyReq ?m = Panic"
    using assms(1) ask_fields(2) [OF assms(1)] UnmarshalText_long [OF assms(2,3) is_addr_zero]
    by (simp add: msg_LookupPublicKeyReq_def parseJSON_def json_simps decode_struct_def LookupPublicKeyReq_fields_def
        field_decoder_def decode_addr_def)
  ultimately show ?thesis
    using AsMessage_ask [OF assms(1), of MT_PublicKey] by (simp add: serve_message_def handleAsk_def)
qed

theorem ipc_long_target_crashes_witness:
  "serve_message sample_circl default_tags sample_node [] (put_be32 MT_PublicKey @ replicate 16 0 @ json_Marshal (JObj [(''target'', JStr (replicate 44 CHR ''a''))])) = None"
proof -
  have "fits (JObj [(''target'', JStr (replicate 44 CHR ''a''))])" 
    using length_json_quote [of "replicate 44 CHR ''a''"] by (auto intro!: fits_small)
  then show ?thesis by (intro ipc_long_target_crashes) (auto simp: Base64Alphabet_def)
qed

text \<open>
  A client that lets a message pass in every period of the watchdog is never cut off, and one that
  stays silent for a whole period is.
\<close>

theorem watchdog_correct:
  "serve_alive (concat (map (\<lambda>k. replicate (Suc k) GotMessage @ [TimerFired]) ks)) g \<and>
   \<not> serve_alive (es @ TimerFired # TimerFired # es') g"
proof
  have got: "serve_alive (replicate (Suc k) GotMessage @ es) g = serve_alive es True" for k es g
    by (induction k arbitrary: g) simp_all
  show "serve_alive (concat (map (\<lambda>k. replicate (Suc k) GotMessage @ [TimerFired]) ks)) g"
    by (induction ks arbitrary: g) (simp_all add: got del: replicate.simps)
  show "\<not> serve_alive (es @ TimerFired # TimerFired # es') g"
    by (induction es g rule: serve_alive.induct) simp_all
qed

end
