(* ===== verification/Dns.thy ===== *)
theory Dns
  imports Json Futures
begin

text \<open>
  The name system \<^verbatim>\<open>dns256\<close>: paths and their dotted form (\<^verbatim>\<open>path.go\<close>), records, predicates and redirects
  (\<^verbatim>\<open>dns256.go\<close>), the resolver that follows redirects from a set of roots (\<^verbatim>\<open>resolver.go\<close>), the handlers
  of the server (\<^verbatim>\<open>server.go\<close>) and the client's matching of responses to requests (\<^verbatim>\<open>client.go\<close>).
\<close>

section \<open>Paths\<close>

type_synonym path = "string list"

datatype dns_error = InvalidElem string | DnsJson json_error | MaxHopsExceeded | InvalidRedirect path | LookupFailed string | BadAddress string

definition is_elem_char :: "char \<Rightarrow> bool" where
  "is_elem_char c \<longleftrightarrow> c \<in> set (''abcdefghijklmnopqrstuvwxyz'' @ ''ABCDEFGHIJKLMNOPQRSTUVWXYZ'' @ ''0123456789-_'')"

definition validElem :: "string \<Rightarrow> bool" where
  "validElem s \<longleftrightarrow> s \<noteq> [] \<and> list_all is_elem_char s"

text \<open>The loop that swaps the elements from both ends.\<close>

definition swap_ends :: "nat \<Rightarrow> 'a list \<Rightarrow> 'a list" where
  "swap_ends i xs = (let j = length xs - 1 - i in xs[i := xs ! j, j := xs ! i])"

definition ParseDots :: "string \<Rightarrow> (dns_error, path) outcome" where
  "ParseDots x =
     (if x = '''' then Ok []
      else let parts = bytes_Split x (CHR ''.'')
           in case find (\<lambda>e. \<not> validElem e) parts of
                Some e \<Rightarrow> Err (InvalidElem e)
              | None \<Rightarrow> Ok (fold swap_ends [0..<length parts div 2] parts))"

definition MustParseDots :: "string \<Rightarrow> path option" where
  "MustParseDots x = (case ParseDots x of Ok p \<Rightarrow> Some p | _ \<Rightarrow> None)"

fun HasPrefix_loop :: "'a list \<Rightarrow> 'a list \<Rightarrow> nat list \<Rightarrow> bool" where
  "HasPrefix_loop x p [] = True"
| "HasPrefix_loop x p (i # is) = (if i \<ge> length x then False else if p ! i \<noteq> x ! i then False else HasPrefix_loop x p is)"

definition path_HasPrefix :: "'a list \<Rightarrow> 'a list \<Rightarrow> bool" where
  "path_HasPrefix x p = HasPrefix_loop x p [0..<length p]"

text \<open>
  \<^verbatim>\<open>HasSuffix\<close> counts its index upwards from the last position of \<open>s\<close>; an index beyond \<open>s\<close> panics.
\<close>

function HasSuffix_loop :: "'a list \<Rightarrow> 'a list \<Rightarrow> nat \<Rightarrow> bool option" where
  "HasSuffix_loop x s i =
     (if i \<ge> length x then Some False
      else if i \<ge> length s then None
      else if s ! i \<noteq> x ! i then Some False
      else HasSuffix_loop x s (i + 1))"
  by pat_completeness auto
termination by (relation "measure (\<lambda>(x, s, i). length x - i)") auto

declare HasSuffix_loop.simps [simp del]

definition path_HasSuffix :: "'a list \<Rightarrow> 'a list \<Rightarrow> bool option" where
  "path_HasSuffix x s = (if s = [] then Some True else HasSuffix_loop x s (length s - 1))"

definition TrimPrefix :: "path \<Rightarrow> path \<Rightarrow> path" where
  "TrimPrefix x pfx = (if \<not> path_HasPrefix x pfx then x else drop (length pfx) x)"

definition path_Concat :: "path list \<Rightarrow> path" where
  "path_Concat ps = foldl (\<lambda>ret p. ret @ p) [] ps"

section \<open>Records, predicates and redirects\<close>

text \<open>A value of a record is kept as its JSON text; the text of a missing key is empty.\<close>

type_synonym dns_record = "string \<rightharpoonup> string"

definition value_of :: "dns_record \<Rightarrow> string \<Rightarrow> string" where
  "value_of r k = (case r k of None \<Rightarrow> '''' | Some v \<Rightarrow> v)"

text \<open>A nil slice or pointer is \<open>None\<close>.\<close>

datatype predicate =
  Predicate (p_And: "predicate list option") (p_Or: "predicate list option") (p_Exact: "(string \<times> string) option") (p_HasKey: "string option")

definition exact_Matches :: "string \<times> string \<Rightarrow> dns_record \<Rightarrow> bool" where
  "exact_Matches e r \<longleftrightarrow> value_of r (fst e) = snd e"

fun Matches :: "predicate \<Rightarrow> dns_record \<Rightarrow> bool" where
  "Matches (Predicate (Some ps) os ex hk) r = list_all (\<lambda>p. Matches p r) ps"
| "Matches (Predicate None (Some ps) ex hk) r = list_ex (\<lambda>p. Matches p r) ps"
| "Matches (Predicate None None (Some e) hk) r = exact_Matches e r"
| "Matches (Predicate None None None (Some k)) r = (r k \<noteq> None)"
| "Matches (Predicate None None None None) r = True"

text \<open>Without keys the slice stays nil.\<close>

definition MustHaveKeys :: "string list \<Rightarrow> predicate" where
  "MustHaveKeys ks =
     Predicate (if ks = [] then None else Some (map (\<lambda>k. Predicate None None None (Some k)) ks)) None None None"

record query =
  q_Path :: path
  q_Filter :: predicate

definition query_Matches :: "query \<Rightarrow> dns_record \<Rightarrow> bool" where
  "query_Matches q r = Matches (q_Filter q) r"

record claim =
  cl_Record :: dns_record
  cl_TTL :: u32

record response =
  res_RequestID :: bytes
  res_IsRedirect :: bool
  res_Claims :: "claim list"

definition jsonParse :: "'a decoder \<Rightarrow> 'a \<Rightarrow> string \<Rightarrow> (dns_error, 'a) outcome" where
  "jsonParse d zero x =
     (case json_Unmarshal d (bytes_of_string x) zero of Ok v \<Rightarrow> Ok v | Err e \<Rightarrow> Err (DnsJson e) | Panic \<Rightarrow> Panic)"

definition AsUint64 :: "dns_record \<Rightarrow> string \<Rightarrow> (dns_error, nat) outcome" where
  "AsUint64 r k = jsonParse (decode_uint 64) 0 (value_of r k)"

definition AsUint16 :: "dns_record \<Rightarrow> string \<Rightarrow> (dns_error, nat) outcome" where
  "AsUint16 r k = jsonParse (decode_uint 16) 0 (value_of r k)"

definition AsString :: "dns_record \<Rightarrow> string \<Rightarrow> (dns_error, string) outcome" where
  "AsString r k = jsonParse decode_string '''' (value_of r k)"

definition AsINET256 :: "dns_record \<Rightarrow> string \<Rightarrow> (dns_error, addr) outcome" where
  "AsINET256 r k = jsonParse decode_addr zero_addr (value_of r k)"

text \<open>\<open>parse\<close> is \<^verbatim>\<open>netip.ParseAddr\<close> or \<^verbatim>\<open>netip.ParseAddrPort\<close>.\<close>

definition AsIP :: "(string \<Rightarrow> 'ip option) \<Rightarrow> dns_record \<Rightarrow> string \<Rightarrow> (dns_error, 'ip) outcome" where
  "AsIP parse r k = obind (AsString r k) (\<lambda>s. case parse s of Some ip \<Rightarrow> Ok ip | None \<Rightarrow> Err (BadAddress s))"

definition AsIPPort :: "(string \<Rightarrow> 'ap option) \<Rightarrow> dns_record \<Rightarrow> string \<Rightarrow> (dns_error, 'ap) outcome" where
  "AsIPPort parse e k = obind (AsString e k) (\<lambda>s. case parse s of Some ap \<Rightarrow> Ok ap | None \<Rightarrow> Err (BadAddress s))"

definition AsBytes :: "dns_record \<Rightarrow> string \<Rightarrow> (dns_error, bytes) outcome" where
  "AsBytes r k = jsonParse decode_bytes [] (value_of r k)"

definition AsPath :: "dns_record \<Rightarrow> string \<Rightarrow> (dns_error, path) outcome" where
  "AsPath r k = jsonParse (decode_list decode_string '''') [] (value_of r k)"

record redirect =
  rd_Path :: path
  rd_Target :: addr

definition AsRedirect :: "dns_record \<Rightarrow> (dns_error, redirect) outcome" where
  "AsRedirect r =
     obind (AsPath r ''path'') (\<lambda>p. obind (AsINET256 r ''target'') (\<lambda>t. Ok \<lparr>rd_Path = p, rd_Target = t\<rparr>))"

definition NewValue :: "json \<Rightarrow> string" where
  "NewValue j = json_print j"

definition ToRecord :: "redirect \<Rightarrow> dns_record" where
  "ToRecord r = [''path'' \<mapsto> NewValue (JArr (map JStr (rd_Path r))), ''target'' \<mapsto> NewValue (JAddr (rd_Target r))]"

section \<open>The resolver\<close>

text \<open>A lookup function answers a query; its errors are known by their text.\<close>

type_synonym lookup_func = "query \<Rightarrow> (string, response) outcome"

record authority =
  au_Path :: path
  au_Lookup :: lookup_func
  au_TTL :: u32

text \<open>\<open>do\<close> is the client's \<^verbatim>\<open>Do\<close>: it sends a request to an address and waits for the response.\<close>

definition NewINET256Root :: "(addr \<Rightarrow> lookup_func) \<Rightarrow> addr \<Rightarrow> authority" where
  "NewINET256Root do peer = \<lparr>au_Path = [], au_Lookup = do peer, au_TTL = 0\<rparr>"

definition NewINET256Parser :: "(addr \<Rightarrow> lookup_func) \<Rightarrow> dns_record \<Rightarrow> (dns_error, lookup_func) outcome" where
  "NewINET256Parser do r = obind (AsINET256 r ''target'') (\<lambda>a. Ok (do a))"

text \<open>The sources a redirecting response adds; a record no lookup can be made from is skipped.\<close>

fun add_sources ::
  "(dns_record \<Rightarrow> (dns_error, lookup_func) outcome) \<Rightarrow> authority \<Rightarrow> query \<Rightarrow> claim list \<Rightarrow> authority list \<Rightarrow> (dns_error, authority list) outcome" where
  "add_sources makeLookup target q2 [] sources = Ok sources"
| "add_sources makeLookup target q2 (c # cs) sources =
     obind (AsPath (cl_Record c) ''path'') (\<lambda>pfx.
       if \<not> path_HasPrefix (q_Path q2) pfx then Err (InvalidRedirect pfx)
       else case makeLookup (cl_Record c) of
              Panic \<Rightarrow> Panic
            | Err e \<Rightarrow> add_sources makeLookup target q2 cs sources
            | Ok lf \<Rightarrow> add_sources makeLookup target q2 cs
                (sources @ [\<lparr>au_Path = path_Concat [au_Path target, pfx], au_Lookup = lf, au_TTL = cl_TTL c\<rparr>]))"

definition sub_query :: "query \<Rightarrow> authority \<Rightarrow> query" where
  "sub_query q target = \<lparr>q_Path = TrimPrefix (q_Path q) (au_Path target), q_Filter = q_Filter q\<rparr>"

text \<open>
  The loop of \<^verbatim>\<open>Resolve\<close> with the number of hops left. The first component of the result is the list of
  authorities asked, with the query each was given.
\<close>

fun resolve_loop ::
  "nat \<Rightarrow> (dns_record \<Rightarrow> (dns_error, lookup_func) outcome) \<Rightarrow> query \<Rightarrow> authority list \<Rightarrow> (authority \<times> query) list \<times> (dns_error, claim list) outcome" where
  "resolve_loop h makeLookup q [] = ([], Ok [])"
| "resolve_loop 0 makeLookup q (a # as) = ([], Err MaxHopsExceeded)"
| "resolve_loop (Suc h) makeLookup q (a # as) =
     (let target = last (a # as); sources = butlast (a # as); q2 = sub_query q target
      in case au_Lookup target q2 of
           Err e \<Rightarrow> ([(target, q2)], Err (LookupFailed e))
         | Panic \<Rightarrow> ([(target, q2)], Panic)
         | Ok res \<Rightarrow>
             if \<not> res_IsRedirect res then ([(target, q2)], Ok (res_Claims res))
             else case add_sources makeLookup target q2 (res_Claims res) sources of
                    Err e \<Rightarrow> ([(target, q2)], Err e)
                  | Panic \<Rightarrow> ([(target, q2)], Panic)
                  | Ok sources' \<Rightarrow>
                      let (log, out) = resolve_loop h makeLookup q sources' in ((target, q2) # log, out))"

text \<open>The options are applied in order; \<^verbatim>\<open>WithMaxHops\<close> is the only one. A negative bound ends at once.\<close>

definition resolve_maxHops :: "int list \<Rightarrow> int" where
  "resolve_maxHops opts = foldl (\<lambda>_ n. n) 32 opts"

definition Resolve ::
  "authority list \<Rightarrow> (dns_record \<Rightarrow> (dns_error, lookup_func) outcome) \<Rightarrow> query \<Rightarrow> int list \<Rightarrow> (authority \<times> query) list \<times> (dns_error, claim list) outcome" where
  "Resolve roots makeLookup q opts = resolve_loop (nat (resolve_maxHops opts)) makeLookup q roots"

text \<open>\<^verbatim>\<open>ResolveINET256\<close> does not pass its options on.\<close>

definition ResolveINET256 ::
  "authority list \<Rightarrow> (dns_record \<Rightarrow> (dns_error, lookup_func) outcome) \<Rightarrow> path \<Rightarrow> int list \<Rightarrow> (dns_error, addr list) outcome" where
  "ResolveINET256 roots makeLookup x opts =
     obind (snd (Resolve roots makeLookup \<lparr>q_Path = x, q_Filter = MustHaveKeys [''INET256'']\<rparr> [])) (\<lambda>claims.
       ofold (\<lambda>c ret. case AsINET256 (cl_Record c) ''INET256'' of Ok a \<Rightarrow> Ok (ret @ [a]) | Err e \<Rightarrow> Ok ret | Panic \<Rightarrow> Panic) claims [])"

definition ResolveIP ::
  "(string \<Rightarrow> 'ip option) \<Rightarrow> authority list \<Rightarrow> (dns_record \<Rightarrow> (dns_error, lookup_func) outcome) \<Rightarrow> path \<Rightarrow> int list \<Rightarrow> (dns_error, 'ip list) outcome" where
  "ResolveIP parse roots makeLookup x opts =
     obind (snd (Resolve roots makeLookup \<lparr>q_Path = x, q_Filter = MustHaveKeys [''IP'']\<rparr> opts)) (\<lambda>cs.
       ofold (\<lambda>c ret. case AsIP parse (cl_Record c) ''IP'' of Ok ip \<Rightarrow> Ok (ret @ [ip]) | Err e \<Rightarrow> Ok ret | Panic \<Rightarrow> Panic) cs [])"

definition ResolveIPPort ::
  "(string \<Rightarrow> 'ip option) \<Rightarrow> authority list \<Rightarrow> (dns_record \<Rightarrow> (dns_error, lookup_func) outcome) \<Rightarrow> path \<Rightarrow> int list \<Rightarrow> (dns_error, ('ip \<times> nat) list) outcome" where
  "ResolveIPPort parse roots makeLookup x opts =
     obind (snd (Resolve roots makeLookup \<lparr>q_Path = x, q_Filter = MustHaveKeys [''IP'', ''port'']\<rparr> opts)) (\<lambda>ents.
       ofold (\<lambda>ent ret.
         case AsIP parse (cl_Record ent) ''IP'' of
           Err e \<Rightarrow> Ok ret
         | Panic \<Rightarrow> Panic
         | Ok ip \<Rightarrow> (case AsUint16 (cl_Record ent) ''port'' of Err e \<Rightarrow> Ok ret | Panic \<Rightarrow> Panic | Ok port \<Rightarrow> Ok (ret @ [(ip, port)]))) ents [])"

section \<open>The server and the client\<close>

record basic_handler =
  bh_Redirects :: "redirect list"
  bh_Records :: "dns_record list"
  bh_TTL :: u32

definition basic_Handle :: "basic_handler \<Rightarrow> response \<Rightarrow> query \<Rightarrow> response \<times> bool" where
  "basic_Handle bh res q =
     (let ttl = (if bh_TTL bh \<le> 0 then 300 else bh_TTL bh)
      in case find (\<lambda>red. path_HasPrefix (q_Path q) (rd_Path red)) (bh_Redirects bh) of
           Some red \<Rightarrow> (res\<lparr>res_IsRedirect := True,
                           res_Claims := res_Claims res @ [\<lparr>cl_Record = ToRecord red, cl_TTL = ttl\<rparr>]\<rparr>, True)
         | None \<Rightarrow> (res\<lparr>res_Claims := res_Claims res @
                       map (\<lambda>rec. \<lparr>cl_Record = rec, cl_TTL = ttl\<rparr>) (filter (query_Matches q) (bh_Records bh))\<rparr>, True))"

text \<open>
  \<^verbatim>\<open>LayeredHandler.Handle\<close> on the prefixes of its layers. It calls itself with the same arguments, so a
  call may never return, which is the value \<open>None\<close>.
\<close>

partial_function (option) layered_Handle :: "path list \<Rightarrow> query \<Rightarrow> bool option" where
  "layered_Handle h q =
     (case find (\<lambda>l. path_HasPrefix l (q_Path q)) h of Some l \<Rightarrow> layered_Handle h q | None \<Rightarrow> Some False)"

text \<open>The server's reply to a decoded request, and what the client does with a decoded response.\<close>

definition dns_reply :: "(response \<Rightarrow> query \<Rightarrow> response \<times> bool) \<Rightarrow> addr \<Rightarrow> bytes \<Rightarrow> query \<Rightarrow> (addr \<times> response) option" where
  "dns_reply h src reqID q =
     (let (res, ok) = h \<lparr>res_RequestID = replicate 16 0, res_IsRedirect = False, res_Claims = []\<rparr> q
      in if ok then Some (src, res\<lparr>res_RequestID := reqID\<rparr>) else None)"

definition dns_client_receive :: "('s, addr \<times> bytes, 'f, response, 'e) futures \<Rightarrow> addr \<Rightarrow> response \<Rightarrow> 's \<Rightarrow> 's" where
  "dns_client_receive F src res s =
     (case fs_get F s (src, res_RequestID res) of Some fut \<Rightarrow> fst (fs_succeed F s fut res) | None \<Rightarrow> s)"

section \<open>Paths as lists\<close>

lemma path_HasPrefix_iff: "path_HasPrefix x p \<longleftrightarrow> prefix p x"
proof -
  have "HasPrefix_loop x p is \<longleftrightarrow> (\<forall>i \<in> set is. i < length x \<and> p ! i = x ! i)" for "is"
    by (induction "is") auto
  moreover have "(\<forall>i < length p. i < length x \<and> p ! i = x ! i) \<longleftrightarrow> prefix p x"
  proof
    assume nth: "\<forall>i < length p. i < length x \<and> p ! i = x ! i"
    then have "length p \<le> length x" by (meson linorder_not_less order.refl)
    with nth have "take (length p) x = p" by (intro nth_equalityI) simp_all
    then show "prefix p x" by (metis take_is_prefix)
  qed (auto simp: prefix_def nth_append)
  ultimately show ?thesis by (auto simp: path_HasPrefix_def)
qed

lemma TrimPrefix_prefix: "prefix p x \<Longrightarrow> p @ TrimPrefix x p = x"
  by (auto simp: TrimPrefix_def path_HasPrefix_iff prefix_def)

lemma path_Concat_eq [simp]: "path_Concat ps = concat ps"
proof -
  have "foldl (\<lambda>ret p. ret @ p) acc ps = acc @ concat ps" for acc by (induction ps arbitrary: acc) simp_all
  then show ?thesis by (simp add: path_Concat_def)
qed

lemma length_swap_ends [simp]: "length (swap_ends i xs) = length xs"
  by (simp add: swap_ends_def Let_def)

lemma nth_swap_ends:
  assumes "k < length xs"
  shows "swap_ends k xs ! m = (if m = length xs - 1 - k then xs ! k else if m = k then xs ! (length xs - 1 - k) else xs ! m)"
proof -
  have "length xs - 1 - k < length xs" using assms by linarith
  then show ?thesis using assms by (simp add: swap_ends_def Let_def nth_list_update)
qed

lemma length_fold_swap [simp]: "length (fold swap_ends ks xs) = length xs"
  by (induction ks arbitrary: xs) simp_all

lemma nth_fold_swap:
  assumes "2 * k \<le> length xs" "m < length xs"
  shows "fold swap_ends [0..<k] xs ! m = (if m < k \<or> length xs \<le> m + k then xs ! (length xs - 1 - m) else xs ! m)"
  using assms
proof (induction k arbitrary: m)
  case (Suc k)
  let ?n = "length xs" and ?ys = "fold swap_ends [0..<k] xs"
  have k: "k < ?n - 1 - k" "?n - 1 - k < ?n" "k < ?n" using Suc.prems by auto
  have IH: "?ys ! i = (if i < k \<or> ?n \<le> i + k then xs ! (?n - 1 - i) else xs ! i)" if "i < ?n" for i
    using Suc.IH [of i] Suc.prems(1) that by simp
  have ys: "?ys ! k = xs ! k" "?ys ! (?n - 1 - k) = xs ! (?n - 1 - k)" 
  proof -
    have "\<not> ?n \<le> k + k" using Suc.prems by simp
    then show "?ys ! k = xs ! k" using IH [OF k(3)] by simp
    have "\<not> (?n - 1 - k < k \<or> ?n \<le> ?n - 1 - k + k)" using k by linarith
    then show "?ys ! (?n - 1 - k) = xs ! (?n - 1 - k)" using IH [OF k(2)] by presburger
  qed
  have "fold swap_ends [0..<Suc k] xs ! m = swap_ends k ?ys ! m" by simp
  also have "\<dots> = (if m = ?n - 1 - k then xs ! k else if m = k then xs ! (?n - 1 - k) else ?ys ! m)"
    using nth_swap_ends [of k ?ys m] k(3) ys by simp
  also have "\<dots> = (if m < Suc k \<or> ?n \<le> m + Suc k then xs ! (?n - 1 - m) else xs ! m)"
  proof -
    consider "m = ?n - 1 - k" | "m = k" | "m \<noteq> k" "m \<noteq> ?n - 1 - k" by blast
    then show ?thesis
    proof cases
      case 1
      then have "?n - 1 - m = k" "?n \<le> m + Suc k" using k by auto
      with 1 show ?thesis by simp
    next
      case 2
      with k show ?thesis by simp
    next
      case 3
      then have "m < Suc k \<or> ?n \<le> m + Suc k \<longleftrightarrow> m < k \<or> ?n \<le> m + k" by linarith
      with 3 IH [OF Suc.prems(2)] show ?thesis by simp
    qed
  qed
  finally show ?case .
qed simp

lemma swap_all: "fold swap_ends [0..<length xs div 2] xs = rev xs"
proof (rule nth_equalityI)
  fix m assume "m < length (fold swap_ends [0..<length xs div 2] xs)"
  then have m: "m < length xs" by simp
  have "length xs - 1 - m = m" if "\<not> (m < length xs div 2 \<or> length xs \<le> m + length xs div 2)" using that by linarith
  then show "fold swap_ends [0..<length xs div 2] xs ! m = rev xs ! m"
    using nth_fold_swap [of "length xs div 2" xs m] m by (auto simp: rev_nth)
qed simp

lemma strings_Join_Split: "strings_Join (bytes_Split x sep) [sep] = x"
proof (induction x)
  case (Cons c cs)
  obtain l ls where l: "bytes_Split cs sep = l # ls" using bytes_Split_nonempty [of cs sep] by (cases "bytes_Split cs sep") auto
  with Cons show ?case by (cases ls) auto
qed simp

lemma validElem_no_dot: "validElem e \<Longrightarrow> CHR ''.'' \<notin> set e"
proof -
  have "\<not> is_elem_char CHR ''.''" by (simp add: is_elem_char_def)
  then show "validElem e \<Longrightarrow> CHR ''.'' \<notin> set e" by (auto simp: validElem_def list_all_iff)
qed

text \<open>
  \<^verbatim>\<open>ParseDots\<close> accepts exactly the dotted names of valid elements and returns them with the last
  element first; in particular every path of valid elements has a dotted form that parses to it.
\<close>

theorem ParseDots_exact: "ParseDots x = Ok p \<longleftrightarrow> list_all validElem p \<and> x = strings_Join (rev p) ''.''"
proof (cases "x = ''''")
  case True
  have e: "strings_Join es ''.'' = '''' \<Longrightarrow> es = [] \<or> es = ['''']" for es
    by (cases "(es, ''.'')" rule: strings_Join.cases) auto
  have "p = []" if "list_all validElem p" "strings_Join (rev p) ''.'' = ''''"
    using e [OF that(2)] that(1) by (auto simp: validElem_def rev_singleton_conv)
  with True show ?thesis by (auto simp: ParseDots_def)
next
  case False
  let ?parts = "bytes_Split x CHR ''.''"
  have "ParseDots x = Ok p \<longleftrightarrow> list_all validElem ?parts \<and> p = rev ?parts"
    using False by (auto simp: ParseDots_def Let_def swap_all list_all_iff find_None_iff dest: find_Some_set split: option.splits)
  also have "\<dots> \<longleftrightarrow> list_all validElem p \<and> x = strings_Join (rev p) ''.''"
  proof
    assume "list_all validElem p \<and> x = strings_Join (rev p) ''.''"
    moreover from this have "rev p \<noteq> []" using False by (cases p) auto
    ultimately show "list_all validElem ?parts \<and> p = rev ?parts"
      using bytes_Split_Join [of "rev p" "CHR ''.''"] validElem_no_dot by (auto simp: list_all_iff)
  qed (simp add: strings_Join_Split)
  finally show ?thesis .
qed

section \<open>The resolver stays on the path\<close>

definition on_path :: "query \<Rightarrow> authority \<Rightarrow> bool" where
  "on_path q a \<longleftrightarrow> prefix (au_Path a) (q_Path q)"

lemma sub_query_on_path: "on_path q a \<Longrightarrow> au_Path a @ q_Path (sub_query q a) = q_Path q"
  by (simp add: on_path_def sub_query_def TrimPrefix_prefix)

lemma add_sources_on_path:
  assumes "add_sources makeLookup target (sub_query q target) cs sources = Ok sources'"
    and "on_path q target" "list_all (on_path q) sources"
  shows "list_all (on_path q) sources'"
  using assms
proof (induction cs arbitrary: sources)
  case (Cons c cs)
  then obtain pfx where pfx: "AsPath (cl_Record c) ''path'' = Ok pfx" "prefix pfx (q_Path (sub_query q target))"
    by (auto simp: outcome_simps path_HasPrefix_iff split: if_splits)
  then have "prefix (au_Path target @ pfx) (q_Path q)"
    using sub_query_on_path [OF Cons.prems(2)] by (metis same_prefix_prefix)
  then have "on_path q \<lparr>au_Path = path_Concat [au_Path target, pfx], au_Lookup = lf, au_TTL = cl_TTL c\<rparr>" for lf
    by (simp add: on_path_def)
  with Cons pfx show ?case by (auto simp: path_HasPrefix_iff split: outcome.splits)
qed simp

lemma resolve_loop_log:
  assumes "list_all (on_path q) sources"
  shows "length (fst (resolve_loop h makeLookup q sources)) \<le> h \<and>
     list_all (\<lambda>(a, q2). q2 = sub_query q a \<and> on_path q a) (fst (resolve_loop h makeLookup q sources))"
  using assms
proof (induction h makeLookup q sources rule: resolve_loop.induct)
  case (3 h makeLookup q a as)
  let ?t = "last (a # as)" and ?ss = "butlast (a # as)"
  have t: "on_path q ?t" "list_all (on_path q) ?ss"
    using "3.prems" last_in_set [of "a # as"] in_set_butlastD [of _ "a # as"] by (auto simp: list_all_iff simp del: last.simps butlast.simps)
  show ?case
  proof (cases "\<exists>res sources'. au_Lookup ?t (sub_query q ?t) = Ok res \<and> res_IsRedirect res \<and>
      add_sources makeLookup ?t (sub_query q ?t) (res_Claims res) ?ss = Ok sources'")
    case True
    then obtain res sources' where r: "au_Lookup ?t (sub_query q ?t) = Ok res" "res_IsRedirect res"
      "add_sources makeLookup ?t (sub_query q ?t) (res_Claims res) ?ss = Ok sources'" by blast
    have "list_all (on_path q) sources'" by (rule add_sources_on_path [OF r(3) t])
    with "3.IH" [OF refl refl refl r(1) _ r(3)] r t show ?thesis
      by (auto simp: Let_def split: prod.splits simp del: last.simps butlast.simps)
  next
    case False
    then show ?thesis
      using t by (auto simp: Let_def split: outcome.splits simp del: last.simps butlast.simps)
  qed
qed auto


text \<open>A name server that redirects everything under \<^verbatim>\<open>com\<close> to one with a record.\<close>

definition sample_redirect :: redirect where
  "sample_redirect = \<lparr>rd_Path = [''com''], rd_Target = IDFromBytes [7]\<rparr>"

definition sample_lookup :: "redirect list \<Rightarrow> dns_record list \<Rightarrow> lookup_func" where
  "sample_lookup reds recs q =
     Ok (fst (basic_Handle \<lparr>bh_Redirects = reds, bh_Records = recs, bh_TTL = 0\<rparr> \<lparr>res_RequestID = [], res_IsRedirect = False, res_Claims = []\<rparr> q))"

definition sample_roots :: "authority list" where
  "sample_roots = [\<lparr>au_Path = [], au_Lookup = sample_lookup [sample_redirect] [], au_TTL = 0\<rparr>]"

abbreviation sample_makeLookup :: "dns_record \<Rightarrow> (dns_error, lookup_func) outcome" where
  "sample_makeLookup \<equiv> NewINET256Parser (\<lambda>a. sample_lookup [] [[''INET256'' \<mapsto> NewValue (JAddr a)]])"


section \<open>Redirects, predicates and handlers\<close>

lemma jsonParse_print: "json_ok j \<Longrightarrow> jsonParse d z (json_print j) = (case d j z of Ok v \<Rightarrow> Ok v | Err e \<Rightarrow> Err (DnsJson e) | Panic \<Rightarrow> Panic)"
  using json_Unmarshal_Marshal [of j d z] by (simp add: jsonParse_def json_Marshal_def)

lemma AsPath_ToRecord: "AsPath (ToRecord r) ''path'' = Ok (rd_Path r)"
  using decode_list_map [of "rd_Path r" decode_string JStr "[]" "[]"]
  by (simp add: AsPath_def value_of_def ToRecord_def NewValue_def jsonParse_print list_all_iff json_simps del: json_print.simps)

lemma AsINET256_ToRecord: "is_addr (rd_Target r) \<Longrightarrow> AsINET256 (ToRecord r) ''target'' = Ok (rd_Target r)"
  by (simp add: AsINET256_def value_of_def ToRecord_def NewValue_def jsonParse_print decode_JAddr)

text \<open>
  A redirect survives its encoding as a record: the path and the target read from the record are
  those it was made from.
\<close>

theorem AsRedirect_ToRecord:
  assumes "is_addr (rd_Target r)"
  shows "AsRedirect (ToRecord r) = Ok r"
  using assms by (simp add: AsRedirect_def AsPath_ToRecord AsINET256_ToRecord)

theorem AsRedirect_ToRecord_witness: "AsRedirect (ToRecord sample_redirect) = Ok sample_redirect"
  by (rule AsRedirect_ToRecord) (simp add: sample_redirect_def)

text \<open>
  The resolver follows the redirects of the basic server: where the root redirects a prefix of the
  queried path to another server, the answer is what that server returns for the rest of the path.
\<close>

theorem Resolve_follows_redirect:
  assumes "find (\<lambda>red. path_HasPrefix (q_Path q) (rd_Path red)) (bh_Redirects bh) = Some red" "is_addr (rd_Target red)"
    and "\<And>q. do root q = Ok (fst (basic_Handle bh \<lparr>res_RequestID = i, res_IsRedirect = False, res_Claims = []\<rparr> q))"
    and "do (rd_Target red) \<lparr>q_Path = drop (length (rd_Path red)) (q_Path q), q_Filter = q_Filter q\<rparr> = Ok res"
    and "\<not> res_IsRedirect res" "2 \<le> resolve_maxHops opts"
  shows "snd (Resolve [NewINET256Root do root] (NewINET256Parser do) q opts) = Ok (res_Claims res)"
proof -
  obtain h where h: "nat (resolve_maxHops opts) = Suc (Suc h)"
    using assms(6) by (metis add_2_eq_Suc nat_le_iff_add nat_numeral nat_mono)
  have pfx: "path_HasPrefix (q_Path q) (rd_Path red)" using find_Some_set [OF assms(1)] by simp
  have q: "sub_query q (NewINET256Root do root) = q"
    by (simp add: sub_query_def NewINET256Root_def TrimPrefix_def)
  have "NewINET256Parser do (ToRecord red) = Ok (do (rd_Target red))"
    by (simp add: NewINET256Parser_def AsINET256_ToRecord [OF assms(2)])
  then show ?thesis
    using assms(1,3-5) pfx q h
    by (simp add: Resolve_def basic_Handle_def AsPath_ToRecord sub_query_def NewINET256Root_def TrimPrefix_def Let_def)
qed

definition sample_do :: "addr \<Rightarrow> lookup_func" where
  "sample_do a = (if a = IDFromBytes [7] then sample_lookup [] [[''INET256'' \<mapsto> NewValue (JAddr a)]] else sample_lookup [sample_redirect] [])"

theorem Resolve_follows_redirect_witness:
  "snd (Resolve [NewINET256Root sample_do (IDFromBytes [1])] (NewINET256Parser sample_do)
      \<lparr>q_Path = [''com'', ''example''], q_Filter = MustHaveKeys [''INET256'']\<rparr> []) =
   Ok [\<lparr>cl_Record = [''INET256'' \<mapsto> NewValue (JAddr (IDFromBytes [7]))], cl_TTL = 300\<rparr>]"
proof -
  have ne: "IDFromBytes [1] \<noteq> IDFromBytes [7]" by code_simp
  show ?thesis
    by (subst Resolve_follows_redirect [where bh = "\<lparr>bh_Redirects = [sample_redirect], bh_Records = [], bh_TTL = 0\<rparr>" and red = sample_redirect and i = "[]"])
      (use ne in \<open>auto simp: sample_do_def sample_lookup_def sample_redirect_def basic_Handle_def resolve_maxHops_def MustHaveKeys_def query_Matches_def Let_def path_HasPrefix_iff\<close>)
qed

text \<open>A predicate made by \<^verbatim>\<open>MustHaveKeys\<close> matches exactly the records with all the keys.\<close>

lemma Matches_MustHaveKeys: "Matches (MustHaveKeys ks) r \<longleftrightarrow> set ks \<subseteq> dom r"
  by (auto simp: MustHaveKeys_def list_all_iff)

text \<open>What a server publishes as address and port is what the resolver returns, in order; other records are skipped.\<close>

definition ip_record :: "string \<Rightarrow> nat \<Rightarrow> dns_record" where
  "ip_record s p = [''IP'' \<mapsto> NewValue (JStr s), ''port'' \<mapsto> NewValue (JInt (int p))]"

lemma AsIP_ip_record: "AsIP parse (ip_record s p) ''IP'' = (case parse s of Some ip \<Rightarrow> Ok ip | None \<Rightarrow> Err (BadAddress s))"
  using jsonParse_print [of "JStr s" decode_string] by (simp add: AsIP_def AsString_def ip_record_def value_of_def NewValue_def decode_JStr)

lemma AsUint16_ip_record: "p < 2 ^ 16 \<Longrightarrow> AsUint16 (ip_record s p) ''port'' = Ok p"
  using jsonParse_print [of "JInt (int p)" "decode_uint 16"] decode_JNat [of p 16]
  by (simp add: AsUint16_def ip_record_def value_of_def NewValue_def)

theorem ResolveIPPort_published:
  assumes "snd (Resolve roots makeLookup \<lparr>q_Path = x, q_Filter = MustHaveKeys [''IP'', ''port'']\<rparr> opts) =
      Ok (map (\<lambda>(s, p). \<lparr>cl_Record = ip_record s p, cl_TTL = ttl\<rparr>) published)"
    and "\<forall>(s, p) \<in> set published. p < 2 ^ 16"
  shows "ResolveIPPort parse roots makeLookup x opts =
     Ok (List.map_filter (\<lambda>(s, p). map_option (\<lambda>ip. (ip, p)) (parse s)) published)"
proof -
  let ?step = "\<lambda>ent ret. case AsIP parse (cl_Record ent) ''IP'' of
           Err e \<Rightarrow> Ok ret
         | Panic \<Rightarrow> Panic
         | Ok ip \<Rightarrow> (case AsUint16 (cl_Record ent) ''port'' of Err e \<Rightarrow> Ok ret | Panic \<Rightarrow> Panic | Ok port \<Rightarrow> Ok (ret @ [(ip, port)]))"
  have "ofold ?step (map (\<lambda>(s, p). \<lparr>cl_Record = ip_record s p, cl_TTL = ttl\<rparr>) ps) ret =
      Ok (ret @ List.map_filter (\<lambda>(s, p). map_option (\<lambda>ip. (ip, p)) (parse s)) ps)" if "set ps \<subseteq> set published" for ps ret
    using that assms(2)
    by (induction ps arbitrary: ret) (auto simp: AsIP_ip_record AsUint16_ip_record List.map_filter_def split: option.splits)
  from this [of published "[]"] assms(1) show ?thesis by (simp add: ResolveIPPort_def)
qed

theorem ResolveIPPort_published_witness:
  "ResolveIPPort (\<lambda>s. if s = ''::1'' then Some (1 :: nat) else None) [\<lparr>au_Path = [], au_Lookup = sample_lookup [] [ip_record ''::1'' 80, ip_record ''localhost'' 22], au_TTL = 0\<rparr>]
     (\<lambda>r. Err MaxHopsExceeded) [''www''] [1] = Ok [(1, 80)]"
proof -
  let ?roots = "[\<lparr>au_Path = [], au_Lookup = sample_lookup [] [ip_record ''::1'' 80, ip_record ''localhost'' 22], au_TTL = 0\<rparr>]"
  have "snd (Resolve ?roots (\<lambda>r. Err MaxHopsExceeded) \<lparr>q_Path = [''www''], q_Filter = MustHaveKeys [''IP'', ''port'']\<rparr> [1]) =
      Ok (map (\<lambda>(s, p). \<lparr>cl_Record = ip_record s p, cl_TTL = 300\<rparr>) [(''::1'', 80), (''localhost'', 22)])"
    by (simp add: Resolve_def resolve_maxHops_def sample_lookup_def basic_Handle_def query_Matches_def MustHaveKeys_def ip_record_def sub_query_def Let_def)
  from ResolveIPPort_published [OF this, where parse = "\<lambda>s. if s = ''::1'' then Some (1 :: nat) else None"] show ?thesis
    by (simp add: List.map_filter_def)
qed

text \<open>
  \<^verbatim>\<open>LayeredHandler.Handle\<close> never delegates: it returns false when no layer matches and otherwise calls
  itself for ever.
\<close>

theorem layered_Handle_diverges:
  "layered_Handle h q = (if \<exists>l \<in> set h. prefix (q_Path q) l then None else Some False)"
proof (cases "\<exists>l \<in> set h. prefix (q_Path q) l")
  case True
  have "\<not> (\<exists>l \<in> set h. prefix (q_Path q) l)" if "layered_Handle h q = Some b" for b
    using _ that
    by (rule layered_Handle.raw_induct [of "\<lambda>h q b. \<not> (\<exists>l \<in> set h. prefix (q_Path q) l)"])
      (auto simp: find_None_iff path_HasPrefix_iff split: option.splits)
  with True show ?thesis by (cases "layered_Handle h q") auto
next
  case False
  then have "find (\<lambda>l. path_HasPrefix l (q_Path q)) h = None" by (auto simp: find_None_iff path_HasPrefix_iff)
  with False show ?thesis by (subst layered_Handle.simps) simp
qed

text \<open>
  \<^verbatim>\<open>HasSuffix\<close> never holds for a non-empty suffix: it returns false or panics, on equal paths too.
\<close>

theorem HasSuffix_never:
  assumes "s \<noteq> []"
  shows "path_HasSuffix x s \<noteq> Some True"
proof -
  have "HasSuffix_loop x s i \<noteq> Some True" for i
    by (induction x s i rule: HasSuffix_loop.induct) (subst HasSuffix_loop.simps, auto)
  with assms show ?thesis by (simp add: path_HasSuffix_def)
qed

theorem HasSuffix_never_witness: "path_HasSuffix [''a'', ''b''] [''b''] \<noteq> Some True"
  by (rule HasSuffix_never) simp

end
