(* ===== verification/Services.thy ===== *)
theory Services
  imports Peers
begin

text \<open>
  Services that own nodes: \<^verbatim>\<open>src/inet256mem\<close>, which connects its nodes in memory, and
  \<^verbatim>\<open>src/internal/rcsrv\<close>, which counts the references to the nodes of another service. The interface
  \<^verbatim>\<open>inet256.Service\<close> is the record \<open>service_ops\<close>; what \<^verbatim>\<open>rcsrv\<close> relies on is the locale \<open>service\<close>,
  interpreted on the memory service here and on the mesh server in its own theory.
\<close>

section \<open>Messages and queues\<close>

record message =
  m_Src :: addr
  m_Dst :: addr
  m_Payload :: bytes

datatype svc_error = NodeAlreadyOpen | MainKeyUsed | NoAddrWithPrefix | NoPublicKey | QueueClosed

text \<open>
  The receive queues are \<^verbatim>\<open>swarmutil.Queue\<close>, a package that is not part of the sources. \<open>q_deliver\<close> tells
  whether the message was accepted, and \<open>q_receive\<close> is \<open>None\<close> while the call blocks.
\<close>

record 'q queue_ops =
  q_new :: "int \<Rightarrow> 'q"
  q_deliver :: "'q \<Rightarrow> message \<Rightarrow> 'q \<times> bool"
  q_receive :: "'q \<Rightarrow> ('q \<times> (svc_error, message) outcome) option"
  q_close :: "'q \<Rightarrow> 'q"

text \<open>The address of a private key, which panics when the key cannot be marshalled.\<close>

definition key_ID :: "('p, 's, 'r) circl \<Rightarrow> sponge \<Rightarrow> string list \<Rightarrow> 's private_key \<Rightarrow> addr option" where
  "key_ID c sp ks privKey = NewID c sp ks (private_Public c privKey)"

section \<open>The memory service\<close>

text \<open>
  A \<^verbatim>\<open>memNode\<close> is a pointer that outlives its entry in the service: a handle is its public key and the
  index of its queue, which stays where it is when the node is deleted.
\<close>

record 'p memNode =
  mn_publicKey :: "'p public_key"
  mn_incoming :: nat

record ('p, 'q) memService =
  ms_queueLen :: int
  ms_nodes :: "addr \<rightharpoonup> 'p memNode"
  ms_queues :: "'q list"

definition defaultQueueLen :: int where "defaultQueueLen = 4"

text \<open>An option is the queue length it sets.\<close>

definition mem_New :: "int list \<Rightarrow> ('p, 'q) memService" where
  "mem_New opts = \<lparr>ms_queueLen = fold (\<lambda>l _. l) opts defaultQueueLen, ms_nodes = Map.empty, ms_queues = []\<rparr>"

definition newMemNode :: "'q queue_ops \<Rightarrow> ('p, 's, 'r) circl \<Rightarrow> ('p, 'q) memService \<Rightarrow> 's private_key \<Rightarrow> ('p, 'q) memService \<times> 'p memNode" where
  "newMemNode Q c s privKey =
     (s\<lparr>ms_queues := ms_queues s @ [q_new Q (ms_queueLen s)]\<rparr>,
      \<lparr>mn_publicKey = private_Public c privKey, mn_incoming = length (ms_queues s)\<rparr>)"

definition mem_Open ::
  "'q queue_ops \<Rightarrow> ('p, 's, 'r) circl \<Rightarrow> sponge \<Rightarrow> string list \<Rightarrow> 's private_key \<Rightarrow> ('p, 'q) memService \<Rightarrow>
   (svc_error, ('p, 'q) memService \<times> 'p memNode) outcome" where
  "mem_Open Q c sp ks privKey s =
     obind (unwinds (key_ID c sp ks privKey)) (\<lambda>i.
       if ms_nodes s i \<noteq> None then Err NodeAlreadyOpen
       else let (s1, node) = newMemNode Q c s privKey in Ok (s1\<lparr>ms_nodes := (ms_nodes s1)(i \<mapsto> node)\<rparr>, node))"

definition mem_delete :: "'q queue_ops \<Rightarrow> addr \<Rightarrow> ('p, 'q) memService \<Rightarrow> ('p, 'q) memService" where
  "mem_delete Q i s =
     (case ms_nodes s i of
        None \<Rightarrow> s
      | Some node \<Rightarrow> s\<lparr>ms_queues := (ms_queues s)[mn_incoming node := q_close Q (ms_queues s ! mn_incoming node)],
                      ms_nodes := (ms_nodes s)(i := None)\<rparr>)"

definition mem_Drop ::
  "'q queue_ops \<Rightarrow> ('p, 's, 'r) circl \<Rightarrow> sponge \<Rightarrow> string list \<Rightarrow> 's private_key \<Rightarrow> ('p, 'q) memService \<Rightarrow> ('p, 'q) memService option" where
  "mem_Drop Q c sp ks privKey s = Option.bind (key_ID c sp ks privKey) (\<lambda>i. Some (mem_delete Q i s))"

text \<open>\<open>ids\<close> is the order in which the nodes are visited.\<close>

definition mem_findAddr :: "addr list \<Rightarrow> bytes \<Rightarrow> int \<Rightarrow> (svc_error, addr) outcome" where
  "mem_findAddr ids pfx nbits =
     (case find (\<lambda>i. id_HasPrefix i pfx nbits) ids of Some i \<Rightarrow> Ok i | None \<Rightarrow> Err NoAddrWithPrefix)"

definition getNode :: "addr \<Rightarrow> ('p, 'q) memService \<Rightarrow> 'p memNode option" where
  "getNode x s = ms_nodes s x"

definition mem_LocalAddr :: "('p, 's, 'r) circl \<Rightarrow> sponge \<Rightarrow> string list \<Rightarrow> 'p memNode \<Rightarrow> addr option" where
  "mem_LocalAddr c sp ks node = NewID c sp ks (mn_publicKey node)"

text \<open>A message that is not accepted is dropped, and so is one to a node that does not exist.\<close>

definition mem_Send ::
  "'q queue_ops \<Rightarrow> ('p, 's, 'r) circl \<Rightarrow> sponge \<Rightarrow> string list \<Rightarrow> 'p memNode \<Rightarrow> addr \<Rightarrow> bytes \<Rightarrow> ('p, 'q) memService \<Rightarrow>
   ('p, 'q) memService option" where
  "mem_Send Q c sp ks node dst data s =
     (case getNode dst s of
        None \<Rightarrow> Some s
      | Some dstNode \<Rightarrow>
          Option.bind (mem_LocalAddr c sp ks node) (\<lambda>src.
            let (q, accepted) = q_deliver Q (ms_queues s ! mn_incoming dstNode) \<lparr>m_Src = src, m_Dst = dst, m_Payload = data\<rparr>
            in Some (s\<lparr>ms_queues := (ms_queues s)[mn_incoming dstNode := q]\<rparr>)))"

definition mem_Receive ::
  "'q queue_ops \<Rightarrow> 'p memNode \<Rightarrow> ('p, 'q) memService \<Rightarrow> (('p, 'q) memService \<times> (svc_error, message) outcome) option" where
  "mem_Receive Q node s =
     map_option (\<lambda>(q, r). (s\<lparr>ms_queues := (ms_queues s)[mn_incoming node := q]\<rparr>, r)) (q_receive Q (ms_queues s ! mn_incoming node))"

definition mem_Close ::
  "'q queue_ops \<Rightarrow> ('p, 's, 'r) circl \<Rightarrow> sponge \<Rightarrow> string list \<Rightarrow> 'p memNode \<Rightarrow> ('p, 'q) memService \<Rightarrow>
   (('p, 'q) memService \<times> svc_error option) option" where
  "mem_Close Q c sp ks node s = Option.bind (mem_LocalAddr c sp ks node) (\<lambda>i. Some (mem_delete Q i s, None))"

definition mem_LookupPublicKey :: "addr \<Rightarrow> ('p, 'q) memService \<Rightarrow> (svc_error, 'p public_key) outcome" where
  "mem_LookupPublicKey target s = (case ms_nodes s target of Some node \<Rightarrow> Ok (mn_publicKey node) | None \<Rightarrow> Err NoPublicKey)"

section \<open>Counting references\<close>

text \<open>What \<^verbatim>\<open>rcsrv\<close> uses of a service with handles \<open>'h\<close>; \<open>sv_Close\<close> is the node's own \<^verbatim>\<open>Close\<close>.\<close>

record ('s, 'k, 'h, 'e) service_ops =
  sv_ID :: "'k \<Rightarrow> addr option"
  sv_Open :: "'k \<Rightarrow> 's \<Rightarrow> ('e, 's \<times> 'h) outcome"
  sv_Close :: "'h \<Rightarrow> 's \<Rightarrow> ('s \<times> 'e option) option"
  sv_LocalAddr :: "'h \<Rightarrow> addr option"

record ('s, 'h) rc_server =
  rc_service :: 's
  rc_nodes :: "addr \<rightharpoonup> 'h \<times> int"

definition Wrap :: "'s \<Rightarrow> ('s, 'h) rc_server" where
  "Wrap x = \<lparr>rc_service = x, rc_nodes = Map.empty\<rparr>"

definition rc_Open :: "('s, 'k, 'h, 'e) service_ops \<Rightarrow> 'k \<Rightarrow> ('s, 'h) rc_server \<Rightarrow> ('e, ('s, 'h) rc_server \<times> 'h) outcome" where
  "rc_Open S pk r =
     obind (unwinds (sv_ID S pk)) (\<lambda>i.
       case rc_nodes r i of
         Some (node, count) \<Rightarrow> Ok (r\<lparr>rc_nodes := (rc_nodes r)(i \<mapsto> (node, count + 1))\<rparr>, node)
       | None \<Rightarrow>
           obind (sv_Open S pk (rc_service r)) (\<lambda>(s', node).
             Ok (r\<lparr>rc_service := s', rc_nodes := (rc_nodes r)(i \<mapsto> (node, 1))\<rparr>, node)))"

definition rc_delete :: "('s, 'k, 'h, 'e) service_ops \<Rightarrow> addr \<Rightarrow> ('s, 'h) rc_server \<Rightarrow> (('s, 'h) rc_server \<times> 'e option) option" where
  "rc_delete S i r =
     (case rc_nodes r i of
        None \<Rightarrow> Some (r\<lparr>rc_nodes := (rc_nodes r)(i := None)\<rparr>, None)
      | Some (node, count) \<Rightarrow>
          map_option (\<lambda>(s', e). (r\<lparr>rc_service := s', rc_nodes := (rc_nodes r)(i := None)\<rparr>, e)) (sv_Close S node (rc_service r)))"

definition rc_Drop :: "('s, 'k, 'h, 'e) service_ops \<Rightarrow> 'k \<Rightarrow> ('s, 'h) rc_server \<Rightarrow> (('s, 'h) rc_server \<times> 'e option) option" where
  "rc_Drop S pk r = Option.bind (sv_ID S pk) (\<lambda>i. rc_delete S i r)"

definition rc_Close :: "('s, 'k, 'h, 'e) service_ops \<Rightarrow> 'h \<Rightarrow> ('s, 'h) rc_server \<Rightarrow> (('s, 'h) rc_server \<times> 'e option) option" where
  "rc_Close S node r =
     Option.bind (sv_LocalAddr S node) (\<lambda>i.
       case rc_nodes r i of
         None \<Rightarrow> Some (r, None)
       | Some (h, count) \<Rightarrow>
           let r' = r\<lparr>rc_nodes := (rc_nodes r)(i \<mapsto> (h, count - 1))\<rparr>
           in if count - 1 < 1 then rc_delete S i r' else Some (r', None))"
section \<open>Traces of a reference-counting server\<close>

text \<open>What happened to the handles of an address, oldest first, and how many are held after it.\<close>

datatype rc_event = Opened addr | Closed addr | Dropped addr

fun handles_after :: "addr \<Rightarrow> rc_event \<Rightarrow> nat \<Rightarrow> nat" where
  "handles_after i (Opened j) n = (if i = j then n + 1 else n)"
| "handles_after i (Closed j) n = (if i = j then n - 1 else n)"
| "handles_after i (Dropped j) n = (if i = j then 0 else n)"

definition handles :: "rc_event list \<Rightarrow> addr \<Rightarrow> nat" where
  "handles es i = fold (handles_after i) es 0"

inductive rc_trace :: "('s, 'k, 'h, 'e) service_ops \<Rightarrow> 's \<Rightarrow> rc_event list \<Rightarrow> ('s, 'h) rc_server \<Rightarrow> bool"
  for S :: "('s, 'k, 'h, 'e) service_ops" and s0 :: 's where
  start: "rc_trace S s0 [] (Wrap s0)"
| opened: "rc_trace S s0 (es @ [Opened i]) r'"
    if "rc_trace S s0 es r" "rc_Open S pk r = Ok (r', node)" "sv_ID S pk = Some i"
| closed: "rc_trace S s0 (es @ [Closed i]) r'"
    if "rc_trace S s0 es r" "rc_Close S node r = Some (r', e)" "sv_LocalAddr S node = Some i"
| dropped: "rc_trace S s0 (es @ [Dropped i]) r'"
    if "rc_trace S s0 es r" "rc_Drop S pk r = Some (r', e)" "sv_ID S pk = Some i"

inductive_cases rc_trace_startE: "rc_trace S s0 [] r"

lemma handles_snoc: "handles (es @ [e]) i = handles_after i e (handles es i)"
  by (simp add: handles_def)

text \<open>The entries of the server are the addresses with handles, with their number.\<close>

fun entry_ok :: "('s, 'k, 'h, 'e) service_ops \<Rightarrow> addr \<Rightarrow> nat \<Rightarrow> ('h \<times> int) option \<Rightarrow> bool" where
  "entry_ok S i n None \<longleftrightarrow> n = 0"
| "entry_ok S i n (Some (node, count)) \<longleftrightarrow> count = int n \<and> 0 < n \<and> sv_LocalAddr S node = Some i"

definition rc_counts :: "('s, 'k, 'h, 'e) service_ops \<Rightarrow> rc_event list \<Rightarrow> ('s, 'h) rc_server \<Rightarrow> bool" where
  "rc_counts S es r \<longleftrightarrow> (\<forall>i. entry_ok S i (handles es i) (rc_nodes r i))"

lemma rc_counts_None: "rc_counts S es r \<Longrightarrow> rc_nodes r i = None \<Longrightarrow> handles es i = 0"
  unfolding rc_counts_def by (metis entry_ok.simps(1))

lemma rc_counts_Some:
  "rc_counts S es r \<Longrightarrow> rc_nodes r i = Some (node, count) \<Longrightarrow>
   count = int (handles es i) \<and> 0 < handles es i \<and> sv_LocalAddr S node = Some i"
  unfolding rc_counts_def by (metis entry_ok.simps(2))

lemma rc_counts_update:
  assumes "rc_counts S es r" "rc_nodes r' = (rc_nodes r)(i := x)"
    and "\<And>j. j \<noteq> i \<Longrightarrow> handles_after j e (handles es j) = handles es j"
    and "entry_ok S i (handles_after i e (handles es i)) x"
  shows "rc_counts S (es @ [e]) r'"
  using assms by (simp add: rc_counts_def handles_snoc)

text \<open>
  What \<^verbatim>\<open>rcsrv\<close> relies on: opening a node makes its address live and closing a handle makes it not
  live, without touching other addresses.
\<close>

locale service =
  fixes S :: "('s, 'k, 'h, 'e) service_ops"
    and inv :: "'s \<Rightarrow> bool"
    and live :: "'s \<Rightarrow> addr set"
  assumes open_live: "inv s \<Longrightarrow> sv_ID S k = Some i \<Longrightarrow> sv_Open S k s = Ok (s', h) \<Longrightarrow>
      inv s' \<and> sv_LocalAddr S h = Some i \<and> live s' = insert i (live s)"
    and close_live: "inv s \<Longrightarrow> sv_LocalAddr S h = Some i \<Longrightarrow> sv_Close S h s = Some (s', e) \<Longrightarrow>
      inv s' \<and> live s' = live s - {i}"
begin

definition in_step :: "rc_event list \<Rightarrow> ('s, 'h) rc_server \<Rightarrow> bool" where
  "in_step es r \<longleftrightarrow> inv (rc_service r) \<and> live (rc_service r) = {i. 0 < handles es i} \<and> rc_counts S es r"

lemma in_stepD:
  assumes "in_step es r" "rc_nodes r i = Some (node, n)"
  shows "n = int (handles es i)" "0 < handles es i" "sv_LocalAddr S node = Some i"
  using assms rc_counts_Some [OF _ assms(2), of S es] unfolding in_step_def by blast+

lemma open_in_step:
  assumes "in_step es r" "rc_Open S pk r = Ok (r', node)" "sv_ID S pk = Some i"
  shows "in_step (es @ [Opened i]) r'"
proof (cases "rc_nodes r i")
  case None
  then obtain s' where s': "sv_Open S pk (rc_service r) = Ok (s', node)"
      "r' = r\<lparr>rc_service := s', rc_nodes := (rc_nodes r)(i \<mapsto> (node, 1))\<rparr>"
    using assms(2,3) by (auto simp: rc_Open_def outcome_simps)
  have 0: "handles es i = 0" using assms(1) None by (auto simp: in_step_def intro: rc_counts_None)
  have "rc_counts S (es @ [Opened i]) r'"
    using assms(1,3) s' 0 open_live [of "rc_service r" pk i]
    by (intro rc_counts_update [where r = r and i = i]) (auto simp: in_step_def)
  then show ?thesis
    using assms(1,3) s' open_live [of "rc_service r" pk i] by (auto simp: in_step_def handles_snoc)
next
  case (Some x)
  then obtain n where n: "rc_nodes r i = Some (node, n)" "r' = r\<lparr>rc_nodes := (rc_nodes r)(i \<mapsto> (node, n + 1))\<rparr>"
    using assms(2,3) by (cases x) (auto simp: rc_Open_def outcome_simps)
  note node = in_stepD [OF assms(1) n(1)]
  then have "rc_counts S (es @ [Opened i]) r'"
    using assms(1) n(2) by (intro rc_counts_update [where r = r and i = i]) (auto simp: in_step_def)
  with assms(1) n(2) node show ?thesis by (auto simp: in_step_def handles_snoc)
qed

lemma delete_in_step:
  assumes "in_step es r" "rc_nodes q = (rc_nodes r)(i := x)" "rc_service q = rc_service r"
    and "rc_delete S i q = Some (r', e)" "x = None \<Longrightarrow> rc_nodes r i = None"
    and "\<And>node n. x = Some (node, n) \<Longrightarrow> sv_LocalAddr S node = Some i"
    and "handles_after i ev (handles es i) = 0" "\<And>j. j \<noteq> i \<Longrightarrow> handles_after j ev (handles es j) = handles es j"
  shows "in_step (es @ [ev]) r'"
proof -
  have live: "inv (rc_service r') \<and> live (rc_service r') = live (rc_service r) - {i}"
  proof (cases x)
    case None
    then have "handles es i = 0" using assms(1,5) by (auto simp: in_step_def intro: rc_counts_None)
    then show ?thesis using None assms(1-4) by (auto simp: rc_delete_def in_step_def)
  next
    case (Some y)
    then show ?thesis
      using assms(1-4) assms(6) [of "fst y" "snd y"] close_live [of "rc_service r" "fst y" i]
      by (cases y) (auto simp: rc_delete_def in_step_def)
  qed
  have nodes: "rc_nodes r' = (rc_nodes r)(i := None)"
    using assms(2,4) by (auto simp: rc_delete_def split: option.splits)
  have "{j. 0 < handles (es @ [ev]) j} = {j. 0 < handles es j} - {i}"
    using assms(7,8) by (auto simp: handles_snoc) (metis not_gr_zero)+
  moreover from nodes have "rc_counts S (es @ [ev]) r'"
    using assms(1,7,8) by (intro rc_counts_update [where r = r and i = i and x = None]) (auto simp: in_step_def)
  ultimately show ?thesis using live assms(1) unfolding in_step_def by blast
qed

lemma trace_in_step:
  assumes "rc_trace S s0 es r" "inv s0" "live s0 = {}"
  shows "in_step es r"
  using assms(1)
proof induction
  case start
  then show ?case using assms(2,3) by (auto simp: in_step_def rc_counts_def Wrap_def handles_def)
next
  case (opened es r pk r' node i)
  then show ?case by (intro open_in_step)
next
  case (closed es r node r' e i)
  show ?case
  proof (cases "rc_nodes r i")
    case None
    then have "r' = r" "handles es i = 0"
      using closed by (auto simp: rc_Close_def in_step_def intro: rc_counts_None)
    moreover from this have "handles (es @ [Closed i]) j = handles es j" for j by (simp add: handles_snoc)
    ultimately show ?thesis using closed.IH by (simp add: in_step_def rc_counts_def)
  next
    case (Some x)
    then obtain h n where n: "rc_nodes r i = Some (h, n)" by (cases x) auto
    note hn = in_stepD [OF closed.IH this]
    let ?q = "r\<lparr>rc_nodes := (rc_nodes r)(i \<mapsto> (h, n - 1))\<rparr>"
    show ?thesis
    proof (cases "n - 1 < 1")
      case True
      then have "rc_delete S i ?q = Some (r', e)" using closed.hyps n by (simp add: rc_Close_def Let_def)
      then show ?thesis
        using closed.IH hn True by (intro delete_in_step [where q = ?q and r = r and x = "Some (h, n - 1)"]) auto
    next
      case False
      then have r': "r' = ?q" using closed.hyps n by (simp add: rc_Close_def Let_def)
      have "rc_counts S (es @ [Closed i]) r'"
        using closed.IH r' hn False by (intro rc_counts_update [where r = r and i = i]) (auto simp: in_step_def)
      then show ?thesis using closed.IH r' hn False by (auto simp: in_step_def handles_snoc)
    qed
  qed
next
  case (dropped es r pk r' e i)
  then show ?case
    by (intro delete_in_step [where q = r and r = r and i = i and x = "rc_nodes r i"])
      (auto simp: rc_Drop_def dest: in_stepD)
qed

end

section \<open>The memory service as a service\<close>

definition mem_ops ::
  "'q queue_ops \<Rightarrow> ('p, 's, 'r) circl \<Rightarrow> sponge \<Rightarrow> string list \<Rightarrow> (('p, 'q) memService, 's private_key, 'p memNode, svc_error) service_ops" where
  "mem_ops Q c sp ks = \<lparr>sv_ID = key_ID c sp ks, sv_Open = mem_Open Q c sp ks, sv_Close = mem_Close Q c sp ks, sv_LocalAddr = mem_LocalAddr c sp ks\<rparr>"

text \<open>Every entry is a node with the address of its key and a queue of its own.\<close>

definition mem_wf :: "('p, 's, 'r) circl \<Rightarrow> sponge \<Rightarrow> string list \<Rightarrow> ('p, 'q) memService \<Rightarrow> bool" where
  "mem_wf c sp ks s \<longleftrightarrow>
     (\<forall>i node. ms_nodes s i = Some node \<longrightarrow> mem_LocalAddr c sp ks node = Some i \<and> mn_incoming node < length (ms_queues s)) \<and>
     (\<forall>i j node node'. ms_nodes s i = Some node \<longrightarrow> ms_nodes s j = Some node' \<longrightarrow> mn_incoming node = mn_incoming node' \<longrightarrow> i = j)"

lemma mem_wfD:
  assumes "mem_wf c sp ks s" "ms_nodes s i = Some node"
  shows "mem_LocalAddr c sp ks node = Some i" "mn_incoming node < length (ms_queues s)"
    and "ms_nodes s j = Some node' \<Longrightarrow> mn_incoming node = mn_incoming node' \<Longrightarrow> i = j"
  using assms unfolding mem_wf_def by blast+

lemma mem_Open_ok:
  assumes "mem_wf c sp ks s" "mem_Open Q c sp ks privKey s = Ok (s', node)"
  obtains i where "key_ID c sp ks privKey = Some i" "ms_nodes s i = None" "mem_LocalAddr c sp ks node = Some i"
    "ms_nodes s' = (ms_nodes s)(i \<mapsto> node)" "ms_queues s' = ms_queues s @ [q_new Q (ms_queueLen s)]" "mn_incoming node = length (ms_queues s)"
  using assms(2) that
  by (auto simp: mem_Open_def newMemNode_def mem_LocalAddr_def key_ID_def outcome_simps split: if_splits)

lemma mem_Open_wf:
  assumes "mem_wf c sp ks s" "mem_Open Q c sp ks privKey s = Ok (s', node)"
  shows "mem_wf c sp ks s'"
proof -
  obtain i where i: "mem_LocalAddr c sp ks node = Some i" "ms_nodes s' = (ms_nodes s)(i \<mapsto> node)"
      "ms_queues s' = ms_queues s @ [q_new Q (ms_queueLen s)]" "mn_incoming node = length (ms_queues s)"
    using mem_Open_ok [OF assms] .
  have old: "mem_LocalAddr c sp ks n = Some j \<and> mn_incoming n \<noteq> mn_incoming node \<and> mn_incoming n < length (ms_queues s')"
    if "ms_nodes s j = Some n" for j n
    using mem_wfD(1,2) [OF assms(1) that] i(3,4) by simp
  have cases: "j = i \<and> n = node \<or> ms_nodes s j = Some n" if "ms_nodes s' j = Some n" for j n
    using that i(2) by (auto split: if_splits)
  show ?thesis unfolding mem_wf_def
  proof (intro conjI allI impI)
    fix j n assume "ms_nodes s' j = Some n"
    then have "j = i \<and> n = node \<or> ms_nodes s j = Some n" by (rule cases)
    then show "mem_LocalAddr c sp ks n = Some j" "mn_incoming n < length (ms_queues s')"
      using old [of j n] i(1,3,4) by auto
  next
    fix j j' n n' assume "ms_nodes s' j = Some n" "ms_nodes s' j' = Some n'" "mn_incoming n = mn_incoming n'"
    then show "j = j'" using cases old mem_wfD(3) [OF assms(1)] by metis
  qed
qed

lemma mem_delete_wf: "mem_wf c sp ks s \<Longrightarrow> mem_wf c sp ks (mem_delete Q i s)"
  unfolding mem_wf_def mem_delete_def by (auto split: option.splits if_splits)

lemma dom_mem_delete: "dom (ms_nodes (mem_delete Q i s)) = dom (ms_nodes s) - {i}"
  by (auto simp: mem_delete_def split: option.splits if_splits)

interpretation mem: service "mem_ops Q c sp ks" "mem_wf c sp ks" "\<lambda>s. dom (ms_nodes s)"
  for Q :: "'q queue_ops" and c :: "('p, 's, 'r) circl" and sp ks
proof
  fix s s' :: "('p, 'q) memService" and k :: "'s private_key" and i and h :: "'p memNode"
  assume wf: "mem_wf c sp ks s" and "sv_ID (mem_ops Q c sp ks) k = Some i" and "sv_Open (mem_ops Q c sp ks) k s = Ok (s', h)"
  then have o: "mem_Open Q c sp ks k s = Ok (s', h)" "key_ID c sp ks k = Some i" by (simp_all add: mem_ops_def)
  obtain j where "key_ID c sp ks k = Some j" "mem_LocalAddr c sp ks h = Some j" "ms_nodes s' = (ms_nodes s)(j \<mapsto> h)"
    using mem_Open_ok [OF wf o(1)] .
  with o(2) mem_Open_wf [OF wf o(1)]
  show "mem_wf c sp ks s' \<and> sv_LocalAddr (mem_ops Q c sp ks) h = Some i \<and> dom (ms_nodes s') = insert i (dom (ms_nodes s))"
    by (simp add: mem_ops_def)
next
  fix s s' :: "('p, 'q) memService" and h :: "'p memNode" and i e
  assume wf: "mem_wf c sp ks s" and "sv_LocalAddr (mem_ops Q c sp ks) h = Some i" "sv_Close (mem_ops Q c sp ks) h s = Some (s', e)"
  then have "s' = mem_delete Q i s" by (simp add: mem_ops_def mem_Close_def)
  then show "mem_wf c sp ks s' \<and> dom (ms_nodes s') = dom (ms_nodes s) - {i}"
    using mem_delete_wf [OF wf] dom_mem_delete by metis
qed

section \<open>Properties\<close>

text \<open>
  In every state that opening and closing nodes can lead to, \<^verbatim>\<open>FindAddr\<close> returns the address of an open
  node under the prefix if there is one, and \<^verbatim>\<open>LookupPublicKey\<close> returns a key of that very address.
\<close>

theorem mem_lookups_correct:
  assumes "mem_wf c sp ks s" "enumerates ids (ms_nodes s)"
  shows "(case mem_findAddr ids pfx nbits of
        Ok i \<Rightarrow> ms_nodes s i \<noteq> None \<and> id_HasPrefix i pfx nbits \<and>
          (\<exists>pub. mem_LookupPublicKey i s = Ok pub \<and> NewID c sp ks pub = Some i)
      | Err e \<Rightarrow> \<not> (\<exists>i. ms_nodes s i \<noteq> None \<and> id_HasPrefix i pfx nbits)
      | Panic \<Rightarrow> False)"
proof (cases "find (\<lambda>i. id_HasPrefix i pfx nbits) ids")
  case None
  then have "\<forall>i \<in> set ids. \<not> id_HasPrefix i pfx nbits" by (simp add: find_None_iff)
  with None assms(2) show ?thesis by (auto simp: mem_findAddr_def enumerates_def)
next
  case (Some i)
  then have "i \<in> set ids" "id_HasPrefix i pfx nbits" by (auto simp: find_Some_iff)
  moreover from this assms(2) obtain node where "ms_nodes s i = Some node" by (auto simp: enumerates_def)
  ultimately show ?thesis
    using Some mem_wfD(1) [OF assms(1)] by (auto simp: mem_findAddr_def mem_LookupPublicKey_def mem_LocalAddr_def)
qed

text \<open>Two nodes with the sample keys.\<close>

definition sample_queues :: "message list queue_ops" where
  "sample_queues = \<lparr>q_new = (\<lambda>n. []), q_deliver = (\<lambda>q m. (q @ [m], True)),
     q_receive = (\<lambda>q. case q of [] \<Rightarrow> None | m # q' \<Rightarrow> Some (q', Ok m)), q_close = (\<lambda>q. q)\<rparr>"

definition sample_ID :: "bool \<Rightarrow> addr" where
  "sample_ID k = the (key_ID sample_circl sample_sponge default_tags (BasePrivate Ed25519 k))"

definition sample_mem :: "(bool, message list) memService" where
  "sample_mem = (case mem_Open sample_queues sample_circl sample_sponge default_tags (BasePrivate Ed25519 True) (mem_New []) of Ok (s, h) \<Rightarrow> s)"

lemma key_ID_base: "enumerates ks (Schemes DefaultPKI) \<Longrightarrow> circl_marshals c \<Longrightarrow> \<exists>i. key_ID c sp ks (BasePrivate a k) = Some i"
  using MarshalPublicKey_base [of c ks a "c_public c a k"]
  by (auto simp: key_ID_def NewID_def pki_NewID_def MarshalPublicKey_def split: outcome.splits)

lemma sample_ID: "key_ID sample_circl sample_sponge default_tags (BasePrivate Ed25519 k) = Some (sample_ID k)"
  using key_ID_base [OF default_tags_enumerates sample_circl_marshals, of sample_sponge Ed25519 k] by (auto simp: sample_ID_def)

lemma is_addr_sample_ID: "is_addr (sample_ID True)"
  by code_simp

lemma sample_mem:
  "mem_Open sample_queues sample_circl sample_sponge default_tags (BasePrivate Ed25519 True) (mem_New []) =
     Ok (sample_mem, \<lparr>mn_publicKey = BasePublic Ed25519 True, mn_incoming = 0\<rparr>)"
  "ms_nodes sample_mem = [sample_ID True \<mapsto> \<lparr>mn_publicKey = BasePublic Ed25519 True, mn_incoming = 0\<rparr>]"
  by (simp_all add: sample_mem_def mem_Open_def sample_ID newMemNode_def mem_New_def) (simp_all add: sample_circl_def)

lemma mem_New_wf: "mem_wf c sp ks (mem_New opts)"
  by (simp add: mem_wf_def mem_New_def)

theorem mem_lookups_correct_witness:
  "case mem_findAddr [sample_ID True] (sample_ID True) 8 of
     Ok i \<Rightarrow> \<exists>pub. mem_LookupPublicKey i sample_mem = Ok pub \<and> NewID sample_circl sample_sponge default_tags pub = Some i
   | Err e \<Rightarrow> False | Panic \<Rightarrow> False"
proof -
  have "id_HasPrefix (sample_ID True) (sample_ID True) 8" by code_simp
  with mem_lookups_correct [OF mem_Open_wf [OF mem_New_wf sample_mem(1)], of "[sample_ID True]" "sample_ID True" 8]
  show ?thesis by (simp add: mem_findAddr_def enumerates_def sample_mem(2))
qed

text \<open>
  What the queues promise: a queue holds a sequence of messages, an accepted message is appended to it,
  a message that is not accepted changes nothing, and receiving takes the first.
\<close>

definition queue_laws :: "'q queue_ops \<Rightarrow> ('q \<Rightarrow> message list) \<Rightarrow> bool" where
  "queue_laws Q held \<longleftrightarrow>
     (\<forall>q m. held (fst (q_deliver Q q m)) = (if snd (q_deliver Q q m) then held q @ [m] else held q)) \<and>
     (\<forall>q m ms. held q = m # ms \<longrightarrow> (\<exists>q'. q_receive Q q = Some (q', Ok m) \<and> held q' = ms))"

text \<open>Receiving a number of messages one after the other.\<close>

fun receives :: "'q queue_ops \<Rightarrow> 'p memNode \<Rightarrow> nat \<Rightarrow> ('p, 'q) memService \<Rightarrow> (('p, 'q) memService \<times> message list) option" where
  "receives Q node 0 s = Some (s, [])"
| "receives Q node (Suc n) s =
     (case mem_Receive Q node s of
        Some (s', Ok m) \<Rightarrow> map_option (\<lambda>(s'', ms). (s'', m # ms)) (receives Q node n s')
      | _ \<Rightarrow> None)"

lemma receives_held:
  assumes "queue_laws Q held" "mn_incoming d < length (ms_queues s)" "held (ms_queues s ! mn_incoming d) = ms"
  shows "\<exists>s'. receives Q d (length ms) s = Some (s', ms) \<and> (\<forall>k. k \<noteq> mn_incoming d \<longrightarrow> ms_queues s' ! k = ms_queues s ! k)"
  using assms(2,3)
proof (induction ms arbitrary: s)
  case (Cons m ms)
  then obtain q where q: "q_receive Q (ms_queues s ! mn_incoming d) = Some (q, Ok m)" "held q = ms"
    using assms(1) unfolding queue_laws_def by blast
  let ?s = "s\<lparr>ms_queues := (ms_queues s)[mn_incoming d := q]\<rparr>"
  have "mem_Receive Q d s = Some (?s, Ok m)" using q(1) by (simp add: mem_Receive_def)
  moreover obtain s' where "receives Q d (length ms) ?s = Some (s', ms)" "\<forall>k. k \<noteq> mn_incoming d \<longrightarrow> ms_queues s' ! k = ms_queues ?s ! k"
    using Cons.IH [of ?s] Cons.prems(1) q(2) by auto
  ultimately show ?case by auto
qed simp

text \<open>
  A message sent in the memory service arrives once, in order, and nowhere else: if the queue of the
  destination accepts it, the node receives the messages it already held followed by the new one, with
  the sender's address as its source, and no other open node sees a change.
\<close>

theorem mem_delivers:
  assumes "mem_wf c sp ks s" "ms_nodes s dst = Some d" "mem_LocalAddr c sp ks node = Some src" "queue_laws Q held"
    and "msg = \<lparr>m_Src = src, m_Dst = dst, m_Payload = data\<rparr>" "snd (q_deliver Q (ms_queues s ! mn_incoming d) msg)"
    and "held (ms_queues s ! mn_incoming d) = old"
  shows "\<exists>s' s''. mem_Send Q c sp ks node dst data s = Some s' \<and> receives Q d (Suc (length old)) s' = Some (s'', old @ [msg]) \<and>
     (\<forall>j n. ms_nodes s j = Some n \<longrightarrow> j \<noteq> dst \<longrightarrow> ms_queues s'' ! mn_incoming n = ms_queues s ! mn_incoming n)"
proof -
  let ?s = "s\<lparr>ms_queues := (ms_queues s)[mn_incoming d := fst (q_deliver Q (ms_queues s ! mn_incoming d) msg)]\<rparr>"
  have "mem_Send Q c sp ks node dst data s = Some ?s"
    using assms(2,3,5) by (simp add: mem_Send_def getNode_def case_prod_beta)
  moreover have "held (ms_queues ?s ! mn_incoming d) = old @ [msg]"
    using assms(4,6,7) mem_wfD(2) [OF assms(1,2)] by (simp add: queue_laws_def)
  then obtain s'' where "receives Q d (length (old @ [msg])) ?s = Some (s'', old @ [msg])"
      "\<forall>k. k \<noteq> mn_incoming d \<longrightarrow> ms_queues s'' ! k = ms_queues ?s ! k"
    using receives_held [OF assms(4), of d ?s "old @ [msg]"] mem_wfD(2) [OF assms(1,2)] by auto
  moreover have "mn_incoming n \<noteq> mn_incoming d" if "ms_nodes s j = Some n" "j \<noteq> dst" for j n
    using mem_wfD(3) [OF assms(1) that(1) assms(2)] that(2) by blast
  ultimately show ?thesis by auto
qed

theorem mem_delivers_witness:
  "\<exists>s' s''. mem_Send sample_queues sample_circl sample_sponge default_tags \<lparr>mn_publicKey = BasePublic Ed25519 True, mn_incoming = 0\<rparr> (sample_ID True) [1, 2] sample_mem = Some s' \<and>
     receives sample_queues \<lparr>mn_publicKey = BasePublic Ed25519 True, mn_incoming = 0\<rparr> 1 s' =
       Some (s'', [\<lparr>m_Src = sample_ID True, m_Dst = sample_ID True, m_Payload = [1, 2]\<rparr>])"
proof -
  let ?n = "\<lparr>mn_publicKey = BasePublic Ed25519 True, mn_incoming = 0\<rparr>"
  have wf: "mem_wf sample_circl sample_sponge default_tags sample_mem" by (rule mem_Open_wf [OF mem_New_wf sample_mem(1)])
  have n: "ms_nodes sample_mem (sample_ID True) = Some ?n" by (simp add: sample_mem(2))
  have "queue_laws sample_queues id" by (simp add: queue_laws_def sample_queues_def)
  moreover have "ms_queues sample_mem ! mn_incoming ?n = []"
    by (simp add: sample_mem_def mem_Open_def sample_ID newMemNode_def mem_New_def sample_queues_def)
  ultimately show ?thesis
    using mem_delivers [OF wf n mem_wfD(1) [OF wf n] _ refl, of sample_queues id "[1, 2]" "[]"]
    by (simp add: sample_queues_def) blast
qed

end
