(* ===== verification/Multihoming.thy ===== *)
theory Multihoming
  imports Peers
begin

text \<open>
  The swarm that reaches a peer through any of its transport addresses, \<^verbatim>\<open>mesh256/multihoming\<close>: the link
  monitor that records where heartbeats and messages come from and picks the best address
  (\<^verbatim>\<open>link_monitor.go\<close>), the traffic meters (\<^verbatim>\<open>meter.go\<close>) and the swarm built from both
  (\<^verbatim>\<open>multihoming_swarm.go\<close>). Peers are known by a key \<open>'k\<close>, transport addresses have type \<open>'a\<close>; the
  transport swarm, the mapping of public keys to peer keys and the text form of an address are
  parameters, the peer store is given by its operations. A timestamp is a number of nanoseconds, zero
  being the zero value.
\<close>

section \<open>The link monitor\<close>

record ('k, 'a) link_monitor =
  lm_expireAfter :: int
  lm_sightings :: "'k \<rightharpoonup> (string \<rightharpoonup> nat)"
  lm_addrs :: "string \<rightharpoonup> 'a"

datatype mh_error = NotInStore | NoGoodAddress | UnrecognizedPeer | PublicKeyNotFound | DeadlineExceeded | TransportError string

definition expireAfter :: int where "expireAfter = 30 * 1000000000"

definition newLinkMonitor :: "('k, 'a) link_monitor" where
  "newLinkMonitor = \<lparr>lm_expireAfter = expireAfter, lm_sightings = Map.empty, lm_addrs = Map.empty\<rparr>"

definition Mark :: "('a \<Rightarrow> string) \<Rightarrow> 'k \<Rightarrow> 'a \<Rightarrow> nat \<Rightarrow> ('k, 'a) link_monitor \<Rightarrow> ('k, 'a) link_monitor" where
  "Mark keyForAddr k a t lm =
     (let m = (case lm_sightings lm k of None \<Rightarrow> Map.empty | Some m \<Rightarrow> m);
          ka = keyForAddr a;
          current = (case m ka of None \<Rightarrow> 0 | Some c \<Rightarrow> c)
      in if t > current
         then lm\<lparr>lm_sightings := (lm_sightings lm)(k \<mapsto> m(ka \<mapsto> t)), lm_addrs := (lm_addrs lm)(ka \<mapsto> a)\<rparr>
         else lm\<lparr>lm_sightings := (lm_sightings lm)(k \<mapsto> m)\<rparr>)"

text \<open>One message of \<^verbatim>\<open>recvLoop\<close>: a source without a key or a peer is logged and ignored.\<close>

definition recv_heartbeat ::
  "('a \<Rightarrow> string) \<Rightarrow> ('a \<Rightarrow> 'pub option) \<Rightarrow> ('pub \<Rightarrow> 'k option) \<Rightarrow> 'a \<Rightarrow> nat \<Rightarrow> ('k, 'a) link_monitor \<Rightarrow> ('k, 'a) link_monitor" where
  "recv_heartbeat keyForAddr lookup groupBy src now lm =
     (case Option.bind (lookup src) groupBy of None \<Rightarrow> lm | Some k \<Rightarrow> Mark keyForAddr k src now lm)"

text \<open>The messages of one heartbeat, to every address of every peer.\<close>

definition heartbeat :: "'k list \<Rightarrow> ('k \<Rightarrow> 'a list) \<Rightarrow> bytes \<Rightarrow> ('a \<times> bytes) list" where
  "heartbeat peers_List addrs_of data = concat (map (\<lambda>i. map (\<lambda>a. (a, data)) (addrs_of i)) peers_List)"

text \<open>
  The loop over the sightings of a peer in the order \<open>ks\<close> in which the map is visited, with the latest
  address and time so far. A sighting without an address panics.
\<close>

fun pick_loop :: "(string \<rightharpoonup> nat) \<Rightarrow> (string \<rightharpoonup> 'a) \<Rightarrow> string list \<Rightarrow> 'a option \<Rightarrow> nat \<Rightarrow> 'a option option" where
  "pick_loop m addrs [] latestAddr latestTime = Some latestAddr"
| "pick_loop m addrs (k # ks) latestAddr latestTime =
     (case m k of
        None \<Rightarrow> pick_loop m addrs ks latestAddr latestTime
      | Some seenAt \<Rightarrow>
          if latestTime = 0 \<or> seenAt > latestTime
          then Option.bind (addrs k) (\<lambda>a. pick_loop m addrs ks (Some a) seenAt)
          else pick_loop m addrs ks latestAddr latestTime)"

text \<open>\<open>r\<close> is the random index.\<close>

definition PickAddr ::
  "('k \<Rightarrow> bool) \<Rightarrow> ('k \<Rightarrow> 'a list) \<Rightarrow> string list \<Rightarrow> nat \<Rightarrow> 'k \<Rightarrow> ('k, 'a) link_monitor \<Rightarrow> (mh_error, 'a) outcome" where
  "PickAddr contains addrs_of ks r k lm =
     (if \<not> contains k then Err NotInStore
      else obind (case lm_sightings lm k of None \<Rightarrow> Ok None | Some m \<Rightarrow> unwinds (pick_loop m (lm_addrs lm) ks None 0)) (\<lambda>latestAddr.
        case latestAddr of
          Some a \<Rightarrow> Ok a
        | None \<Rightarrow> if addrs_of k = [] then Err NoGoodAddress else Ok (addrs_of k ! (r mod length (addrs_of k)))))"

definition lm_LastSeen :: "'k \<Rightarrow> ('k, 'a) link_monitor \<Rightarrow> string \<rightharpoonup> nat" where
  "lm_LastSeen k lm = (case lm_sightings lm k of None \<Rightarrow> Map.empty | Some m \<Rightarrow> m)"

definition tai64DeltaGt :: "nat \<Rightarrow> nat \<Rightarrow> int \<Rightarrow> bool" where
  "tai64DeltaGt a b d \<longleftrightarrow> time_Sub (int a) (int b) > d"

text \<open>
  The loop visits the peers \<open>ids\<close>. The condition for deleting an entry looks at the number of peers, not
  at the number of its addresses; keys are only ever removed, so the map is empty when none of
  \<open>all_ids\<close> is left.
\<close>

fun cleanup_loop :: "nat \<Rightarrow> 'k list \<Rightarrow> 'k list \<Rightarrow> ('k, 'a) link_monitor \<Rightarrow> ('k, 'a) link_monitor" where
  "cleanup_loop now all_ids [] lm = lm"
| "cleanup_loop now all_ids (i # is) lm =
     (let m = lm_LastSeen i lm;
          m' = (\<lambda>a. case m a of None \<Rightarrow> None | Some lastSeen \<Rightarrow> if tai64DeltaGt now lastSeen (lm_expireAfter lm) then None else Some lastSeen);
          lm1 = lm\<lparr>lm_sightings := (lm_sightings lm)(i \<mapsto> m')\<rparr>;
          lm2 = (if filter (\<lambda>j. lm_sightings lm1 j \<noteq> None) all_ids = [] then lm1\<lparr>lm_sightings := (lm_sightings lm1)(i := None)\<rparr> else lm1)
      in cleanup_loop now all_ids is lm2)"

definition lm_cleanupOnce :: "nat \<Rightarrow> 'k list \<Rightarrow> ('k, 'a) link_monitor \<Rightarrow> ('k, 'a) link_monitor" where
  "lm_cleanupOnce now ids lm = cleanup_loop now ids ids lm"

section \<open>Meters\<close>

record meter =
  m_rx :: u64
  m_tx :: u64

type_synonym 'k meter_set = "'k \<rightharpoonup> meter"

definition load_meter :: "'k \<Rightarrow> 'k meter_set \<Rightarrow> meter" where
  "load_meter k ms = (case ms k of None \<Rightarrow> \<lparr>m_rx = 0, m_tx = 0\<rparr> | Some m \<Rightarrow> m)"

definition meters_Tx :: "'k \<Rightarrow> nat \<Rightarrow> 'k meter_set \<Rightarrow> 'k meter_set \<times> u64" where
  "meters_Tx k x ms = (let m = load_meter k ms; m' = m\<lparr>m_tx := m_tx m + of_nat x\<rparr> in (ms(k \<mapsto> m'), m_tx m'))"

definition meters_Rx :: "'k \<Rightarrow> nat \<Rightarrow> 'k meter_set \<Rightarrow> 'k meter_set \<times> u64" where
  "meters_Rx k x ms = (let m = load_meter k ms; m' = m\<lparr>m_rx := m_rx m + of_nat x\<rparr> in (ms(k \<mapsto> m'), m_rx m'))"

section \<open>The swarm\<close>

record ('k, 'a) mh_swarm =
  mh_localKey :: 'k
  mh_lm :: "('k, 'a) link_monitor"
  mh_meters :: "'k meter_set"

text \<open>\<open>tell\<close> is the data channel; the result tells what was sent on it, and what is returned.\<close>

definition mh_Tell ::
  "('k \<Rightarrow> bool) \<Rightarrow> ('k \<Rightarrow> 'a list) \<Rightarrow> ('a \<Rightarrow> bytes \<Rightarrow> mh_error option) \<Rightarrow> string list \<Rightarrow> nat \<Rightarrow> 'k \<Rightarrow> bytes \<Rightarrow> ('k, 'a) mh_swarm \<Rightarrow>
   ('k, 'a) mh_swarm \<times> ('a \<times> bytes) list \<times> (mh_error, unit) outcome" where
  "mh_Tell contains addrs_of tell ks r dst v s =
     (if \<not> contains dst then (s, [], Err UnrecognizedPeer)
      else case PickAddr contains addrs_of ks r dst (mh_lm s) of
             Err e \<Rightarrow> (s, [], Err e)
           | Panic \<Rightarrow> (s, [], Panic)
           | Ok a \<Rightarrow>
               (s\<lparr>mh_meters := fst (meters_Tx dst (length v) (mh_meters s))\<rparr>, [(a, v)],
                case tell a v of None \<Rightarrow> Ok () | Some e \<Rightarrow> if e = DeadlineExceeded then Ok () else Err e))"

text \<open>The handler of one message: \<open>None\<close> when it is dropped.\<close>

definition mh_handle ::
  "('a \<Rightarrow> string) \<Rightarrow> ('a \<Rightarrow> 'pub option) \<Rightarrow> ('pub \<Rightarrow> 'k option) \<Rightarrow> ('k \<Rightarrow> bool) \<Rightarrow> nat \<Rightarrow> 'a \<times> bytes \<Rightarrow> ('k, 'a) mh_swarm \<Rightarrow>
   ('k, 'a) mh_swarm \<times> ('k \<times> 'k \<times> bytes) option" where
  "mh_handle keyForAddr lookup groupBy contains now = (\<lambda>(src, payload) s.
     case Option.bind (lookup src) groupBy of
       None \<Rightarrow> (s, None)
     | Some srcKey \<Rightarrow>
         if \<not> contains srcKey then (s, None)
         else (s\<lparr>mh_lm := Mark keyForAddr srcKey src now (mh_lm s), mh_meters := fst (meters_Rx srcKey (length payload) (mh_meters s))\<rparr>,
               Some (srcKey, mh_localKey s, payload)))"

text \<open>\<^verbatim>\<open>Receive\<close> returns after the first message that is not dropped; the rest stays to be received.\<close>

fun mh_Receive ::
  "('a \<Rightarrow> string) \<Rightarrow> ('a \<Rightarrow> 'pub option) \<Rightarrow> ('pub \<Rightarrow> 'k option) \<Rightarrow> ('k \<Rightarrow> bool) \<Rightarrow> (nat \<times> 'a \<times> bytes) list \<Rightarrow> ('k, 'a) mh_swarm \<Rightarrow>
   ('k, 'a) mh_swarm \<times> ('k \<times> 'k \<times> bytes) option \<times> (nat \<times> 'a \<times> bytes) list" where
  "mh_Receive keyForAddr lookup groupBy contains [] s = (s, None, [])"
| "mh_Receive keyForAddr lookup groupBy contains ((now, msg) # msgs) s =
     (case mh_handle keyForAddr lookup groupBy contains now msg s of
        (s', Some m) \<Rightarrow> (s', Some m, msgs)
      | (s', None) \<Rightarrow> mh_Receive keyForAddr lookup groupBy contains msgs s')"

definition mh_LookupPublicKey ::
  "('k \<Rightarrow> bool) \<Rightarrow> ('k \<Rightarrow> 'a list) \<Rightarrow> ('a \<Rightarrow> (mh_error, 'pub) outcome) \<Rightarrow> string list \<Rightarrow> nat \<Rightarrow> 'k \<Rightarrow> ('k, 'a) mh_swarm \<Rightarrow> (mh_error, 'pub) outcome" where
  "mh_LookupPublicKey contains addrs_of lookup ks r target s =
     (if \<not> contains target then Err PublicKeyNotFound
      else obind (PickAddr contains addrs_of ks r target (mh_lm s)) lookup)"

definition GetTx :: "'k \<Rightarrow> ('k, 'a) mh_swarm \<Rightarrow> u64" where
  "GetTx k s = snd (meters_Tx k 0 (mh_meters s))"

definition GetRx :: "'k \<Rightarrow> ('k, 'a) mh_swarm \<Rightarrow> u64" where
  "GetRx k s = snd (meters_Rx k 0 (mh_meters s))"
section \<open>Sightings always have an address\<close>

definition lm_wf :: "('a \<Rightarrow> string) \<Rightarrow> ('k, 'a) link_monitor \<Rightarrow> bool" where
  "lm_wf keyForAddr lm \<longleftrightarrow>
     (\<forall>k ka t. lm_LastSeen k lm ka = Some t \<longrightarrow> 0 < t \<and> (\<exists>a. lm_addrs lm ka = Some a \<and> keyForAddr a = ka))"

text \<open>The states of a link monitor: sightings are recorded and cleaned up in any order.\<close>

inductive lm_reachable :: "('a \<Rightarrow> string) \<Rightarrow> ('k, 'a) link_monitor \<Rightarrow> bool" for keyForAddr where
  new: "lm_reachable keyForAddr newLinkMonitor"
| mark: "lm_reachable keyForAddr lm \<Longrightarrow> lm_reachable keyForAddr (Mark keyForAddr k a t lm)"
| cleanup: "lm_reachable keyForAddr lm \<Longrightarrow> enumerates ids (lm_sightings lm) \<Longrightarrow> lm_reachable keyForAddr (lm_cleanupOnce now ids lm)"

lemma lm_wfI:
  assumes "\<And>k ka t. lm_LastSeen k lm ka = Some t \<Longrightarrow> 0 < t \<and> (\<exists>a. lm_addrs lm ka = Some a \<and> keyForAddr a = ka)"
  shows "lm_wf keyForAddr lm"
  using assms unfolding lm_wf_def by blast

lemma lm_wfD:
  assumes "lm_wf keyForAddr lm" "lm_LastSeen k lm ka = Some t"
  shows "0 < t \<and> (\<exists>a. lm_addrs lm ka = Some a \<and> keyForAddr a = ka)"
  using assms unfolding lm_wf_def by blast

lemma LastSeen_Mark:
  "lm_LastSeen k' (Mark keyForAddr k a t lm) =
     (if k' = k \<and> (\<forall>c. lm_LastSeen k lm (keyForAddr a) = Some c \<longrightarrow> c < t) \<and> 0 < t
      then (lm_LastSeen k lm)(keyForAddr a \<mapsto> t) else lm_LastSeen k' lm)"
  by (auto simp: Mark_def lm_LastSeen_def Let_def split: option.splits)

lemma addrs_Mark:
  "lm_addrs (Mark keyForAddr k a t lm) =
     (if (\<forall>c. lm_LastSeen k lm (keyForAddr a) = Some c \<longrightarrow> c < t) \<and> 0 < t
      then (lm_addrs lm)(keyForAddr a \<mapsto> a) else lm_addrs lm)"
  by (auto simp: Mark_def lm_LastSeen_def Let_def split: option.splits)

lemma Mark_wf:
  assumes "lm_wf keyForAddr lm"
  shows "lm_wf keyForAddr (Mark keyForAddr k a t lm)"
  using lm_wfD [OF assms] by (intro lm_wfI) (fastforce simp: LastSeen_Mark addrs_Mark split: if_splits)

text \<open>One round of the cleanup keeps exactly what has not expired.\<close>

definition fresh_only :: "nat \<Rightarrow> int \<Rightarrow> (string \<rightharpoonup> nat) \<Rightarrow> (string \<rightharpoonup> nat)" where
  "fresh_only now d m = (\<lambda>a. case m a of None \<Rightarrow> None | Some t \<Rightarrow> if tai64DeltaGt now t d then None else Some t)"

lemma cleanup_loop_step:
  assumes "i \<in> set all_ids"
  shows "cleanup_loop now all_ids (i # is) lm =
     cleanup_loop now all_ids is (lm\<lparr>lm_sightings := (lm_sightings lm)(i \<mapsto> fresh_only now (lm_expireAfter lm) (lm_LastSeen i lm))\<rparr>)"
proof -
  have "filter (\<lambda>j. ((lm_sightings lm)(i \<mapsto> m)) j \<noteq> None) all_ids \<noteq> []" for m
    using assms by (auto simp: filter_empty_conv)
  then show ?thesis by (simp add: Let_def fresh_only_def)
qed

lemma cleanup_loop_LastSeen:
  assumes "distinct is" "set is \<subseteq> set all_ids"
  shows "lm_LastSeen k (cleanup_loop now all_ids is lm) =
      (if k \<in> set is then fresh_only now (lm_expireAfter lm) (lm_LastSeen k lm) else lm_LastSeen k lm)
    \<and> dom (lm_sightings (cleanup_loop now all_ids is lm)) = dom (lm_sightings lm) \<union> set is
    \<and> lm_addrs (cleanup_loop now all_ids is lm) = lm_addrs lm"
  using assms
proof (induction "is" arbitrary: lm)
  case (Cons i "is")
  let ?lm = "lm\<lparr>lm_sightings := (lm_sightings lm)(i \<mapsto> fresh_only now (lm_expireAfter lm) (lm_LastSeen i lm))\<rparr>"
  have s: "cleanup_loop now all_ids (i # is) lm = cleanup_loop now all_ids is ?lm"
    using Cons.prems by (intro cleanup_loop_step) simp
  have "lm_LastSeen k ?lm = (if k = i then fresh_only now (lm_expireAfter lm) (lm_LastSeen i lm) else lm_LastSeen k lm)"
    by (simp add: lm_LastSeen_def)
  with Cons.IH [of ?lm] Cons.prems show ?case unfolding s by auto
qed simp

lemma lm_cleanupOnce_ok:
  assumes "enumerates ids (lm_sightings lm)"
  shows "lm_LastSeen k (lm_cleanupOnce now ids lm) = fresh_only now (lm_expireAfter lm) (lm_LastSeen k lm)"
    "dom (lm_sightings (lm_cleanupOnce now ids lm)) = dom (lm_sightings lm)"
    "lm_addrs (lm_cleanupOnce now ids lm) = lm_addrs lm"
  using cleanup_loop_LastSeen [of ids ids k now lm] assms
  by (auto simp: lm_cleanupOnce_def enumerates_def lm_LastSeen_def fresh_only_def domIff split: option.splits)

lemma lm_reachable_wf: "lm_reachable keyForAddr lm \<Longrightarrow> lm_wf keyForAddr lm"
proof (induction rule: lm_reachable.induct)
  case new
  show ?case by (rule lm_wfI) (simp add: newLinkMonitor_def lm_LastSeen_def)
next
  case (mark lm k a t)
  then show ?case by (intro Mark_wf)
next
  case (cleanup lm ids now)
  show ?case
  proof (rule lm_wfI)
    fix k ka t assume "lm_LastSeen k (lm_cleanupOnce now ids lm) ka = Some t"
    then have "lm_LastSeen k lm ka = Some t"
      unfolding lm_cleanupOnce_ok(1) [OF cleanup.hyps(2)] fresh_only_def by (auto split: option.splits if_splits)
    from lm_wfD [OF cleanup.IH this] show "0 < t \<and> (\<exists>a. lm_addrs (lm_cleanupOnce now ids lm) ka = Some a \<and> keyForAddr a = ka)"
      unfolding lm_cleanupOnce_ok(3) [OF cleanup.hyps(2)] .
  qed
qed

section \<open>The latest address is picked\<close>

text \<open>The result \<open>r\<close>, seen at \<open>t\<close>, of the loop over \<open>ks\<close> that starts with \<open>la\<close>, seen at \<open>lt\<close>.\<close>

definition picked :: "(string \<rightharpoonup> nat) \<Rightarrow> (string \<rightharpoonup> 'a) \<Rightarrow> string list \<Rightarrow> 'a option \<Rightarrow> nat \<Rightarrow> 'a option \<Rightarrow> nat \<Rightarrow> bool" where
  "picked m addrs ks la lt r t \<longleftrightarrow> (r = None \<longleftrightarrow> t = 0) \<and> lt \<le> t \<and> (\<forall>k \<in> set ks. \<forall>s. m k = Some s \<longrightarrow> s \<le> t) \<and>
     (r = la \<and> t = lt \<or> (\<exists>k \<in> set ks. m k = Some t \<and> r = addrs k))"

lemma picked_skip:
  assumes "picked m addrs ks la lt r t" "\<And>s. m k = Some s \<Longrightarrow> s \<le> lt"
  shows "picked m addrs (k # ks) la lt r t"
proof -
  have "s \<le> t" if "m k = Some s" for s using assms(2) [OF that] assms(1) by (simp add: picked_def)
  with assms(1) show ?thesis unfolding picked_def by (metis set_ConsD list.set_intros(2))
qed

lemma picked_take:
  assumes "picked m addrs ks (addrs k) s r t" "m k = Some s" "lt \<le> s"
  shows "picked m addrs (k # ks) la lt r t"
proof -
  have "s \<le> t" "lt \<le> t" using assms(1,3) by (simp_all add: picked_def)
  with assms(1,2) show ?thesis unfolding picked_def by (metis set_ConsD list.set_intros option.inject)
qed

lemma pick_loop_ok:
  assumes "\<And>k t. m k = Some t \<Longrightarrow> 0 < t \<and> (\<exists>a. addrs k = Some a)" "la = None \<longleftrightarrow> lt = 0"
  shows "\<exists>r t. pick_loop m addrs ks la lt = Some r \<and> picked m addrs ks la lt r t"
  using assms(2)
proof (induction ks arbitrary: la lt)
  case Nil
  then show ?case by (simp add: picked_def)
next
  case (Cons k ks)
  show ?case
  proof (cases "m k")
    case None
    from Cons.IH [OF Cons.prems] obtain r t where "pick_loop m addrs ks la lt = Some r" "picked m addrs ks la lt r t" by blast
    with None picked_skip [of m addrs ks la lt r t k] show ?thesis by auto
  next
    case (Some s)
    then obtain a where a: "0 < s" "addrs k = Some a" using assms(1) by blast
    show ?thesis
    proof (cases "lt = 0 \<or> s > lt")
      case True
      have "addrs k = None \<longleftrightarrow> s = 0" using a by simp
      from Cons.IH [OF this] obtain r t where "pick_loop m addrs ks (addrs k) s = Some r" "picked m addrs ks (addrs k) s r t" by blast
      with True Some a picked_take [of m addrs ks k s r t lt la] show ?thesis by auto
    next
      case False
      from Cons.IH [OF Cons.prems] obtain r t where "pick_loop m addrs ks la lt = Some r" "picked m addrs ks la lt r t" by blast
      with False Some picked_skip [of m addrs ks la lt r t k] show ?thesis by auto
    qed
  qed
qed

lemma pick_latest:
  assumes "lm_wf keyForAddr lm" "lm_sightings lm k = Some m" "enumerates ks m"
  shows "\<exists>r t. pick_loop m (lm_addrs lm) ks None 0 = Some r \<and> (\<forall>ka s. m ka = Some s \<longrightarrow> s \<le> t) \<and>
     (case r of None \<Rightarrow> m = Map.empty | Some a \<Rightarrow> m (keyForAddr a) = Some t \<and> lm_addrs lm (keyForAddr a) = Some a)"
proof -
  have m: "0 < t \<and> (\<exists>a. lm_addrs lm ka = Some a \<and> keyForAddr a = ka)" if "m ka = Some t" for ka t
    using lm_wfD [OF assms(1), of k ka t] assms(2) that by (simp add: lm_LastSeen_def)
  then have "\<exists>r t. pick_loop m (lm_addrs lm) ks None 0 = Some r \<and> picked m (lm_addrs lm) ks None 0 r t"
    by (intro pick_loop_ok) auto
  then obtain r t where r1: "pick_loop m (lm_addrs lm) ks None 0 = Some r" and "picked m (lm_addrs lm) ks None 0 r t" by blast
  then have r: "r = None \<longleftrightarrow> t = 0" "\<forall>ka \<in> set ks. \<forall>s. m ka = Some s \<longrightarrow> s \<le> t"
    "r = None \<and> t = 0 \<or> (\<exists>k \<in> set ks. m k = Some t \<and> r = lm_addrs lm k)" by (auto simp: picked_def)
  note r1
  moreover have max: "\<forall>ka s. m ka = Some s \<longrightarrow> s \<le> t" using r(2) assms(3) by (auto simp: enumerates_def)
  moreover have "case r of None \<Rightarrow> m = Map.empty | Some a \<Rightarrow> m (keyForAddr a) = Some t \<and> lm_addrs lm (keyForAddr a) = Some a"
  proof (cases r)
    case None
    then have "m ka = None" for ka using max r(1) m by (cases "m ka") fastforce+
    with None show ?thesis by auto
  next
    case (Some a)
    then obtain ka where "m ka = Some t" "lm_addrs lm ka = Some a" using r(3) by auto
    with Some m [of ka t] show ?thesis by auto
  qed
  ultimately show ?thesis by blast
qed

text \<open>
  In every state of the link monitor, picking an address for a peer never panics; where the peer has
  been sighted the address picked is one it was seen at latest, and otherwise one from the peer store,
  if there is any.
\<close>

theorem PickAddr_latest:
  assumes "lm_reachable keyForAddr lm" "contains k" "\<And>m. lm_sightings lm k = Some m \<Longrightarrow> enumerates ks m"
  shows "case PickAddr contains addrs_of ks r k lm of
      Panic \<Rightarrow> False
    | Err e \<Rightarrow> lm_LastSeen k lm = Map.empty \<and> addrs_of k = []
    | Ok a \<Rightarrow> if lm_LastSeen k lm = Map.empty then a \<in> set (addrs_of k)
              else \<exists>t. lm_LastSeen k lm (keyForAddr a) = Some t \<and> (\<forall>ka s. lm_LastSeen k lm ka = Some s \<longrightarrow> s \<le> t)"
proof (cases "lm_sightings lm k")
  case None
  then show ?thesis using assms(2) by (simp add: PickAddr_def lm_LastSeen_def)
next
  case (Some m)
  obtain res t where "pick_loop m (lm_addrs lm) ks None 0 = Some res" "\<forall>ka s. m ka = Some s \<longrightarrow> s \<le> t"
    "case res of None \<Rightarrow> m = Map.empty | Some a \<Rightarrow> m (keyForAddr a) = Some t \<and> lm_addrs lm (keyForAddr a) = Some a"
    using pick_latest [OF lm_reachable_wf [OF assms(1)] Some assms(3) [OF Some]] by blast
  with Some assms(2) show ?thesis by (cases res) (auto simp: PickAddr_def lm_LastSeen_def)
qed

definition sample_lm :: "(nat, string) link_monitor" where
  "sample_lm = Mark id 3 ''b'' 7 (Mark id 3 ''a'' 5 newLinkMonitor)"

lemma sample_lm_eq:
  "sample_lm = \<lparr>lm_expireAfter = expireAfter, lm_sightings = [3 \<mapsto> [''a'' \<mapsto> 5, ''b'' \<mapsto> 7]], lm_addrs = [''a'' \<mapsto> ''a'', ''b'' \<mapsto> ''b'']\<rparr>"
  by (simp add: sample_lm_def Mark_def newLinkMonitor_def Let_def)

theorem PickAddr_latest_witness: "PickAddr (\<lambda>_. True) (\<lambda>_. []) [''a'', ''b''] 0 3 sample_lm = Ok ''b''"
proof -
  let ?p = "PickAddr (\<lambda>_. True) (\<lambda>_. []) [''a'', ''b''] 0 3 sample_lm"
  have reach: "lm_reachable id sample_lm" unfolding sample_lm_def by (intro lm_reachable.intros)
  have enum: "enumerates [''a'', ''b''] m" if "lm_sightings sample_lm 3 = Some m" for m
    using that by (auto simp: sample_lm_eq enumerates_def split: if_splits)
  have seen: "lm_LastSeen 3 sample_lm = [''a'' \<mapsto> 5, ''b'' \<mapsto> 7]" by (simp add: sample_lm_eq lm_LastSeen_def)
  have "case ?p of Panic \<Rightarrow> False | Err e \<Rightarrow> lm_LastSeen 3 sample_lm = Map.empty \<and> ([] :: string list) = []
    | Ok a \<Rightarrow> if lm_LastSeen 3 sample_lm = Map.empty then a \<in> set []
        else \<exists>t. lm_LastSeen 3 sample_lm (id a) = Some t \<and> (\<forall>ka s. lm_LastSeen 3 sample_lm ka = Some s \<longrightarrow> s \<le> t)"
    by (rule PickAddr_latest [OF reach TrueI enum])
  then obtain a t where a: "?p = Ok a" "lm_LastSeen 3 sample_lm a = Some t" "\<And>ka s. lm_LastSeen 3 sample_lm ka = Some s \<Longrightarrow> s \<le> t"
    by (cases ?p) (auto simp: seen)
  then have "7 \<le> t" by (auto simp: seen)
  with a(2) have "a = ''b''" by (auto simp: seen split: if_splits)
  with a(1) show ?thesis by simp
qed

text \<open>
  A reply goes back the way the message came: after a message of a peer has been received at a time
  later than all its sightings, the next message to that peer is sent to the address it came from.
\<close>

theorem reply_goes_back:
  assumes "lm_reachable keyForAddr (mh_lm s)" "Option.bind (lookup src) groupBy = Some k" "contains k"
    and "\<forall>ka t. lm_LastSeen k (mh_lm s) ka = Some t \<longrightarrow> t < now" "0 < now"
    and "mh_handle keyForAddr lookup groupBy contains now (src, payload) s = (s', delivered)"
    and "enumerates ks (lm_LastSeen k (mh_lm s'))"
  shows "delivered = Some (k, mh_localKey s, payload) \<and> fst (snd (mh_Tell contains addrs_of tell ks r k v s')) = [(src, v)]"
proof -
  let ?lm = "Mark keyForAddr k src now (mh_lm s)"
  have s': "mh_lm s' = ?lm" "delivered = Some (k, mh_localKey s, payload)"
    using assms(2,3,6) by (auto simp: mh_handle_def)
  have seen: "lm_LastSeen k ?lm = (lm_LastSeen k (mh_lm s))(keyForAddr src \<mapsto> now)" "lm_addrs ?lm (keyForAddr src) = Some src"
    using assms(4,5) by (simp_all add: LastSeen_Mark addrs_Mark)
  then obtain m where m: "lm_sightings ?lm k = Some m" "m = (lm_LastSeen k (mh_lm s))(keyForAddr src \<mapsto> now)"
    by (auto simp: lm_LastSeen_def split: option.splits dest: fun_cong [of _ _ "keyForAddr src"])
  have wf: "lm_wf keyForAddr ?lm" using assms(1) by (intro lm_reachable_wf lm_reachable.mark)
  have enum: "enumerates ks m" using assms(7) s' m seen by (simp add: lm_LastSeen_def)
  obtain res t where r: "pick_loop m (lm_addrs ?lm) ks None 0 = Some res" "\<forall>ka s. m ka = Some s \<longrightarrow> s \<le> t"
    "case res of None \<Rightarrow> m = Map.empty | Some a \<Rightarrow> m (keyForAddr a) = Some t \<and> lm_addrs ?lm (keyForAddr a) = Some a"
    using pick_latest [OF wf m(1) enum] by blast
  then obtain a where a: "res = Some a" "m (keyForAddr a) = Some t" "lm_addrs ?lm (keyForAddr a) = Some a"
    using m(2) by (cases res) auto
  have "now \<le> t" using r(2) [rule_format, of "keyForAddr src" now] m(2) by simp
  have "keyForAddr a = keyForAddr src"
  proof (rule ccontr)
    assume "keyForAddr a \<noteq> keyForAddr src"
    with a(2) m(2) have "t < now" using assms(4) by auto
    with \<open>now \<le> t\<close> show False by simp
  qed
  then have "a = src" using a(3) seen(2) by (metis option.inject)
  then have "pick_loop m (lm_addrs ?lm) ks None 0 = Some (Some src)" using r(1) a(1) by (simp only:)
  then have "PickAddr contains addrs_of ks r k ?lm = Ok src" using m(1) assms(3) by (simp only: PickAddr_def) simp
  then show ?thesis using assms(3) s' by (simp add: mh_Tell_def)
qed

theorem reply_goes_back_witness:
  "let s = \<lparr>mh_localKey = 0, mh_lm = sample_lm, mh_meters = Map.empty\<rparr>;
       s' = fst (mh_handle id (\<lambda>a. Some a) (\<lambda>a. Some (3 :: nat)) (\<lambda>_. True) 9 (''c'', [4]) s)
   in fst (snd (mh_Tell (\<lambda>_. True) (\<lambda>_. []) (\<lambda>_ _. None) [''a'', ''b'', ''c''] 0 3 [5, 6] s')) = [(''c'', [5, 6])]"
proof -
  let ?s = "\<lparr>mh_localKey = 0, mh_lm = sample_lm, mh_meters = Map.empty\<rparr> :: (nat, string) mh_swarm"
  have "lm_reachable id (mh_lm ?s)" by (auto simp: sample_lm_def intro!: lm_reachable.intros)
  moreover have seen: "lm_LastSeen 3 sample_lm = [''a'' \<mapsto> 5, ''b'' \<mapsto> 7]"
    by (simp add: sample_lm_eq lm_LastSeen_def)
  obtain s' d where h: "mh_handle id (\<lambda>a. Some a) (\<lambda>a. Some (3 :: nat)) (\<lambda>_. True) 9 (''c'', [4]) ?s = (s', d)"
    by (cases "mh_handle id (\<lambda>a. Some a) (\<lambda>a. Some (3 :: nat)) (\<lambda>_. True) 9 (''c'', [4]) ?s")
  then have "mh_lm s' = Mark id 3 ''c'' 9 sample_lm" by (auto simp: mh_handle_def)
  then have "enumerates [''a'', ''b'', ''c''] (lm_LastSeen 3 (mh_lm s'))" using seen by (auto simp: LastSeen_Mark enumerates_def split: if_splits)
  moreover have "\<forall>ka t. lm_LastSeen 3 (mh_lm ?s) ka = Some t \<longrightarrow> t < 9" by (simp add: seen)
  ultimately have "fst (snd (mh_Tell (\<lambda>_. True) (\<lambda>_. []) (\<lambda>_ _. None) [''a'', ''b'', ''c''] 0 3 [5, 6] s')) = [(''c'', [5, 6])]"
    using reply_goes_back [of id ?s "\<lambda>a. Some a" "''c''" "\<lambda>a. Some (3 :: nat)" 3 "\<lambda>_. True" 9 "[4]" s' d "[''a'', ''b'', ''c'']" "\<lambda>_. []" "\<lambda>_ _. None" 0 "[5, 6]"] h
    by simp
  with h show ?thesis by simp
qed

end
