(* ===== verification/Mesh.thy ===== *)
theory Mesh
  imports Services Multihoming
begin

text \<open>
  Nodes and the server of a mesh, \<^verbatim>\<open>src/mesh256\<close>: the conversion of keys to the transport's X.509 keys
  (\<^verbatim>\<open>mesh256.go\<close>), the swarm stack that a node puts on top of its network, with loopback and the check
  of senders (\<^verbatim>\<open>chain_swarm.go\<close>, \<^verbatim>\<open>loopback_swarm.go\<close>, \<^verbatim>\<open>identity_swarm.go\<close>, \<^verbatim>\<open>network.go\<close>), the names of secured
  transports (\<^verbatim>\<open>node.go\<close>) and the server that owns the main node and the nodes of its clients
  (\<^verbatim>\<open>server.go\<close>). The go-p2p packages are parameters: X.509 algorithm identifiers have type \<open>'o\<close>, the
  secured channels are the record \<open>pke_ops\<close>, the memory realm is \<open>newSwarm\<close>.
\<close>

datatype mesh_error = LoopbackUnreachable | KeyNotFound | UnsupportedAlgo | CannotParse | BadAddrText id_error | SwarmFailure string

section \<open>Keys\<close>

record 'o x509_key =
  x_Algorithm :: 'o
  x_Data :: bytes

text \<open>
  What the sources use of X.509 and Ed25519 keys: the identifier of the algorithm, that of a zero
  value, the conversion of bytes to a public key and the seed of a private one.
\<close>

record ('o, 'p, 's) x509_ops =
  Algo_Ed25519 :: 'o
  zero_Algo :: 'o
  ed_of_bytes :: "bytes \<Rightarrow> 'p"
  ed_seed :: "'s \<Rightarrow> bytes"

definition PublicKeyFromX509 :: "('o, 'p, 's) x509_ops \<Rightarrow> 'o x509_key \<Rightarrow> (mesh_error, 'p public_key) outcome" where
  "PublicKeyFromX509 X x =
     (if x_Algorithm x = Algo_Ed25519 X then Ok (BasePublic Ed25519 (ed_of_bytes X (x_Data x))) else Err UnsupportedAlgo)"

fun PublicKeyFromINET256 :: "('p, 's, 'r) circl \<Rightarrow> ('o, 'p, 's) x509_ops \<Rightarrow> 'p public_key \<Rightarrow> 'o x509_key option" where
  "PublicKeyFromINET256 c X (BasePublic Ed25519 p) =
     (case c_marshal_pub c Ed25519 p of Ok data \<Rightarrow> Some \<lparr>x_Algorithm = Algo_Ed25519 X, x_Data = data\<rparr> | _ \<Rightarrow> None)"
| "PublicKeyFromINET256 c X _ = None"

text \<open>A private key of another algorithm becomes the zero key.\<close>

fun convertINET256PrivateKey :: "('o, 'p, 's) x509_ops \<Rightarrow> 's private_key \<Rightarrow> 'o x509_key" where
  "convertINET256PrivateKey X (BasePrivate Ed25519 s) = \<lparr>x_Algorithm = Algo_Ed25519 X, x_Data = ed_seed X s\<rparr>"
| "convertINET256PrivateKey X _ = \<lparr>x_Algorithm = zero_Algo X, x_Data = []\<rparr>"

text \<open>The address of the holder of a transport key; the channels use it as the identity of a peer.\<close>

definition fingerprinter ::
  "('p, 's, 'r) circl \<Rightarrow> sponge \<Rightarrow> string list \<Rightarrow> ('o, 'p, 's) x509_ops \<Rightarrow> 'o x509_key \<Rightarrow> addr option" where
  "fingerprinter c sp ks X pubKey =
     (case PublicKeyFromX509 X pubKey of Ok pub \<Rightarrow> NewID c sp ks pub | _ \<Rightarrow> None)"

text \<open>The grouping of transport keys given to the multihoming swarm: a key it cannot convert becomes the zero address.\<close>

definition node_GroupBy ::
  "('p, 's, 'r) circl \<Rightarrow> sponge \<Rightarrow> string list \<Rightarrow> ('o, 'p, 's) x509_ops \<Rightarrow> 'o x509_key \<Rightarrow> (mesh_error, addr) outcome" where
  "node_GroupBy c sp ks X pub =
     (case PublicKeyFromX509 X pub of Ok pub2 \<Rightarrow> unwinds (NewID c sp ks pub2) | Err e \<Rightarrow> Ok zero_addr | Panic \<Rightarrow> Panic)"

section \<open>Swarms\<close>

text \<open>A \<^verbatim>\<open>p2p.SecureSwarm\<close> over a state \<open>'w\<close> of everything a message can reach.\<close>

record ('a, 'pub, 'w) secure_swarm =
  sw_Tell :: "'a \<Rightarrow> bytes \<Rightarrow> 'w \<Rightarrow> 'w \<times> (mesh_error, unit) outcome"
  sw_LookupPublicKey :: "'a \<Rightarrow> (mesh_error, 'pub) outcome"
  sw_LocalAddrs :: "'a list"
  sw_PublicKey :: 'pub
  sw_MTU :: int
  sw_ParseAddr :: "bytes \<Rightarrow> (mesh_error, 'a) outcome"

subsection \<open>Loopback\<close>

text \<open>\<open>deliver\<close> is the delivery of a message to the hub of the swarm.\<close>

definition newLoopbackSwarm :: "(message \<Rightarrow> 'w \<Rightarrow> 'w \<times> (mesh_error, unit) outcome) \<Rightarrow> addr \<Rightarrow> 'pub \<Rightarrow> (addr, 'pub, 'w) secure_swarm" where
  "newLoopbackSwarm deliver local publicKey = \<lparr>
     sw_Tell = (\<lambda>dst v w. if dst \<noteq> local then (w, Err LoopbackUnreachable)
                          else deliver \<lparr>m_Src = dst, m_Dst = dst, m_Payload = v\<rparr> w),
     sw_LookupPublicKey = (\<lambda>a. if a = local then Ok publicKey else Err KeyNotFound),
     sw_LocalAddrs = [local], sw_PublicKey = publicKey, sw_MTU = int MTU, sw_ParseAddr = (\<lambda>x. Panic)\<rparr>"

subsection \<open>Chains\<close>

text \<open>The first swarm that takes the message ends the call; otherwise the last error is returned.\<close>

fun chain_Tell_loop ::
  "('a, 'pub, 'w) secure_swarm list \<Rightarrow> 'a \<Rightarrow> bytes \<Rightarrow> (mesh_error, unit) outcome \<Rightarrow> 'w \<Rightarrow> 'w \<times> (mesh_error, unit) outcome" where
  "chain_Tell_loop [] dst v retErr w = (w, retErr)"
| "chain_Tell_loop (sw # sws) dst v retErr w =
     (case sw_Tell sw dst v w of
        (w', Err e) \<Rightarrow> chain_Tell_loop sws dst v (Err e) w'
      | (w', r) \<Rightarrow> (w', r))"

definition chain_Tell :: "('a, 'pub, 'w) secure_swarm list \<Rightarrow> 'a \<Rightarrow> bytes \<Rightarrow> 'w \<Rightarrow> 'w \<times> (mesh_error, unit) outcome" where
  "chain_Tell sws dst v w = chain_Tell_loop sws dst v (Ok ()) w"

fun chain_LookupPublicKey :: "('a, 'pub, 'w) secure_swarm list \<Rightarrow> 'a \<Rightarrow> (mesh_error, 'pub) outcome" where
  "chain_LookupPublicKey [] x = Err KeyNotFound"
| "chain_LookupPublicKey (sw # sws) x =
     (case sw_LookupPublicKey sw x of Err e \<Rightarrow> chain_LookupPublicKey sws x | r \<Rightarrow> r)"

definition chain_LocalAddrs :: "('a, 'pub, 'w) secure_swarm list \<Rightarrow> 'a list" where
  "chain_LocalAddrs sws = foldl (\<lambda>ret sw. ret @ sw_LocalAddrs sw) [] sws"

definition chain_MTU :: "('a, 'pub, 'w) secure_swarm list \<Rightarrow> int" where
  "chain_MTU sws = foldl (\<lambda>m sw. if sw_MTU sw < m then sw_MTU sw else m) (2 ^ 31 - 1) sws"

fun chain_ParseAddr_loop :: "('a, 'pub, 'w) secure_swarm list \<Rightarrow> bytes \<Rightarrow> mesh_error option \<Rightarrow> (mesh_error, 'a) outcome" where
  "chain_ParseAddr_loop [] x retErr = Err (case retErr of None \<Rightarrow> CannotParse | Some e \<Rightarrow> e)"
| "chain_ParseAddr_loop (sw # sws) x retErr =
     (case sw_ParseAddr sw x of Err e \<Rightarrow> chain_ParseAddr_loop sws x (Some e) | r \<Rightarrow> r)"

text \<open>The public key is that of the first swarm, which panics on an empty chain.\<close>

definition newChainSwarm :: "('a, 'pub, 'w) secure_swarm list \<Rightarrow> ('a, 'pub, 'w) secure_swarm option" where
  "newChainSwarm ss =
     (case ss of [] \<Rightarrow> None
      | s # _ \<Rightarrow> Some \<lparr>sw_Tell = chain_Tell ss, sw_LookupPublicKey = chain_LookupPublicKey ss, sw_LocalAddrs = chain_LocalAddrs ss,
          sw_PublicKey = sw_PublicKey s, sw_MTU = chain_MTU ss, sw_ParseAddr = (\<lambda>x. chain_ParseAddr_loop ss x None)\<rparr>)"

subsection \<open>Identities\<close>

text \<open>
  The secured channels of \<^verbatim>\<open>p2pkeswarm\<close>, whose addresses pair the fingerprint of the peer's key with the
  address it is reached at.
\<close>

record ('o, 'w) pke_ops =
  pke_Tell :: "addr \<times> addr \<Rightarrow> bytes \<Rightarrow> 'w \<Rightarrow> 'w \<times> (mesh_error, unit) outcome"
  pke_LookupPublicKey :: "addr \<times> addr \<Rightarrow> (mesh_error, 'o x509_key) outcome"
  pke_LocalAddrs :: "(addr \<times> addr) list"
  pke_PublicKey :: "'o x509_key"
  pke_MTU :: int

definition makeAddr :: "addr \<Rightarrow> addr \<times> addr" where
  "makeAddr a = (a, a)"

definition newIdentitySwarm :: "('o, 'w) pke_ops \<Rightarrow> (addr, 'o x509_key, 'w) secure_swarm" where
  "newIdentitySwarm P = \<lparr>
     sw_Tell = (\<lambda>x. pke_Tell P (makeAddr x)),
     sw_LookupPublicKey = (\<lambda>target. pke_LookupPublicKey P (makeAddr target)),
     sw_LocalAddrs = foldl (\<lambda>ys x. ys @ [snd x]) [] (pke_LocalAddrs P), sw_PublicKey = pke_PublicKey P,
     sw_MTU = pke_MTU P, sw_ParseAddr = (\<lambda>x. err_map BadAddrText (ParseAddrBase64 (string_of_bytes x)))\<rparr>"

text \<open>
  \<^verbatim>\<open>Receive\<close> goes on until a message has the address of its sender's key; what is left stays to be
  received.
\<close>

fun identity_Receive ::
  "((addr \<times> addr) \<times> (addr \<times> addr) \<times> bytes) list \<Rightarrow> message option \<times> ((addr \<times> addr) \<times> (addr \<times> addr) \<times> bytes) list" where
  "identity_Receive [] = (None, [])"
| "identity_Receive (((srcID, srcAddr), dst, payload) # msgs) =
     (if srcID \<noteq> srcAddr then identity_Receive msgs
      else (Some \<lparr>m_Src = srcAddr, m_Dst = snd dst, m_Payload = payload\<rparr>, msgs))"

text \<open>\<^verbatim>\<open>networkSwarm.ParseAddr\<close>\<close>

definition network_ParseAddr :: "bytes \<Rightarrow> (mesh_error, addr) outcome" where
  "network_ParseAddr data = err_map BadAddrText (UnmarshalText zero_addr (string_of_bytes data))"

definition wrapNetwork ::
  "('p, 's, 'r) circl \<Rightarrow> sponge \<Rightarrow> string list \<Rightarrow> ('o, 'p, 's) x509_ops \<Rightarrow> (message \<Rightarrow> 'w \<Rightarrow> 'w \<times> (mesh_error, unit) outcome) \<Rightarrow>
   ('o, 'w) pke_ops \<Rightarrow> 's private_key \<Rightarrow> (addr, 'o x509_key, 'w) secure_swarm option" where
  "wrapNetwork c sp ks X deliver P privateKey =
     Option.bind (PublicKeyFromINET256 c X (private_Public c privateKey)) (\<lambda>pubX509.
     Option.bind (key_ID c sp ks privateKey) (\<lambda>localAddr.
     newChainSwarm [newLoopbackSwarm deliver localAddr pubX509, newIdentitySwarm P]))"

text \<open>The swarm presented to networks, over the multihoming swarm \<open>s\<close>.\<close>

definition swarm_PublicKey :: "('o, 'p, 's) x509_ops \<Rightarrow> 'o x509_key \<Rightarrow> 'p public_key option" where
  "swarm_PublicKey X pub = (case PublicKeyFromX509 X pub of Ok k \<Rightarrow> Some k | _ \<Rightarrow> None)"

definition swarm_LookupPublicKey ::
  "('o, 'p, 's) x509_ops \<Rightarrow> ('a \<Rightarrow> (mesh_error, 'o x509_key) outcome) \<Rightarrow> 'a \<Rightarrow> (mesh_error, 'p public_key) outcome" where
  "swarm_LookupPublicKey X lookup target = obind (lookup target) (PublicKeyFromX509 X)"

section \<open>Names of transports\<close>

definition SecureProtocolName :: "string \<Rightarrow> string" where
  "SecureProtocolName x = ''quic+'' @ x"

text \<open>A transport swarm that is already secure keeps its name; \<open>secure\<close> wraps one that is not.\<close>

definition SecureDynSwarm :: "('sw \<Rightarrow> 'sec option) \<Rightarrow> ('sw \<Rightarrow> 'sec) \<Rightarrow> string \<Rightarrow> 'sw \<Rightarrow> string \<times> 'sec" where
  "SecureDynSwarm is_secure secure protoName s =
     (case is_secure s of Some sec \<Rightarrow> (protoName, sec) | None \<Rightarrow> (SecureProtocolName protoName, secure s))"

text \<open>The maps are visited in the order \<open>ns\<close>.\<close>

definition makeSecureSwarms ::
  "('sw \<Rightarrow> 'sec option) \<Rightarrow> ('sw \<Rightarrow> 'sec) \<Rightarrow> string list \<Rightarrow> (string \<rightharpoonup> 'sw) \<Rightarrow> (string \<rightharpoonup> 'sec)" where
  "makeSecureSwarms is_secure secure ns x =
     foldl (\<lambda>y k. case SecureDynSwarm is_secure secure k (the (x k)) of (k', sec) \<Rightarrow> y(k' \<mapsto> sec)) Map.empty ns"

definition NewAddrSchema ::
  "('sw \<Rightarrow> 'sec option) \<Rightarrow> ('sw \<Rightarrow> 'sw) \<Rightarrow> string list \<Rightarrow> (string \<rightharpoonup> 'sw) \<Rightarrow> (string \<rightharpoonup> 'sw)" where
  "NewAddrSchema is_secure secureAddrParser ns swarms =
     foldl (\<lambda>swarms2 k. let v = the (swarms k) in
              if is_secure v = None then swarms2(SecureProtocolName k \<mapsto> secureAddrParser v) else swarms2(k \<mapsto> v)) Map.empty ns"
section \<open>Lemmas\<close>

lemma chain_two_Tell:
  "chain_Tell [a, b] dst v w =
     (case sw_Tell a dst v w of
        (w', Err e) \<Rightarrow> sw_Tell b dst v w'
      | r \<Rightarrow> r)"
  by (auto simp: chain_Tell_def split: prod.splits outcome.splits)

lemma wrapNetwork_Some:
  assumes "wrapNetwork c sp ks X deliver P priv = Some sw"
  obtains i pub where "key_ID c sp ks priv = Some i" "PublicKeyFromINET256 c X (private_Public c priv) = Some pub"
    "newChainSwarm [newLoopbackSwarm deliver i pub, newIdentitySwarm P] = Some sw"
  using assms by (auto simp: wrapNetwork_def bind_eq_Some_conv)

lemma dom_named:
  assumes "\<And>y k. dom (f y k) = insert (name k) (dom y)"
  shows "dom (foldl f m ns) = dom m \<union> name ` set ns" "dom (foldl f Map.empty ns) = name ` set ns"
proof -
  show "dom (foldl f m ns) = dom m \<union> name ` set ns" for m
    using assms by (induction ns arbitrary: m) auto
  from this [of Map.empty] show "dom (foldl f Map.empty ns) = name ` set ns" by simp
qed

text \<open>Every message the channels hand over, up to the first that is delivered, fails the check.\<close>

lemma identity_Receive_split:
  "identity_Receive msgs = (Some m, rest) \<Longrightarrow>
   \<exists>pre dst. msgs = pre @ ((m_Src m, m_Src m), dst, m_Payload m) # rest \<and> m_Dst m = snd dst \<and> list_all (\<lambda>((i, a), _). i \<noteq> a) pre"
proof (induction msgs rule: identity_Receive.induct)
  case (2 srcID srcAddr dst payload msgs)
  show ?case
  proof (cases "srcID = srcAddr")
    case True
    then have "m = \<lparr>m_Src = srcAddr, m_Dst = snd dst, m_Payload = payload\<rparr>" "rest = msgs" using "2.prems" by auto
    with True show ?thesis by (intro exI [of _ "[]"]) auto
  next
    case False
    then obtain pre dst' where "msgs = pre @ ((m_Src m, m_Src m), dst', m_Payload m) # rest" "m_Dst m = snd dst'"
        "list_all (\<lambda>((i, a), _). i \<noteq> a) pre"
      using 2 by auto
    with False show ?thesis by (intro exI [of _ "((srcID, srcAddr), dst, payload) # pre"]) auto
  qed
qed simp

lemma X509_roundtrip:
  assumes "c_marshal_pub c Ed25519 p = Ok data" "ed_of_bytes X data = p"
  shows "\<exists>x. PublicKeyFromINET256 c X (BasePublic Ed25519 p) = Some x \<and> PublicKeyFromX509 X x = Ok (BasePublic Ed25519 p)"
  using assms by (simp add: PublicKeyFromX509_def)

section \<open>Properties\<close>

text \<open>
  C5: Nobody can send as someone else: if the channels name the fingerprint of the key of whoever sent a
  message, every message a node delivers carries as its source the address of the sender's own key,
  and nothing before it that did so was dropped.
\<close>

theorem received_messages_authentic:
  assumes "list_all2 (\<lambda>msg key. fingerprinter c sp ks X key = Some (fst (fst msg))) msgs keys"
    and "identity_Receive msgs = (Some m, rest)"
  shows "\<exists>n pub. n < length msgs \<and> rest = drop (Suc n) msgs \<and> PublicKeyFromX509 X (keys ! n) = Ok pub \<and> NewID c sp ks pub = Some (m_Src m) \<and>
     (\<forall>j < n. fst (fst (msgs ! j)) \<noteq> snd (fst (msgs ! j)))"
proof -
  obtain pre dst where m: "msgs = pre @ ((m_Src m, m_Src m), dst, m_Payload m) # rest" "list_all (\<lambda>((i, a), _). i \<noteq> a) pre"
    using identity_Receive_split [OF assms(2)] by blast
  have "fingerprinter c sp ks X (keys ! length pre) = Some (m_Src m)"
    using list_all2_nthD [OF assms(1), of "length pre"] m(1) by simp
  then obtain pub where "PublicKeyFromX509 X (keys ! length pre) = Ok pub" "NewID c sp ks pub = Some (m_Src m)"
    by (auto simp: fingerprinter_def split: outcome.splits)
  moreover have "\<forall>j < length pre. fst (fst (msgs ! j)) \<noteq> snd (fst (msgs ! j))"
    using m(2) by (auto simp: m(1) nth_append list_all_length case_prod_beta)
  ultimately show ?thesis using m(1) by (intro exI [of _ "length pre"]) auto
qed

text \<open>
  A message to the node's own address is delivered locally and never reaches the network; any other
  message goes to the secured channel with the holder of exactly that address, and its result is the
  result of the call.
\<close>

theorem node_Send_routes:
  assumes "wrapNetwork c sp ks X deliver P priv = Some sw" "key_ID c sp ks priv = Some self"
    and "\<And>m w. \<not> (\<exists>e. snd (deliver m w) = Err e)"
  shows "sw_Tell sw dst v w =
     (if dst = self then deliver \<lparr>m_Src = self, m_Dst = self, m_Payload = v\<rparr> w else pke_Tell P (dst, dst) v w)"
proof -
  obtain pub where sw: "newChainSwarm [newLoopbackSwarm deliver self pub, newIdentitySwarm P] = Some sw"
    using wrapNetwork_Some [OF assms(1)] assms(2) by (metis option.inject)
  then have "sw_Tell sw dst v w = chain_Tell [newLoopbackSwarm deliver self pub, newIdentitySwarm P] dst v w"
    by (auto simp: newChainSwarm_def)
  then show ?thesis
    using assms(3) [of "\<lparr>m_Src = self, m_Dst = self, m_Payload = v\<rparr>" w]
    by (auto simp: chain_two_Tell newLoopbackSwarm_def newIdentitySwarm_def makeAddr_def split: prod.splits outcome.splits)
qed

text \<open>Sample transport keys and channels, on which a run can be evaluated.\<close>

definition sample_x509 :: "(nat, bool, bool) x509_ops" where
  "sample_x509 = \<lparr>Algo_Ed25519 = 2, zero_Algo = 0, ed_of_bytes = (\<lambda>bs. hd bs = 1), ed_seed = (\<lambda>s. sample_bytes 32 s)\<rparr>"

definition sample_key :: "bool \<Rightarrow> nat x509_key" where
  "sample_key k = \<lparr>x_Algorithm = 2, x_Data = sample_bytes 32 k\<rparr>"

definition sample_pke :: "(nat, (string \<times> addr \<times> bytes) list) pke_ops" where
  "sample_pke = \<lparr>pke_Tell = (\<lambda>(i, a) v w. (w @ [(''net'', a, v)], Ok ())), pke_LookupPublicKey = (\<lambda>_. Err KeyNotFound),
     pke_LocalAddrs = [], pke_PublicKey = sample_key True, pke_MTU = 1000\<rparr>"

definition sample_deliver :: "message \<Rightarrow> (string \<times> addr \<times> bytes) list \<Rightarrow> (string \<times> addr \<times> bytes) list \<times> (mesh_error, unit) outcome" where
  "sample_deliver m w = (w @ [(''hub'', m_Src m, m_Payload m)], Ok ())"

lemma hd_sample_bytes: "(hd (sample_bytes 32 k) = 1) = k"
  by (cases k) (simp_all add: numeral_eq_Suc)

lemma sample_key_pub:
  "PublicKeyFromINET256 sample_circl sample_x509 (BasePublic Ed25519 k) = Some (sample_key k)"
  "PublicKeyFromX509 sample_x509 (sample_key k) = Ok (BasePublic Ed25519 k)"
  by (simp_all add: sample_circl_def sample_x509_def sample_key_def PublicKeyFromX509_def hd_sample_bytes)

lemma sample_public: "private_Public sample_circl (BasePrivate Ed25519 k) = BasePublic Ed25519 k"
  by (simp add: sample_circl_def)

lemma sample_fingerprint: "fingerprinter sample_circl sample_sponge default_tags sample_x509 (sample_key k) = Some (sample_ID k)"
  using sample_ID [of k] by (simp add: fingerprinter_def sample_key_pub key_ID_def sample_public del: private_Public.simps)

theorem received_messages_authentic_witness:
  "\<exists>m rest pub. identity_Receive [((sample_ID True, [0]), ([], []), [1]), ((sample_ID False, sample_ID False), ([], [7]), [2])] = (Some m, rest) \<and>
     m_Payload m = [2] \<and> NewID sample_circl sample_sponge default_tags pub = Some (m_Src m)"
proof -
  let ?msgs = "[((sample_ID True, [0]), ([], []), [1]), ((sample_ID False, sample_ID False), ([], [7]), [2])] :: ((addr \<times> addr) \<times> (addr \<times> addr) \<times> bytes) list"
  have "sample_ID True \<noteq> [0]" by code_simp
  then have r: "identity_Receive ?msgs = (Some \<lparr>m_Src = sample_ID False, m_Dst = [7], m_Payload = [2]\<rparr>, [])" by simp
  have "list_all2 (\<lambda>msg key. fingerprinter sample_circl sample_sponge default_tags sample_x509 key = Some (fst (fst msg))) ?msgs [sample_key True, sample_key False]"
    by (simp add: sample_fingerprint)
  from received_messages_authentic [OF this r] r show ?thesis by auto
qed

theorem node_Send_routes_witness:
  "\<exists>sw. wrapNetwork sample_circl sample_sponge default_tags sample_x509 sample_deliver sample_pke (BasePrivate Ed25519 True) = Some sw \<and>
     sw_Tell sw (sample_ID True) [1] [] = ([(''hub'', sample_ID True, [1])], Ok ()) \<and>
     sw_Tell sw (sample_ID False) [1] [] = ([(''net'', sample_ID False, [1])], Ok ())"
proof -
  obtain sw where sw: "wrapNetwork sample_circl sample_sponge default_tags sample_x509 sample_deliver sample_pke (BasePrivate Ed25519 True) = Some sw"
    by (simp add: wrapNetwork_def sample_public sample_key_pub sample_ID newChainSwarm_def del: private_Public.simps PublicKeyFromINET256.simps)
  have "sample_ID False \<noteq> sample_ID True" by code_simp
  then show ?thesis
    using node_Send_routes [OF sw sample_ID, of _ "[1]" "[]"] sw by (simp add: sample_deliver_def sample_pke_def)
qed

text \<open>
  The names under which a node offers its transports are the names under which addresses are
  parsed: securing the swarms and building the address schema from them give the same schemes.
\<close>

theorem transport_names_agree:
  "dom (makeSecureSwarms is_secure secure ns x) = dom (NewAddrSchema is_secure secureAddrParser ns x)"
proof -
  define name where "name k = (if is_secure (the (x k)) = None then SecureProtocolName k else k)" for k
  have "dom (makeSecureSwarms is_secure secure ns x) = name ` set ns"
    unfolding makeSecureSwarms_def
    by (rule dom_named(2)) (simp add: SecureDynSwarm_def name_def split: option.splits)
  moreover have "dom (NewAddrSchema is_secure secureAddrParser ns x) = name ` set ns"
    unfolding NewAddrSchema_def by (rule dom_named(2)) (simp add: Let_def name_def)
  ultimately show ?thesis by simp
qed

text \<open>
  The swarm on top of a node cannot parse an address: the loopback swarm, the first of the chain,
  panics.
\<close>

theorem node_ParseAddr_panics:
  assumes "wrapNetwork c sp ks X deliver P priv = Some sw"
  shows "sw_ParseAddr sw x = Panic"
  by (rule wrapNetwork_Some [OF assms]) (auto simp: newChainSwarm_def newLoopbackSwarm_def)

text \<open>
  A node can only be built on an Ed25519 key: with any other key wrapping its network panics.
\<close>

theorem node_needs_ed25519:
  assumes "\<And>p. is_ok (c_marshal_pub c Ed25519 p)" "key_ID c sp ks priv \<noteq> None"
  shows "wrapNetwork c sp ks X deliver P priv = None \<longleftrightarrow> \<not> (\<exists>s. priv = BasePrivate Ed25519 s)"
proof -
  obtain i where i: "key_ID c sp ks priv = Some i" using assms(2) by blast
  have ed: "\<exists>x. PublicKeyFromINET256 c X (BasePublic Ed25519 p) = Some x" for p
    using assms(1) [of p] by (cases "c_marshal_pub c Ed25519 p") auto
  show ?thesis
  proof (cases "\<exists>s. priv = BasePrivate Ed25519 s")
    case True
    then obtain s where "priv = BasePrivate Ed25519 s" ..
    with ed [of "c_public c Ed25519 s"] i show ?thesis
      by (auto simp: wrapNetwork_def newChainSwarm_def simp del: PublicKeyFromINET256.simps)
  next
    case False
    have "PublicKeyFromINET256 c X (private_Public c priv) = None"
    proof (cases priv)
      case (BasePrivate a s)
      with False show ?thesis by (cases a) auto
    qed simp
    with False show ?thesis by (simp add: wrapNetwork_def)
  qed
qed

end
