(* ===== verification/Mesh_Server.thy ===== *)
theory Mesh_Server
  imports Mesh
begin

text \<open>
  The server of a mesh, \<^verbatim>\<open>src/mesh256/server.go\<close>, and the lifetime of its nodes in \<^verbatim>\<open>node.go\<close>: a main node with the
  configured transports and peers, and one node for each client, connected to the main node through
  swarms in memory. The realm of these swarms is a parameter with state \<open>'w\<close>; the addresses it gives
  out have type \<open>'m\<close>. The server provides the interface \<open>service\<close> on which references are counted.
\<close>

section \<open>Nodes and servers\<close>

text \<open>
  A node is an object of its own: \<open>nd_obj\<close> tells two nodes with the same key apart. The nodes of clients
  point back to the server; the main node, object \<open>0\<close>, does not.
\<close>

record ('s, 'm) mesh_node =
  nd_obj :: nat
  nd_privateKey :: "'s private_key"
  nd_memAddr :: 'm
  nd_peers :: "(string \<times> 'm) peerStore"

text \<open>\<open>srv_closed\<close> records the nodes whose own \<^verbatim>\<open>close\<close> has run.\<close>

record ('s, 'm, 'w) mesh_server =
  srv_mainID :: addr
  srv_realm :: 'w
  srv_mainMemPeers :: "(string \<times> 'm) peerStore"
  srv_mainAddr :: 'm
  srv_mainKey :: "'s private_key"
  srv_peers :: "(string \<times> 'm) peerStore"
  srv_nodes :: "addr \<rightharpoonup> ('s, 'm) mesh_node"
  srv_objs :: nat
  srv_closed :: "nat list"

definition nameMemSwarm :: string where "nameMemSwarm = ''memory''"

type_synonym ('o, 'm, 'w) realm = "'o x509_key \<Rightarrow> 'w \<Rightarrow> 'w \<times> 'm"

definition NewServer ::
  "('p, 's, 'r) circl \<Rightarrow> sponge \<Rightarrow> string list \<Rightarrow> ('o, 'p, 's) x509_ops \<Rightarrow> ('o, 'm, 'w) realm \<Rightarrow> 'w \<Rightarrow> 's private_key \<Rightarrow>
   (string \<times> 'm) peerStore \<Rightarrow> ('s, 'm, 'w) mesh_server option" where
  "NewServer c sp ks X newSwarm realm priv peers0 =
     Option.bind (PublicKeyFromINET256 c X (private_Public c priv)) (\<lambda>pub.
     Option.bind (key_ID c sp ks priv) (\<lambda>i.
       let (realm', a) = newSwarm pub realm
       in Some \<lparr>srv_mainID = i, srv_realm = realm', srv_mainMemPeers = NewStore, srv_mainAddr = a,
            srv_mainKey = priv, srv_peers = peers0,
            srv_nodes = Map.empty, srv_objs = 1, srv_closed = []\<rparr>))"

text \<open>The main node looks peers up in the store of the clients, then in the configured one.\<close>

definition main_peers :: "('s, 'm, 'w) mesh_server \<Rightarrow> (string \<times> 'm) ChainStore" where
  "main_peers s = [srv_mainMemPeers s, srv_peers s]"

text \<open>The lock is held throughout; a key that cannot be converted panics after the checks.\<close>

definition mesh_Open ::
  "('p, 's, 'r) circl \<Rightarrow> sponge \<Rightarrow> string list \<Rightarrow> ('o, 'p, 's) x509_ops \<Rightarrow> ('o, 'm, 'w) realm \<Rightarrow> 's private_key \<Rightarrow>
   ('s, 'm, 'w) mesh_server \<Rightarrow> (svc_error, ('s, 'm, 'w) mesh_server \<times> ('s, 'm) mesh_node) outcome" where
  "mesh_Open c sp ks X newSwarm privateKey s =
     obind (unwinds (key_ID c sp ks privateKey)) (\<lambda>i.
       if i = srv_mainID s then Err MainKeyUsed
       else if srv_nodes s i \<noteq> None then Err NodeAlreadyOpen
       else obind (unwinds (PublicKeyFromINET256 c X (private_Public c privateKey))) (\<lambda>pub.
         let (realm', a) = newSwarm pub (srv_realm s);
             ps = SetAddrs store_Update (store_Add NewStore (srv_mainID s)) (srv_mainID s) [(nameMemSwarm, srv_mainAddr s)];
             memPeers = SetAddrs store_Update (store_Add (srv_mainMemPeers s) i) i [(nameMemSwarm, a)];
             n = \<lparr>nd_obj = srv_objs s, nd_privateKey = privateKey, nd_memAddr = a, nd_peers = ps\<rparr>
         in Ok (s\<lparr>srv_realm := realm', srv_mainMemPeers := memPeers, srv_nodes := (srv_nodes s)(i \<mapsto> n), srv_objs := srv_objs s + 1\<rparr>, n)))"

text \<open>\<open>close_err\<close> is what closing the swarms of the node with a given number returns.\<close>

definition node_close :: "(nat \<Rightarrow> svc_error option) \<Rightarrow> nat \<Rightarrow> ('s, 'm, 'w) mesh_server \<Rightarrow> ('s, 'm, 'w) mesh_server \<times> svc_error option" where
  "node_close close_err n s = (s\<lparr>srv_closed := srv_closed s @ [n]\<rparr>, close_err n)"

definition mesh_Drop ::
  "('p, 's, 'r) circl \<Rightarrow> sponge \<Rightarrow> string list \<Rightarrow> (nat \<Rightarrow> svc_error option) \<Rightarrow> 's private_key \<Rightarrow>
   ('s, 'm, 'w) mesh_server \<Rightarrow> (('s, 'm, 'w) mesh_server \<times> svc_error option) option" where
  "mesh_Drop c sp ks close_err privateKey s =
     Option.bind (key_ID c sp ks privateKey) (\<lambda>i.
       case srv_nodes s i of
         None \<Rightarrow> Some (s, None)
       | Some n \<Rightarrow> Some (node_close close_err (nd_obj n)
           (s\<lparr>srv_nodes := (srv_nodes s)(i := None), srv_mainMemPeers := store_Remove (srv_mainMemPeers s) i\<rparr>)))"

text \<open>\<^verbatim>\<open>Close\<close> of a client's node drops whatever node the server has under its key.\<close>

definition node_Close ::
  "('p, 's, 'r) circl \<Rightarrow> sponge \<Rightarrow> string list \<Rightarrow> (nat \<Rightarrow> svc_error option) \<Rightarrow> ('s, 'm) mesh_node \<Rightarrow>
   ('s, 'm, 'w) mesh_server \<Rightarrow> (('s, 'm, 'w) mesh_server \<times> svc_error option) option" where
  "node_Close c sp ks close_err n s =
     mesh_Drop c sp ks close_err (nd_privateKey n) s"

text \<open>\<^verbatim>\<open>Close\<close> of the main node closes it.\<close>

definition main_Close :: "(nat \<Rightarrow> svc_error option) \<Rightarrow> ('s, 'm, 'w) mesh_server \<Rightarrow> ('s, 'm, 'w) mesh_server \<times> svc_error option" where
  "main_Close close_err s = node_close close_err 0 s"

definition node_LocalAddr :: "('p, 's, 'r) circl \<Rightarrow> sponge \<Rightarrow> string list \<Rightarrow> ('s, 'm) mesh_node \<Rightarrow> addr option" where
  "node_LocalAddr c sp ks n = key_ID c sp ks (nd_privateKey n)"

text \<open>The nodes are closed in the order \<open>ids\<close>; errors are ignored.\<close>

definition mesh_Close :: "(nat \<Rightarrow> svc_error option) \<Rightarrow> addr list \<Rightarrow> ('s, 'm, 'w) mesh_server \<Rightarrow> ('s, 'm, 'w) mesh_server" where
  "mesh_Close close_err ids s =
     (let s1 = foldl (\<lambda>s i. case srv_nodes s i of None \<Rightarrow> s | Some n \<Rightarrow> fst (node_close close_err (nd_obj n) s)) s ids
      in fst (main_Close close_err (s1\<lparr>srv_nodes := Map.empty\<rparr>)))"

record peer_status =
  st_Addr :: addr
  st_LastSeen :: "string \<rightharpoonup> nat"
  st_Uploaded :: u64
  st_Downloaded :: u64

text \<open>\<open>ids\<close> lists the configured peers; \<open>mh\<close> is the multihoming swarm of the main node.\<close>

definition PeerStatus :: "addr list \<Rightarrow> (addr, 'a) mh_swarm \<Rightarrow> peer_status list" where
  "PeerStatus ids mh =
     foldl (\<lambda>ret i. ret @ [\<lparr>st_Addr = i, st_LastSeen = lm_LastSeen i (mh_lm mh), st_Uploaded = GetTx i mh, st_Downloaded = GetRx i mh\<rparr>]) [] ids"
section \<open>The star of nodes\<close>

definition mesh_ops ::
  "('p, 's, 'r) circl \<Rightarrow> sponge \<Rightarrow> string list \<Rightarrow> ('o, 'p, 's) x509_ops \<Rightarrow> ('o, 'm, 'w) realm \<Rightarrow> (nat \<Rightarrow> svc_error option) \<Rightarrow>
   (('s, 'm, 'w) mesh_server, 's private_key, ('s, 'm) mesh_node, svc_error) service_ops" where
  "mesh_ops c sp ks X newSwarm close_err = \<lparr>sv_ID = key_ID c sp ks, sv_Open = mesh_Open c sp ks X newSwarm,
     sv_Close = node_Close c sp ks close_err, sv_LocalAddr = node_LocalAddr c sp ks\<rparr>"

text \<open>
  A client's node is registered under the address of its key, has the main node as its only peer, and
  is known to the main node by the address of its swarm.
\<close>

definition client_ok :: "('p, 's, 'r) circl \<Rightarrow> sponge \<Rightarrow> string list \<Rightarrow> ('s, 'm, 'w) mesh_server \<Rightarrow> addr \<Rightarrow> ('s, 'm) mesh_node \<Rightarrow> bool" where
  "client_ok c sp ks s i n \<longleftrightarrow>
     i \<noteq> srv_mainID s \<and> node_LocalAddr c sp ks n = Some i \<and>
     store_Get (nd_peers n) = [srv_mainID s \<mapsto> \<lparr>Addrs = [(nameMemSwarm, srv_mainAddr s)]\<rparr>] \<and>
     store_Get (srv_mainMemPeers s) i = Some \<lparr>Addrs = [(nameMemSwarm, nd_memAddr n)]\<rparr>"

definition mesh_wf :: "('p, 's, 'r) circl \<Rightarrow> sponge \<Rightarrow> string list \<Rightarrow> ('s, 'm, 'w) mesh_server \<Rightarrow> bool" where
  "mesh_wf c sp ks s \<longleftrightarrow>
     (\<forall>i n. srv_nodes s i = Some n \<longrightarrow> client_ok c sp ks s i n) \<and>
     (\<forall>i. store_Contains (srv_mainMemPeers s) i \<longrightarrow> srv_nodes s i \<noteq> None)"

lemma mesh_wfD: "mesh_wf c sp ks s \<Longrightarrow> srv_nodes s i = Some n \<Longrightarrow> client_ok c sp ks s i n"
  by (auto simp: mesh_wf_def)

lemma NewServer_wf: "NewServer c sp ks X newSwarm realm priv peers0 = Some s \<Longrightarrow> mesh_wf c sp ks s \<and> srv_nodes s = Map.empty"
  by (auto simp: NewServer_def mesh_wf_def ps.contains_get ps.get_new bind_eq_Some_conv case_prod_beta)

lemma mesh_Open_ok:
  assumes "mesh_Open c sp ks X newSwarm priv s = Ok (s', n)"
  obtains i a where "key_ID c sp ks priv = Some i" "i \<noteq> srv_mainID s" "srv_nodes s i = None" "nd_privateKey n = priv" "nd_memAddr n = a"
    "nd_peers n = SetAddrs store_Update (store_Add NewStore (srv_mainID s)) (srv_mainID s) [(nameMemSwarm, srv_mainAddr s)]"
    "srv_nodes s' = (srv_nodes s)(i \<mapsto> n)" "srv_mainID s' = srv_mainID s" "srv_mainAddr s' = srv_mainAddr s"
    "srv_mainMemPeers s' = SetAddrs store_Update (store_Add (srv_mainMemPeers s) i) i [(nameMemSwarm, a)]"
proof -
  obtain i where i: "key_ID c sp ks priv = Some i" "i \<noteq> srv_mainID s" "srv_nodes s i = None"
    using assms by (auto simp: mesh_Open_def outcome_simps split: if_splits)
  obtain pub where "PublicKeyFromINET256 c X (private_Public c priv) = Some pub"
    using assms i by (auto simp: mesh_Open_def outcome_simps)
  with assms i that show thesis
    by (cases "newSwarm pub (srv_realm s)") (auto simp: mesh_Open_def Let_def)
qed

lemma get_set_new:
  "store_Get (SetAddrs store_Update (store_Add s i) i ts) = (store_Get s)(i \<mapsto> \<lparr>Addrs = ts\<rparr>)" if "store_Get s i = None"
  using that by (auto simp: fun_eq_iff ps.get_SetAddrs ps.get_add)

lemma mesh_Open_wf:
  assumes "mesh_wf c sp ks s" "mesh_Open c sp ks X newSwarm priv s = Ok (s', n)"
  shows "mesh_wf c sp ks s'"
proof -
  obtain i a where i: "key_ID c sp ks priv = Some i" "i \<noteq> srv_mainID s" "srv_nodes s i = None" "nd_privateKey n = priv" "nd_memAddr n = a"
    "nd_peers n = SetAddrs store_Update (store_Add NewStore (srv_mainID s)) (srv_mainID s) [(nameMemSwarm, srv_mainAddr s)]"
    "srv_nodes s' = (srv_nodes s)(i \<mapsto> n)" "srv_mainID s' = srv_mainID s" "srv_mainAddr s' = srv_mainAddr s"
    "srv_mainMemPeers s' = SetAddrs store_Update (store_Add (srv_mainMemPeers s) i) i [(nameMemSwarm, a)]"
    using mesh_Open_ok [OF assms(2)] .
  have "store_Get (srv_mainMemPeers s) i = None" using assms(1) i(3) by (auto simp: mesh_wf_def ps.contains_get)
  then have mem: "store_Get (srv_mainMemPeers s') = (store_Get (srv_mainMemPeers s))(i \<mapsto> \<lparr>Addrs = [(nameMemSwarm, a)]\<rparr>)"
    by (simp add: i(10) get_set_new)
  have "store_Get (nd_peers n) = [srv_mainID s \<mapsto> \<lparr>Addrs = [(nameMemSwarm, srv_mainAddr s)]\<rparr>]"
    by (simp add: i(6) get_set_new ps.get_new) (simp add: fun_eq_iff ps.get_new)
  then have "client_ok c sp ks s' i n" using i mem by (simp add: client_ok_def node_LocalAddr_def)
  moreover have "client_ok c sp ks s' j m" if "srv_nodes s j = Some m" "j \<noteq> i" for j m
    using mesh_wfD [OF assms(1) that(1)] that(2) i(8,9) mem by (simp add: client_ok_def)
  ultimately show ?thesis
    using assms(1) i(7) mem by (auto simp: mesh_wf_def ps.contains_get split: if_splits)
qed

lemma mesh_Drop_effect:
  assumes "mesh_wf c sp ks s" "key_ID c sp ks priv = Some i"
  obtains s' e where "mesh_Drop c sp ks close_err priv s = Some (s', e)" "mesh_wf c sp ks s'" "srv_nodes s' = (srv_nodes s)(i := None)"
    "srv_closed s' = srv_closed s @ (case srv_nodes s i of None \<Rightarrow> [] | Some n \<Rightarrow> [nd_obj n])"
proof (cases "srv_nodes s i")
  case None
  then have "(srv_nodes s)(i := None) = srv_nodes s" by auto
  with None that [of s] assms show ?thesis by (simp add: mesh_Drop_def)
next
  case (Some n)
  let ?s = "s\<lparr>srv_nodes := (srv_nodes s)(i := None), srv_mainMemPeers := store_Remove (srv_mainMemPeers s) i, srv_closed := srv_closed s @ [nd_obj n]\<rparr>"
  have "mesh_Drop c sp ks close_err priv s = Some (?s, close_err (nd_obj n))"
    using assms(2) Some by (simp add: mesh_Drop_def node_close_def)
  moreover have "client_ok c sp ks ?s j m" if "srv_nodes s j = Some m" "j \<noteq> i" for j m
    using mesh_wfD [OF assms(1) that(1)] that(2) by (simp add: client_ok_def ps.get_del)
  then have "mesh_wf c sp ks ?s"
    using assms(1) by (auto simp: mesh_wf_def ps.contains_get ps.get_del split: if_splits)
  ultimately show ?thesis using that [of ?s "close_err (nd_obj n)"] Some by simp
qed

interpretation mesh: service "mesh_ops c sp ks X newSwarm close_err" "mesh_wf c sp ks" "\<lambda>s. dom (srv_nodes s)"
  for c :: "('p, 's, 'r) circl" and sp ks and X :: "('o, 'p, 's) x509_ops" and newSwarm :: "('o, 'm, 'w) realm" and close_err
proof
  fix s s' :: "('s, 'm, 'w) mesh_server" and k :: "'s private_key" and i and h :: "('s, 'm) mesh_node"
  assume wf: "mesh_wf c sp ks s" and "sv_ID (mesh_ops c sp ks X newSwarm close_err) k = Some i"
    and "sv_Open (mesh_ops c sp ks X newSwarm close_err) k s = Ok (s', h)"
  then have o: "mesh_Open c sp ks X newSwarm k s = Ok (s', h)" "key_ID c sp ks k = Some i" by (simp_all add: mesh_ops_def)
  obtain j where "key_ID c sp ks k = Some j" "nd_privateKey h = k" "srv_nodes s' = (srv_nodes s)(j \<mapsto> h)"
    using mesh_Open_ok [OF o(1)] .
  with o(2) mesh_Open_wf [OF wf o(1)]
  show "mesh_wf c sp ks s' \<and> sv_LocalAddr (mesh_ops c sp ks X newSwarm close_err) h = Some i \<and> dom (srv_nodes s') = insert i (dom (srv_nodes s))"
    by (simp add: mesh_ops_def node_LocalAddr_def)
next
  fix s s' :: "('s, 'm, 'w) mesh_server" and h :: "('s, 'm) mesh_node" and i e
  assume wf: "mesh_wf c sp ks s" and "sv_LocalAddr (mesh_ops c sp ks X newSwarm close_err) h = Some i"
    and "sv_Close (mesh_ops c sp ks X newSwarm close_err) h s = Some (s', e)"
  then have "key_ID c sp ks (nd_privateKey h) = Some i" "mesh_Drop c sp ks close_err (nd_privateKey h) s = Some (s', e)"
    by (simp_all add: mesh_ops_def node_LocalAddr_def node_Close_def)
  then show "mesh_wf c sp ks s' \<and> dom (srv_nodes s') = dom (srv_nodes s) - {i}"
    using mesh_Drop_effect [OF wf, of "nd_privateKey h" i close_err] by (metis dom_fun_upd fst_conv option.inject)
qed

lemma rc_mesh_in_step:
  assumes "NewServer c sp ks X newSwarm realm priv peers0 = Some s0" "rc_trace (mesh_ops c sp ks X newSwarm close_err) s0 es r"
  shows "mesh_wf c sp ks (rc_service r)" "dom (srv_nodes (rc_service r)) = {i. 0 < handles es i}"
  using mesh.trace_in_step [OF assms(2)] NewServer_wf [OF assms(1)] by (simp_all add: mesh.in_step_def)

section \<open>Properties\<close>

text \<open>A server with one of the sample keys, and its client with the other.\<close>

definition sample_realm :: "(nat, nat, nat) realm" where
  "sample_realm pub w = (Suc w, w)"

definition sample_server :: "(bool, nat, nat) mesh_server" where
  "sample_server = \<lparr>srv_mainID = sample_ID True, srv_realm = 4, srv_mainMemPeers = NewStore, srv_mainAddr = 3,
     srv_mainKey = BasePrivate Ed25519 True, srv_peers = NewStore, srv_nodes = Map.empty, srv_objs = 1, srv_closed = []\<rparr>"

definition sample_mesh_client :: "(bool, nat) mesh_node" where
  "sample_mesh_client = \<lparr>nd_obj = 1, nd_privateKey = BasePrivate Ed25519 False, nd_memAddr = 4,
     nd_peers = SetAddrs store_Update (store_Add NewStore (sample_ID True)) (sample_ID True) [(nameMemSwarm, 3)]\<rparr>"

abbreviation sample_mesh_ops :: "((bool, nat, nat) mesh_server, bool private_key, (bool, nat) mesh_node, svc_error) service_ops" where
  "sample_mesh_ops \<equiv> mesh_ops sample_circl sample_sponge default_tags sample_x509 sample_realm (\<lambda>_. None)"

lemma sample_server_new: "NewServer sample_circl sample_sponge default_tags sample_x509 sample_realm 3 (BasePrivate Ed25519 True) NewStore = Some sample_server"
  by (simp add: NewServer_def sample_public sample_key_pub sample_ID sample_realm_def sample_server_def
      del: private_Public.simps PublicKeyFromINET256.simps)

lemma sample_IDs_differ: "sample_ID False \<noteq> sample_ID True"
  by code_simp

lemma sample_trace:
  obtains r where "rc_trace sample_mesh_ops sample_server [Opened (sample_ID False), Opened (sample_ID False), Closed (sample_ID False)] r"
    "srv_nodes (rc_service r) (sample_ID False) = Some sample_mesh_client"
proof -
  let ?i = "sample_ID False"
  obtain s1 where s1: "mesh_Open sample_circl sample_sponge default_tags sample_x509 sample_realm (BasePrivate Ed25519 False) sample_server = Ok (s1, sample_mesh_client)"
      "srv_nodes s1 = [?i \<mapsto> sample_mesh_client]"
    by (simp add: mesh_Open_def sample_ID sample_public sample_key_pub sample_realm_def sample_mesh_client_def sample_server_def sample_IDs_differ Let_def
        del: private_Public.simps PublicKeyFromINET256.simps)
  define r where "r n = \<lparr>rc_service = s1, rc_nodes = [?i \<mapsto> (sample_mesh_client, n)]\<rparr>" for n
  have ops: "sv_ID sample_mesh_ops = key_ID sample_circl sample_sponge default_tags" "sv_LocalAddr sample_mesh_ops sample_mesh_client = Some ?i"
    by (simp_all add: mesh_ops_def node_LocalAddr_def sample_mesh_client_def sample_ID)
  have "rc_Open sample_mesh_ops (BasePrivate Ed25519 False) (Wrap sample_server) = Ok (r 1, sample_mesh_client)"
    using s1(1) by (simp add: rc_Open_def ops sample_ID Wrap_def r_def) (simp add: mesh_ops_def)
  moreover have "rc_Open sample_mesh_ops (BasePrivate Ed25519 False) (r 1) = Ok (r 2, sample_mesh_client)"
    by (simp add: rc_Open_def ops sample_ID r_def)
  moreover have "rc_Close sample_mesh_ops sample_mesh_client (r 2) = Some (r 1, None)"
    by (simp add: rc_Close_def ops r_def Let_def)
  ultimately have "rc_trace sample_mesh_ops sample_server ((([] @ [Opened ?i]) @ [Opened ?i]) @ [Closed ?i]) (r 1)"
    using ops sample_ID by (metis rc_trace.start rc_trace.opened rc_trace.closed)
  with s1(2) that [of "r 1"] show thesis by (simp add: r_def)
qed



text \<open>
  C7: The nodes of a server form a star: in every reachable state a client's node knows the main node
  and nobody else, the main node knows exactly the clients' nodes and its configured peers, and each
  of them at the address of its own swarm.
\<close>

theorem clients_form_a_star:
  assumes "NewServer c sp ks X newSwarm realm priv peers0 = Some s0" "rc_trace (mesh_ops c sp ks X newSwarm close_err) s0 es r"
    and "s = rc_service r"
  shows "(chain_Contains (main_peers s) i \<longleftrightarrow> srv_nodes s i \<noteq> None \<or> store_Contains (srv_peers s) i) \<and>
     (\<forall>n. srv_nodes s i = Some n \<longrightarrow> i \<noteq> srv_mainID s \<and>
        store_Get (nd_peers n) = [srv_mainID s \<mapsto> \<lparr>Addrs = [(nameMemSwarm, srv_mainAddr s)]\<rparr>] \<and>
        Addrs (fst (chain_Get (main_peers s) i)) = (nameMemSwarm, nd_memAddr n) # ListAddrs store_Get (srv_peers s) i)"
proof -
  have wf: "mesh_wf c sp ks s" using rc_mesh_in_step(1) [OF assms(1,2)] assms(3) by simp
  have "store_Contains (srv_mainMemPeers s) i \<longleftrightarrow> srv_nodes s i \<noteq> None"
    using wf mesh_wfD [OF wf, of i] by (auto simp: mesh_wf_def client_ok_def ps.contains_get)
  then show ?thesis
    using mesh_wfD [OF wf, of i]
    by (auto simp: main_peers_def chain_Contains_def chain_Get_def chain_Get_loop_eq client_ok_def ListAddrs_def)
qed

theorem clients_form_a_star_witness:
  "\<exists>r. rc_trace sample_mesh_ops sample_server [Opened (sample_ID False), Opened (sample_ID False), Closed (sample_ID False)] r \<and>
     Addrs (fst (chain_Get (main_peers (rc_service r)) (sample_ID False))) = (nameMemSwarm, 4) # ListAddrs store_Get (srv_peers (rc_service r)) (sample_ID False)"
proof -
  obtain r where r: "rc_trace sample_mesh_ops sample_server [Opened (sample_ID False), Opened (sample_ID False), Closed (sample_ID False)] r"
      "srv_nodes (rc_service r) (sample_ID False) = Some sample_mesh_client"
    by (rule sample_trace)
  with clients_form_a_star [OF sample_server_new r(1) refl, of "sample_ID False"] show ?thesis by (auto simp: sample_mesh_client_def)
qed

text \<open>
  Closing a node that was dropped closes its successor: when a key has been dropped and opened again,
  \<^verbatim>\<open>Close\<close> of the old node takes the new one from the server and closes it.
\<close>

theorem stale_close_hits_new_node:
  assumes "mesh_wf c sp ks s" "key_ID c sp ks priv = Some i" "mesh_Open c sp ks X newSwarm priv s = Ok (s1, old)"
    and "mesh_Drop c sp ks close_err priv s1 = Some (s2, e)" "mesh_Open c sp ks X newSwarm priv s2 = Ok (s3, new)"
  shows "\<exists>s4 e'. node_Close c sp ks close_err old s3 = Some (s4, e') \<and> srv_nodes s4 i = None \<and> last (srv_closed s4) = nd_obj new"
proof -
  have "mesh_wf c sp ks s2"
    using mesh_Drop_effect [OF mesh_Open_wf [OF assms(1,3)] assms(2), of close_err] assms(4) by (metis fst_conv option.inject)
  then have wf: "mesh_wf c sp ks s3" by (rule mesh_Open_wf [OF _ assms(5)])
  have "nd_privateKey old = priv" by (rule mesh_Open_ok [OF assms(3)])
  moreover have "srv_nodes s3 i = Some new" by (rule mesh_Open_ok [OF assms(5)]) (simp add: assms(2))
  moreover obtain s4 e' where "mesh_Drop c sp ks close_err priv s3 = Some (s4, e')" "srv_nodes s4 = (srv_nodes s3)(i := None)"
      "srv_closed s4 = srv_closed s3 @ (case srv_nodes s3 i of None \<Rightarrow> [] | Some n \<Rightarrow> [nd_obj n])"
    using mesh_Drop_effect [OF wf assms(2)] .
  ultimately show ?thesis by (auto simp: node_Close_def)
qed

end
