(* ===== verification/Netutil.thy ===== *)
theory Netutil
  imports Services
begin

text \<open>
  Helpers around nodes: \<^verbatim>\<open>src/internal/netutil\<close> with its service groups, send queues and worker pools, the
  \<^verbatim>\<open>net.PacketConn\<close> of \<^verbatim>\<open>src/inet256/packetconn.go\<close> and the swarm adapter of \<^verbatim>\<open>src/internal/p2padapter\<close>. Goroutines
  are steps of a transition relation or rounds of a loop; sleeping and logging have no effect on the model.
\<close>

section \<open>Errors\<close>

text \<open>
  An error with the errors it wraps, outermost first; nil is the empty chain. \<^verbatim>\<open>errors.Is\<close> compares the chain
  with a target that wraps nothing.
\<close>

type_synonym 'e chain = "'e list"

definition errors_Is :: "'e chain \<Rightarrow> 'e chain \<Rightarrow> bool" where
  "errors_Is err target = (case target of [] \<Rightarrow> err = [] | t # _ \<Rightarrow> t \<in> set err)"

section \<open>Service groups\<close>

text \<open>
  One service of a group, given what it observes: in every round, the error of the function and the error
  of the group's context, nil while the group runs, when it is looked at. The result tells how often the
  function has run and whether the goroutine has ended.
\<close>

fun sg_service :: "('e chain \<times> 'e chain) list \<Rightarrow> nat \<times> bool" where
  "sg_service [] = (0, False)"
| "sg_service ((err, ctxErr) # rounds) =
     (if errors_Is err ctxErr then (1, True)
      else if ctxErr \<noteq> [] then (1, True)
      else case sg_service rounds of (n, ended) \<Rightarrow> (Suc n, ended))"

text \<open>The group: the cancel function is nil until the first \<^verbatim>\<open>Go\<close>, and calling it then panics.\<close>

record sg =
  sg_ready :: bool
  sg_cancelled :: bool
  sg_count :: nat

definition sg_Go :: "sg \<Rightarrow> sg" where
  "sg_Go g = g\<lparr>sg_ready := True, sg_count := Suc (sg_count g)\<rparr>"

definition sg_Stop :: "sg \<Rightarrow> sg option" where
  "sg_Stop g = (if sg_ready g then Some (g\<lparr>sg_cancelled := True\<rparr>) else None)"

section \<open>Send queues\<close>

text \<open>
  A send queue with a channel of the given depth. The sending loop holds the message it is about to send;
  \<open>sq_sent\<close> records what was handed to the send function, \<open>sq_accepted\<close> what \<^verbatim>\<open>Tell\<close> accepted.
\<close>

record sendQueue =
  sq_depth :: nat
  sq_todo :: "(addr \<times> bytes) list"
  sq_cancelled :: bool
  sq_done :: bool
  sq_sent :: "(addr \<times> bytes) list"
  sq_accepted :: "(addr \<times> bytes) list"

definition NewSendQueue :: "nat \<Rightarrow> sendQueue" where
  "NewSendQueue depth = \<lparr>sq_depth = depth, sq_todo = [], sq_cancelled = False, sq_done = False, sq_sent = [], sq_accepted = []\<rparr>"

text \<open>
  A \<^verbatim>\<open>Tell\<close> completes when there is room in the channel, or by handing its message to the waiting loop; once
  the queue is done it may fail instead. The loop sends the first message whether or not the call
  fails, since the group restarts it, and \<^verbatim>\<open>Close\<close> cancels the context, which ends the loop.
\<close>

inductive sq_step :: "sendQueue \<Rightarrow> sendQueue \<Rightarrow> bool" where
  sq_Tell: "length (sq_todo q) < sq_depth q \<Longrightarrow> sq_step q (q\<lparr>sq_todo := sq_todo q @ [(dst, v)], sq_accepted := sq_accepted q @ [(dst, v)]\<rparr>)"
| sq_hand: "sq_todo q = [] \<Longrightarrow> sq_step q (q\<lparr>sq_sent := sq_sent q @ [(dst, v)], sq_accepted := sq_accepted q @ [(dst, v)]\<rparr>)"
| sq_send: "sq_todo q = msg # msgs \<Longrightarrow> sq_step q (q\<lparr>sq_todo := msgs, sq_sent := sq_sent q @ [msg]\<rparr>)"
| sq_Tell_closed: "sq_done q \<Longrightarrow> sq_step q q"
| sq_Close: "sq_step q (q\<lparr>sq_cancelled := True\<rparr>)"
| sq_finish: "sq_cancelled q \<Longrightarrow> sq_step q (q\<lparr>sq_done := True\<rparr>)"

section \<open>Worker pools\<close>

text \<open>
  The running workers by number, the next number, and those that have been stopped. Removing a worker cancels
  it and waits until it has returned.
\<close>

record pool =
  wp_workers :: "nat list"
  wp_next :: nat
  wp_stopped :: "nat list"

definition spawn :: "pool \<Rightarrow> pool" where
  "spawn wp = wp\<lparr>wp_workers := wp_workers wp @ [wp_next wp], wp_next := Suc (wp_next wp)\<rparr>"

definition despawn :: "pool \<Rightarrow> pool option" where
  "despawn wp = (if wp_workers wp = [] then None
     else Some (wp\<lparr>wp_workers := butlast (wp_workers wp), wp_stopped := wp_stopped wp @ [last (wp_workers wp)]\<rparr>))"

lemma spawn_length [simp]: "length (wp_workers (spawn wp)) = Suc (length (wp_workers wp))"
  by (simp add: spawn_def)

lemma despawn_length: "despawn wp = Some wp' \<Longrightarrow> Suc (length (wp_workers wp')) = length (wp_workers wp)"
  by (cases "wp_workers wp" rule: rev_cases) (auto simp: despawn_def)

text \<open>The loop with the count that is asked for, a Go int; \<open>None\<close> is the panic on an index of -1.\<close>

function SetCount :: "int \<Rightarrow> pool \<Rightarrow> pool option" where
  "SetCount n wp =
     (if int (length (wp_workers wp)) = n then Some wp
      else if int (length (wp_workers wp)) < n then SetCount n (spawn wp)
      else case despawn wp of None \<Rightarrow> None | Some wp' \<Rightarrow> SetCount n wp')"
  by pat_completeness auto
termination
  by (relation "measure (\<lambda>(n, wp). nat \<bar>int (length (wp_workers wp)) - n\<bar>)") (auto dest: despawn_length)

declare SetCount.simps [simp del]

definition pool_Stop :: "pool \<Rightarrow> pool option" where "pool_Stop wp = SetCount 0 wp"

section \<open>Packet connections\<close>

datatype net_addr = Inet256Addr addr | OtherAddr string

datatype conn_error = InvalidAddress net_addr | DeadlineExceeded | OSDeadlineExceeded | NodeError svc_error

record packetConn =
  pc_readDeadline :: "int option"
  pc_writeDeadline :: "int option"

definition NewPacketConn :: packetConn where
  "NewPacketConn = \<lparr>pc_readDeadline = None, pc_writeDeadline = None\<rparr>"

definition SetDeadline :: "int \<Rightarrow> packetConn \<Rightarrow> packetConn" where
  "SetDeadline t pc = pc\<lparr>pc_readDeadline := Some t, pc_writeDeadline := Some t\<rparr>"

definition SetWriteDeadline :: "int \<Rightarrow> packetConn \<Rightarrow> packetConn" where
  "SetWriteDeadline t pc = pc\<lparr>pc_writeDeadline := Some t\<rparr>"

definition SetReadDeadline :: "int \<Rightarrow> packetConn \<Rightarrow> packetConn" where
  "SetReadDeadline t pc = pc\<lparr>pc_readDeadline := Some t\<rparr>"

fun convertAddr :: "net_addr \<Rightarrow> (conn_error chain, addr) outcome" where
  "convertAddr (Inet256Addr y) = Ok y"
| "convertAddr x = Err [InvalidAddress x]"

definition convertError :: "conn_error chain \<Rightarrow> conn_error chain" where
  "convertError err = (if errors_Is err [DeadlineExceeded] then [OSDeadlineExceeded] else err)"

text \<open>The node's operations take the deadline of the context they are called with.\<close>

definition WriteTo ::
  "(int option \<Rightarrow> addr \<Rightarrow> bytes \<Rightarrow> 'w \<Rightarrow> 'w \<times> (conn_error chain, unit) outcome) \<Rightarrow> packetConn \<Rightarrow> bytes \<Rightarrow> net_addr \<Rightarrow> 'w \<Rightarrow>
   'w \<times> (conn_error chain, nat) outcome" where
  "WriteTo send pc p a w =
     (case convertAddr a of
        Ok dst \<Rightarrow> (case send (pc_writeDeadline pc) dst p w of (w', r) \<Rightarrow> (w', obind (err_map convertError r) (\<lambda>_. Ok (length p))))
      | Err e \<Rightarrow> (w, Err e)
      | Panic \<Rightarrow> (w, Panic))"

text \<open>
  Reading into the buffer \<open>p\<close>: the buffer afterwards, the number of bytes and the sender; \<open>None\<close> while the node's
  \<^verbatim>\<open>Receive\<close> blocks.
\<close>

definition ReadFrom ::
  "(int option \<Rightarrow> 'w \<Rightarrow> ('w \<times> (conn_error chain, message) outcome) option) \<Rightarrow> packetConn \<Rightarrow> bytes \<Rightarrow> 'w \<Rightarrow>
   ('w \<times> (conn_error chain, bytes \<times> nat \<times> net_addr) outcome) option" where
  "ReadFrom receive pc p w =
     map_option (\<lambda>(w', r). (w', obind (err_map convertError r) (\<lambda>m.
       Ok (gocopy p (m_Payload m), min (length p) (length (m_Payload m)), Inet256Addr (m_Src m))))) (receive (pc_readDeadline pc) w)"

text \<open>The operations of a memory node as a connection calls them; a receive that blocks until its deadline fails.\<close>

definition mem_conn_send ::
  "'q queue_ops \<Rightarrow> ('p, 's, 'r) circl \<Rightarrow> sponge \<Rightarrow> string list \<Rightarrow> 'p memNode \<Rightarrow> int option \<Rightarrow> addr \<Rightarrow> bytes \<Rightarrow> ('p, 'q) memService \<Rightarrow>
   ('p, 'q) memService \<times> (conn_error chain, unit) outcome" where
  "mem_conn_send Q c sp ks node dl dst p s = (case mem_Send Q c sp ks node dst p s of Some s' \<Rightarrow> (s', Ok ()) | None \<Rightarrow> (s, Panic))"

definition mem_conn_receive ::
  "'q queue_ops \<Rightarrow> 'p memNode \<Rightarrow> int option \<Rightarrow> ('p, 'q) memService \<Rightarrow> (('p, 'q) memService \<times> (conn_error chain, message) outcome) option" where
  "mem_conn_receive Q node dl s =
     (case mem_Receive Q node s of
        Some (s', r) \<Rightarrow> Some (s', err_map (\<lambda>e. [NodeError e]) r)
      | None \<Rightarrow> (case dl of Some _ \<Rightarrow> Some (s, Err [DeadlineExceeded]) | None \<Rightarrow> None))"

section \<open>The swarm adapter\<close>

text \<open>A vector of byte slices is sent as their concatenation.\<close>

definition adapter_Tell :: "(addr \<Rightarrow> bytes \<Rightarrow> 'w \<Rightarrow> 'r) \<Rightarrow> addr \<Rightarrow> bytes list \<Rightarrow> 'w \<Rightarrow> 'r" where
  "adapter_Tell send dst v w = send dst (concat v) w"

definition adapter_LocalAddrs :: "addr \<Rightarrow> addr list" where
  "adapter_LocalAddrs localAddr = [localAddr]"

definition adapter_ParseAddr :: "string \<Rightarrow> (id_error, addr) outcome" where
  "adapter_ParseAddr data = obind (UnmarshalText zero_addr data) Ok"
section \<open>Lemmas\<close>

lemma sq_step_inv:
  "sq_step q q' \<Longrightarrow> sq_accepted q = sq_sent q @ sq_todo q \<and> length (sq_todo q) \<le> sq_depth q \<Longrightarrow>
     sq_accepted q' = sq_sent q' @ sq_todo q' \<and> length (sq_todo q') \<le> sq_depth q'"
  by (induction rule: sq_step.induct) auto

lemma SetCount_up:
  "wp_workers wp = ws \<Longrightarrow> SetCount (int (length ws + k)) wp = Some (wp\<lparr>wp_workers := ws @ [wp_next wp..<wp_next wp + k], wp_next := wp_next wp + k\<rparr>)"
proof (induction k arbitrary: wp ws)
  case 0
  then show ?case by (subst SetCount.simps) simp
next
  case (Suc k)
  have "SetCount (int (length ws + Suc k)) wp = SetCount (int (length (ws @ [wp_next wp]) + k)) (spawn wp)"
    using Suc.prems by (subst SetCount.simps) simp
  also have "\<dots> = Some ((spawn wp)\<lparr>wp_workers := (ws @ [wp_next wp]) @ [Suc (wp_next wp)..<Suc (wp_next wp) + k], wp_next := Suc (wp_next wp) + k\<rparr>)"
    using Suc.IH [of "spawn wp" "ws @ [wp_next wp]"] Suc.prems by (simp add: spawn_def)
  finally show ?case by (simp add: spawn_def upt_conv_Cons)
qed

lemma SetCount_down:
  "wp_workers wp = ws @ zs \<Longrightarrow> SetCount (int (length ws)) wp = Some (wp\<lparr>wp_workers := ws, wp_stopped := wp_stopped wp @ rev zs\<rparr>)"
proof (induction zs arbitrary: wp rule: rev_induct)
  case Nil
  then show ?case by (subst SetCount.simps) simp
next
  case (snoc z zs)
  let ?wp = "wp\<lparr>wp_workers := ws @ zs, wp_stopped := wp_stopped wp @ [z]\<rparr>"
  have "SetCount (int (length ws)) wp = SetCount (int (length ws)) ?wp"
    using snoc.prems by (subst SetCount.simps) (simp add: despawn_def butlast_append)
  also have "\<dots> = Some (?wp\<lparr>wp_workers := ws, wp_stopped := wp_stopped ?wp @ rev zs\<rparr>)" by (rule snoc.IH) simp
  finally show ?case by simp
qed

lemma SetCount_negative: "n < 0 \<Longrightarrow> SetCount n wp = None"
proof (induction "length (wp_workers wp)" arbitrary: wp)
  case 0
  then show ?case by (subst SetCount.simps) (simp add: despawn_def)
next
  case (Suc k)
  then have "wp_workers wp \<noteq> []" by auto
  then obtain wp' where wp': "despawn wp = Some wp'" by (simp add: despawn_def)
  then have "SetCount n wp' = None" using Suc despawn_length [OF wp'] by simp
  with wp' Suc.prems show ?case by (subst SetCount.simps) simp
qed

section \<open>Properties\<close>

text \<open>
  A send queue keeps order and loses nothing: however calls of \<^verbatim>\<open>Tell\<close>, sending and closing interleave,
  the accepted messages are those handed to the send function, in the same order, followed by those that
  still wait, which are never more than the depth of the queue.
\<close>

theorem send_queue_in_order:
  assumes "sq_step\<^sup>*\<^sup>* (NewSendQueue depth) q"
  shows "sq_accepted q = sq_sent q @ sq_todo q \<and> length (sq_todo q) \<le> sq_depth q"
  using assms
proof (induction rule: rtranclp_induct)
  case base
  show ?case by (simp add: NewSendQueue_def)
next
  case (step q q')
  from sq_step_inv [OF step.hyps(2) step.IH] show ?case .
qed

theorem send_queue_in_order_witness:
  "\<exists>q. sq_step\<^sup>*\<^sup>* (NewSendQueue 1) q \<and> sq_todo q = [(zero_addr, [2])] \<and> sq_accepted q = sq_sent q @ [(zero_addr, [2])]"
proof -
  have "sq_step (NewSendQueue 1) ((NewSendQueue 1)\<lparr>sq_todo := [(zero_addr, [2])], sq_accepted := [(zero_addr, [2])]\<rparr>)"
    using sq_Tell [of "NewSendQueue 1" zero_addr "[2]"] by (simp add: NewSendQueue_def)
  then have "sq_step\<^sup>*\<^sup>* (NewSendQueue 1) ((NewSendQueue 1)\<lparr>sq_todo := [(zero_addr, [2])], sq_accepted := [(zero_addr, [2])]\<rparr>)" by (rule r_into_rtranclp)
  with send_queue_in_order [OF this] show ?thesis by (intro exI [of _ "(NewSendQueue 1)\<lparr>sq_todo := [(zero_addr, [2])], sq_accepted := [(zero_addr, [2])]\<rparr>"]) auto
qed

text \<open>
  Setting the size of a worker pool ends with exactly that many workers: the older workers are kept,
  new ones are started or the newest are stopped, newest first, and nothing else happens. Asking for a
  negative number stops every worker and then panics.
\<close>

theorem SetCount_exact:
  "SetCount n wp =
     (if n < 0 then None
      else let k = nat n; l = length (wp_workers wp)
        in if l \<le> k then Some (wp\<lparr>wp_workers := wp_workers wp @ [wp_next wp..<wp_next wp + (k - l)], wp_next := wp_next wp + (k - l)\<rparr>)
           else Some (wp\<lparr>wp_workers := take k (wp_workers wp), wp_stopped := wp_stopped wp @ rev (drop k (wp_workers wp))\<rparr>))"
  using SetCount_negative [of n wp] SetCount_up [OF refl, of wp "nat n - length (wp_workers wp)"]
    SetCount_down [of wp "take (nat n) (wp_workers wp)" "drop (nat n) (wp_workers wp)"]
  by (auto simp: Let_def)

text \<open>
  A service of a group runs again after every failure until the group is stopped; it also ends when its
  function returns nil, although the group has not been stopped.
\<close>

theorem service_restarts:
  assumes "\<forall>(err, ctxErr) \<in> set fails. err \<noteq> [] \<and> ctxErr = []"
  shows "sg_service (fails @ (err, ctxErr) # rest) =
     (if ctxErr \<noteq> [] \<or> err = [] then (Suc (length fails), True)
      else (case sg_service rest of (n, ended) \<Rightarrow> (Suc (length fails) + n, ended)))"
  using assms by (induction fails) (auto simp: errors_Is_def split: prod.splits list.splits)

theorem service_restarts_witness: "sg_service [([1 :: nat], []), ([2], []), ([], [])] = (3, True)"
  using service_restarts [of "[([1 :: nat], []), ([2], [])]" "[]" "[]" "[]"] by simp

text \<open>
  A datagram written to a packet connection arrives at the other one: over the memory service, writing
  reports the whole length, and the peer, whose queue is empty, then reads the datagram, cut to its
  buffer, with the writer's address as the source.
\<close>

theorem packet_conn_roundtrip:
  assumes "mem_wf c sp ks s" "ms_nodes s dst = Some d" "mem_LocalAddr c sp ks node = Some src" "queue_laws Q held"
    and "msg = \<lparr>m_Src = src, m_Dst = dst, m_Payload = data\<rparr>" "snd (q_deliver Q (ms_queues s ! mn_incoming d) msg)"
    and "held (ms_queues s ! mn_incoming d) = []"
  shows "\<exists>s' s''. WriteTo (mem_conn_send Q c sp ks node) pc data (Inet256Addr dst) s = (s', Ok (length data)) \<and>
     ReadFrom (mem_conn_receive Q d) pc' buf s' = Some (s'', Ok (gocopy buf data, min (length buf) (length data), Inet256Addr src))"
proof -
  let ?q = "fst (q_deliver Q (ms_queues s ! mn_incoming d) msg)"
  let ?s = "s\<lparr>ms_queues := (ms_queues s)[mn_incoming d := ?q]\<rparr>"
  have "mem_Send Q c sp ks node dst data s = Some ?s"
    using assms(2,3,5) by (simp add: mem_Send_def getNode_def case_prod_beta)
  then have "WriteTo (mem_conn_send Q c sp ks node) pc data (Inet256Addr dst) s = (?s, Ok (length data))"
    by (simp add: WriteTo_def mem_conn_send_def)
  moreover have "held ?q = [msg]" using assms(4,6,7) by (simp add: queue_laws_def)
  then obtain q' where "q_receive Q ?q = Some (q', Ok msg)" using assms(4) unfolding queue_laws_def by blast
  then have "\<exists>s''. mem_Receive Q d ?s = Some (s'', Ok msg)"
    using mem_wfD(2) [OF assms(1,2)] by (simp add: mem_Receive_def)
  then have "\<exists>s''. ReadFrom (mem_conn_receive Q d) pc' buf ?s = Some (s'', Ok (gocopy buf data, min (length buf) (length data), Inet256Addr src))"
    using assms(5) by (auto simp: ReadFrom_def mem_conn_receive_def)
  ultimately show ?thesis by blast
qed

theorem packet_conn_roundtrip_witness:
  "\<exists>s' s''. WriteTo (mem_conn_send sample_queues sample_circl sample_sponge default_tags \<lparr>mn_publicKey = BasePublic Ed25519 True, mn_incoming = 0\<rparr>)
       NewPacketConn [1, 2, 3] (Inet256Addr (sample_ID True)) sample_mem = (s', Ok 3) \<and>
     ReadFrom (mem_conn_receive sample_queues \<lparr>mn_publicKey = BasePublic Ed25519 True, mn_incoming = 0\<rparr>) NewPacketConn [0, 0] s' =
       Some (s'', Ok ([1, 2], 2, Inet256Addr (sample_ID True)))"
proof -
  let ?n = "\<lparr>mn_publicKey = BasePublic Ed25519 True, mn_incoming = 0\<rparr>"
  have wf: "mem_wf sample_circl sample_sponge default_tags sample_mem" by (rule mem_Open_wf [OF mem_New_wf sample_mem(1)])
  have n: "ms_nodes sample_mem (sample_ID True) = Some ?n" by (simp add: sample_mem(2))
  have q: "queue_laws sample_queues id" by (simp add: queue_laws_def sample_queues_def)
  have "ms_queues sample_mem ! mn_incoming ?n = []"
    by (simp add: sample_mem_def mem_Open_def sample_ID newMemNode_def mem_New_def sample_queues_def)
  moreover have "snd (q_deliver sample_queues [] msg)" for msg by (simp add: sample_queues_def)
  ultimately show ?thesis
    using packet_conn_roundtrip [OF wf n mem_wfD(1) [OF wf n] q refl, of "[1, 2, 3]" NewPacketConn NewPacketConn "[0, 0]"] by (simp add: gocopy_def eval_nat_numeral)
qed

end
