(* ===== verification/Balancer.thy ===== *)
theory Balancer
  imports Ident "HOL-Library.Multiset"
begin

text \<open>
  The stream load balancer, \<^verbatim>\<open>src/inet256lb\<close>: the texts that name backends (\<^verbatim>\<open>inet256lb.go\<close>) and the balancer that
  spreads connections over them (\<^verbatim>\<open>stream.go\<close>). Entries are pointers: a connection keeps its entry after the
  backend has been removed, so the balancer maps names to indices of a list of entries. The goroutines of
  the connections interleave freely; every atomic access is a step. Dialling and copying are I/O.
\<close>

section \<open>Endpoints\<close>

text \<open>\<^verbatim>\<open>strings.SplitN(s, sep, 2)\<close> for a separator that is not empty: the parts around its first occurrence.\<close>

fun SplitN2 :: "string \<Rightarrow> string \<Rightarrow> string list" where
  "SplitN2 [] sep = [[]]"
| "SplitN2 (c # cs) sep =
     (if prefix sep (c # cs) then [[], drop (length sep) (c # cs)]
      else case SplitN2 cs sep of [] \<Rightarrow> [] | p # ps \<Rightarrow> (c # p) # ps)"

datatype 'e lb_error = InvalidEndpoint | UnrecognizedScheme | TCPNotSupported | BadTarget 'e | BadAddress id_error | BackendExists | NoSuchBackend | NoBackends

definition parseEndpoint :: "string \<Rightarrow> ('e lb_error, string \<times> string) outcome" where
  "parseEndpoint x =
     (let parts = SplitN2 x ''://'';
          parts = (if length parts < 2 then SplitN2 x '':'' else parts)
      in if length parts < 2 then Err InvalidEndpoint else Ok (parts ! 0, parts ! 1))"

text \<open>What a backend text selects; \<open>parseAddrPort\<close> reads an IP address with a port.\<close>

datatype 'ap backend = UnixBackend string | TCPIPBackend 'ap | UTPBackend addr

definition MakeStreamBackend ::
  "(string \<Rightarrow> ('e, 'ap) outcome) \<Rightarrow> string \<Rightarrow> ('e lb_error, 'ap backend) outcome" where
  "MakeStreamBackend parseAddrPort x =
     obind (parseEndpoint x) (\<lambda>(scheme, rest).
       if scheme = ''unix'' then Ok (UnixBackend rest)
       else if scheme = ''tcp+ip'' then obind (err_map BadTarget (parseAddrPort rest)) (\<lambda>ap. Ok (TCPIPBackend ap))
       else if scheme \<in> {''tcp'', ''tcp+inet256''} then Err TCPNotSupported
       else if scheme \<in> {''utp'', ''utp+inet256''} then obind (err_map BadAddress (ParseAddrBase64 rest)) (\<lambda>raddr. Ok (UTPBackend raddr))
       else Err UnrecognizedScheme)"

section \<open>The balancer\<close>

record 'b bal_entry =
  be_active :: int
  be_backend :: 'b

text \<open>The map of a new balancer is nil, which reads as empty and is made by the first \<^verbatim>\<open>AddBackend\<close>.\<close>

record 'b balancer =
  lb_backends :: "string \<rightharpoonup> nat"
  lb_entries :: "'b bal_entry list"

definition NewStreamBalancer :: "'b balancer" where
  "NewStreamBalancer = \<lparr>lb_backends = Map.empty, lb_entries = []\<rparr>"

definition AddBackend :: "string \<Rightarrow> 'b \<Rightarrow> 'b balancer \<Rightarrow> (unit lb_error, 'b balancer) outcome" where
  "AddBackend k be b =
     (if lb_backends b k \<noteq> None then Err BackendExists
      else Ok (b\<lparr>lb_backends := (lb_backends b)(k \<mapsto> length (lb_entries b)), lb_entries := lb_entries b @ [\<lparr>be_active = 0, be_backend = be\<rparr>]\<rparr>))"

definition RemoveBackend :: "string \<Rightarrow> 'b balancer \<Rightarrow> (unit lb_error, 'b balancer) outcome" where
  "RemoveBackend k b =
     (if lb_backends b k = None then Err NoSuchBackend else Ok (b\<lparr>lb_backends := (lb_backends b)(k := None)\<rparr>))"

text \<open>The map is visited in the order \<open>ks\<close>.\<close>

fun pickBackend_loop :: "string list \<Rightarrow> 'b balancer \<Rightarrow> nat option \<Rightarrow> int \<Rightarrow> nat option" where
  "pickBackend_loop [] b best minActive = best"
| "pickBackend_loop (k # ks) b best minActive =
     (let e = the (lb_backends b k); active = be_active (lb_entries b ! e)
      in if best = None \<or> active < minActive then pickBackend_loop ks b (Some e) active else pickBackend_loop ks b best minActive)"

definition pickBackend :: "string list \<Rightarrow> 'b balancer \<Rightarrow> (unit lb_error, nat) outcome" where
  "pickBackend ks b =
     (if ks = [] then Err NoBackends
      else case pickBackend_loop ks b None 0 of Some e \<Rightarrow> Ok e | None \<Rightarrow> Panic)"

definition add_active :: "nat \<Rightarrow> int \<Rightarrow> 'b balancer \<Rightarrow> 'b balancer" where
  "add_active e n b = b\<lparr>lb_entries := (lb_entries b)[e := (lb_entries b ! e)\<lparr>be_active := be_active (lb_entries b ! e) + n\<rparr>]\<rparr>"

definition GetActiveCounts :: "string list \<Rightarrow> 'b balancer \<Rightarrow> (string \<rightharpoonup> int)" where
  "GetActiveCounts ks b = foldl (\<lambda>ret k. ret(k \<mapsto> be_active (lb_entries b ! the (lb_backends b k)))) Map.empty ks"

section \<open>Interleaved connections\<close>

text \<open>
  The goroutines of \<^verbatim>\<open>serveFrontendConn\<close>: one that has picked an entry, and one that has counted itself in and
  will count itself out when its stream or its dial has ended.
\<close>

datatype conn = Picked nat | Serving nat

record 'b lb_state =
  st_bal :: "'b balancer"
  st_conns :: "conn multiset"

inductive lb_step :: "'b lb_state \<Rightarrow> 'b lb_state \<Rightarrow> bool" where
  step_add: "AddBackend k be (st_bal s) = Ok b \<Longrightarrow> lb_step s (s\<lparr>st_bal := b\<rparr>)"
| step_remove: "RemoveBackend k (st_bal s) = Ok b \<Longrightarrow> lb_step s (s\<lparr>st_bal := b\<rparr>)"
| step_pick: "enumerates ks (lb_backends (st_bal s)) \<Longrightarrow> pickBackend ks (st_bal s) = Ok e \<Longrightarrow>
     lb_step s (s\<lparr>st_conns := st_conns s + {#Picked e#}\<rparr>)"
| step_start: "Picked e \<in># st_conns s \<Longrightarrow>
     lb_step s \<lparr>st_bal = add_active e 1 (st_bal s), st_conns = st_conns s - {#Picked e#} + {#Serving e#}\<rparr>"
| step_stop: "Serving e \<in># st_conns s \<Longrightarrow>
     lb_step s \<lparr>st_bal = add_active e (- 1) (st_bal s), st_conns = st_conns s - {#Serving e#}\<rparr>"

definition lb_reachable :: "'b lb_state \<Rightarrow> bool" where
  "lb_reachable s \<longleftrightarrow> lb_step\<^sup>*\<^sup>* \<lparr>st_bal = NewStreamBalancer, st_conns = {#}\<rparr> s"
section \<open>Invariant\<close>

text \<open>
  Every name and every goroutine has an entry, names have entries of their own, and the counter of an entry
  is the number of connections it serves.
\<close>

definition lb_inv :: "'b lb_state \<Rightarrow> bool" where
  "lb_inv s \<longleftrightarrow>
     (\<forall>k e. lb_backends (st_bal s) k = Some e \<longrightarrow> e < length (lb_entries (st_bal s))) \<and>
     (\<forall>e. Picked e \<in># st_conns s \<or> Serving e \<in># st_conns s \<longrightarrow> e < length (lb_entries (st_bal s))) \<and>
     (\<forall>k k' e. lb_backends (st_bal s) k = Some e \<and> lb_backends (st_bal s) k' = Some e \<longrightarrow> k = k') \<and>
     (\<forall>e < length (lb_entries (st_bal s)). be_active (lb_entries (st_bal s) ! e) = int (count (st_conns s) (Serving e)))"

lemma lb_invD:
  assumes "lb_inv s"
  shows "lb_backends (st_bal s) k = Some e \<Longrightarrow> e < length (lb_entries (st_bal s))"
    and "Picked e \<in># st_conns s \<or> Serving e \<in># st_conns s \<Longrightarrow> e < length (lb_entries (st_bal s))"
    and "e < length (lb_entries (st_bal s)) \<Longrightarrow> be_active (lb_entries (st_bal s) ! e) = int (count (st_conns s) (Serving e))"
  using assms by (auto simp: lb_inv_def)

text \<open>The loop of \<open>pickBackend\<close> returns an entry of the map with the least counter.\<close>

lemma pickBackend_loop_min:
  "best = Some e0 \<Longrightarrow> minActive = be_active (lb_entries b ! e0) \<Longrightarrow>
   \<exists>e. pickBackend_loop ks b best minActive = Some e \<and> (e = e0 \<or> e \<in> (the \<circ> lb_backends b) ` set ks) \<and>
     be_active (lb_entries b ! e) \<le> minActive \<and>
     (\<forall>k \<in> set ks. be_active (lb_entries b ! e) \<le> be_active (lb_entries b ! the (lb_backends b k)))"
proof (induction ks arbitrary: best minActive e0)
  case (Cons k ks)
  let ?e = "the (lb_backends b k)"
  show ?case
  proof (cases "be_active (lb_entries b ! ?e) < minActive")
    case True
    with Cons.IH [of "Some ?e" ?e "be_active (lb_entries b ! ?e)"] Cons.prems show ?thesis
      by (fastforce simp: Let_def)
  next
    case False
    with Cons.IH [OF Cons.prems] Cons.prems show ?thesis by (fastforce simp: Let_def)
  qed
qed simp

lemma pickBackend_min:
  assumes "enumerates ks (lb_backends b)" "ks \<noteq> []"
  shows "\<exists>e k. pickBackend ks b = Ok e \<and> lb_backends b k = Some e \<and>
     (\<forall>k' e'. lb_backends b k' = Some e' \<longrightarrow> be_active (lb_entries b ! e) \<le> be_active (lb_entries b ! e'))"
proof -
  obtain k ks' where ks: "ks = k # ks'" using assms(2) by (cases ks) auto
  let ?e = "the (lb_backends b k)"
  obtain e where e: "pickBackend_loop ks' b (Some ?e) (be_active (lb_entries b ! ?e)) = Some e"
      "e = ?e \<or> e \<in> (the \<circ> lb_backends b) ` set ks'" "be_active (lb_entries b ! e) \<le> be_active (lb_entries b ! ?e)"
      "\<forall>k \<in> set ks'. be_active (lb_entries b ! e) \<le> be_active (lb_entries b ! the (lb_backends b k))"
    using pickBackend_loop_min [OF refl refl, of ks' b ?e] by blast
  have "pickBackend ks b = Ok e" using e(1) by (simp add: pickBackend_def ks Let_def)
  moreover obtain k0 where "k0 \<in> set ks" "e = the (lb_backends b k0)" using e(2) by (auto simp: ks)
  then have "lb_backends b k0 = Some e" using enumerates_in_dom [OF assms(1), of k0] by auto
  moreover have "be_active (lb_entries b ! e) \<le> be_active (lb_entries b ! e')" if "lb_backends b k' = Some e'" for k' e'
  proof -
    have "k' \<in> set ks" using enumerates_in_dom [OF assms(1), of k'] that by auto
    then show ?thesis using e(3,4) that by (auto simp: ks)
  qed
  ultimately show ?thesis by blast
qed

lemma lb_inv_step:
  assumes "lb_step s s'" "lb_inv s"
  shows "lb_inv s'"
  using assms
proof cases
  case (step_add k be b)
  let ?n = "length (lb_entries (st_bal s))"
  have "lb_backends (st_bal s) k' \<noteq> Some ?n" "Picked ?n \<notin># st_conns s" "Serving ?n \<notin># st_conns s" for k'
    using lb_invD(1) [OF assms(2), of k' ?n] lb_invD(2) [OF assms(2), of ?n] by auto
  with step_add assms(2) show ?thesis
    by (auto simp: lb_inv_def AddBackend_def nth_append less_Suc_eq not_in_iff split: if_splits)
next
  case (step_remove k b)
  with assms(2) show ?thesis by (auto simp: lb_inv_def RemoveBackend_def split: if_splits)
next
  case (step_pick ks e)
  then have "ks \<noteq> []" by (auto simp: pickBackend_def)
  from pickBackend_min [OF step_pick(2) this] step_pick(3) obtain k where "lb_backends (st_bal s) k = Some e" by auto
  with step_pick assms(2) show ?thesis by (auto simp: lb_inv_def)
next
  case (step_start e)
  with assms(2) show ?thesis by (auto simp: lb_inv_def add_active_def nth_list_update dest: in_diffD)
next
  case (step_stop e)
  then have "0 < count (st_conns s) (Serving e)" by simp
  with step_stop assms(2) show ?thesis by (auto simp: lb_inv_def add_active_def nth_list_update of_nat_diff dest: in_diffD)
qed

lemma lb_inv_reachable: "lb_reachable s \<Longrightarrow> lb_inv s"
  unfolding lb_reachable_def
  by (induction rule: rtranclp_induct) (simp add: lb_inv_def NewStreamBalancer_def, rule lb_inv_step)

lemma GetActiveCounts_eq: "GetActiveCounts ks b k = (if k \<in> set ks then Some (be_active (lb_entries b ! the (lb_backends b k))) else None)"
proof -
  have "foldl (\<lambda>ret k. ret(k \<mapsto> f k)) m ks k = (if k \<in> set ks then Some (f k) else m k)" for f :: "string \<Rightarrow> int" and m
    by (induction ks arbitrary: m) auto
  then show ?thesis by (simp add: GetActiveCounts_def)
qed

lemma SplitN2_not_Nil: "SplitN2 x sep \<noteq> []"
  by (induction x) (auto split: list.splits)

lemma SplitN2_first:
  "\<lbrakk>sep \<noteq> []; \<forall>i < length a. \<not> prefix sep (drop i (a @ sep @ b))\<rbrakk> \<Longrightarrow> SplitN2 (a @ sep @ b) sep = [a, b]"
proof (induction a)
  case Nil
  then show ?case by (cases sep) auto
next
  case (Cons c a)
  have "\<not> prefix sep ((c # a) @ sep @ b)" using Cons.prems(2) by fastforce
  moreover have "\<forall>i < length a. \<not> prefix sep (drop i (a @ sep @ b))" using Cons.prems(2) by fastforce
  ultimately show ?case using Cons.IH [OF Cons.prems(1)] by simp
qed

lemma SplitN2_none: "\<not> sublist sep x \<Longrightarrow> SplitN2 x sep = [x]"
  by (induction x) (auto simp: sublist_Cons_right)

section \<open>Properties\<close>



text \<open>
  An endpoint is split at the first \<^verbatim>\<open>://\<close> or, if it has none, at its first colon: a scheme without a colon
  is read back in both notations, and a text is refused exactly if it has no colon.
\<close>

theorem parseEndpoint_splits:
  assumes "CHR '':'' \<notin> set scheme"
  shows "parseEndpoint (scheme @ ''://'' @ target) = (Ok (scheme, target) :: ('e lb_error, string \<times> string) outcome) \<and>
     (\<not> sublist ''://'' (scheme @ '':'' @ target) \<longrightarrow> parseEndpoint (scheme @ '':'' @ target) = (Ok (scheme, target) :: ('e lb_error, string \<times> string) outcome)) \<and>
     parseEndpoint scheme = (Err InvalidEndpoint :: ('e lb_error, string \<times> string) outcome)"
proof -
  have no: "\<not> prefix (CHR '':'' # p) (drop i (scheme @ r))" if "i < length scheme" for i p r
  proof -
    have "drop i (scheme @ r) = scheme ! i # drop (Suc i) (scheme @ r)" using that by (metis Cons_nth_drop_Suc length_append nth_append trans_less_add1)
    then show ?thesis using assms that by (metis Cons_prefix_Cons nth_mem)
  qed
  have "SplitN2 (scheme @ ''://'' @ target) ''://'' = [scheme, target]" "SplitN2 (scheme @ '':'' @ target) '':'' = [scheme, target]"
    by (rule SplitN2_first; use no in simp)+
  moreover have "\<not> sublist '':'' scheme" "\<not> sublist ''://'' scheme" using assms by (auto simp: sublist_def)
  ultimately show ?thesis by (simp add: parseEndpoint_def SplitN2_none)
qed

theorem parseEndpoint_splits_witness:
  "parseEndpoint ''tcp+ip://127.0.0.1:80'' = (Ok (''tcp+ip'', ''127.0.0.1:80'') :: (unit lb_error, string \<times> string) outcome)"
  using parseEndpoint_splits [of "''tcp+ip''" "''127.0.0.1:80''", THEN conjunct1] by simp

end
