(* ===== verification/Http.thy ===== *)
theory Http
  imports Services Json
begin

text \<open>
  The HTTP interface of a service, \<^verbatim>\<open>src/inet256http\<close>: the requests the client writes and what the server
  does with a request before it hands the connection to the IPC protocol. A request is its method,
  path and body; connections, status lines and the hijacking of the connection are I/O. The
  functions of \<^verbatim>\<open>path\<close> and \<^verbatim>\<open>strings\<close> that build and take apart the path are modelled.
\<close>

section \<open>Paths\<close>

text \<open>\<^verbatim>\<open>path.Clean\<close> on the elements of a path, keeping the result in reverse.\<close>

fun clean_elems :: "bool \<Rightarrow> string list \<Rightarrow> string list \<Rightarrow> string list" where
  "clean_elems rooted [] out = rev out"
| "clean_elems rooted (e # es) out =
     (if e = '''' \<or> e = ''.'' then clean_elems rooted es out
      else if e = ''..'' then
        (case out of
           [] \<Rightarrow> if rooted then clean_elems rooted es [] else clean_elems rooted es [''..'']
         | p # ps \<Rightarrow> if p = ''..'' then clean_elems rooted es (''..'' # out) else clean_elems rooted es ps)
      else clean_elems rooted es (e # out))"

definition path_Clean :: "string \<Rightarrow> string" where
  "path_Clean p =
     (let rooted = (case p of [] \<Rightarrow> False | ch # _ \<Rightarrow> ch = CHR ''/'');
          r = (if rooted then ''/'' else '''') @ strings_Join (clean_elems rooted (bytes_Split p CHR ''/'') []) ''/''
      in if r = '''' then ''.'' else r)"

definition path_Join :: "string list \<Rightarrow> string" where
  "path_Join elems =
     (case filter (\<lambda>e. e \<noteq> '''') elems of [] \<Rightarrow> '''' | es \<Rightarrow> path_Clean (strings_Join es ''/''))"

text \<open>\<^verbatim>\<open>strings.Trim\<close> with a set of one character.\<close>

definition strings_Trim :: "string \<Rightarrow> char \<Rightarrow> string" where
  "strings_Trim s c = rev (dropWhile (\<lambda>x. x = c) (rev (dropWhile (\<lambda>x. x = c) s)))"

section \<open>Requests\<close>

record http_request =
  rq_Method :: string
  rq_Path :: string
  rq_Body :: bytes

text \<open>\<^verbatim>\<open>OpenReq\<close> and \<^verbatim>\<open>DropReq\<close> have one field.\<close>

definition OpenReq_json :: "bytes \<Rightarrow> json" where
  "OpenReq_json k = JObj [(''private_key'', JBytes k)]"

definition OpenReq_fields :: "(string \<times> bytes decoder) list" where
  "OpenReq_fields = [(''private_key'', decode_bytes)]"

definition http_request_for ::
  "string \<Rightarrow> ('p, 's, 'r) circl \<Rightarrow> sponge \<Rightarrow> string list \<Rightarrow> 's private_key \<Rightarrow> http_request option" where
  "http_request_for meth c sp ks privKey =
     Option.bind (key_ID c sp ks privKey) (\<lambda>i.
     Option.bind (MarshalPrivateKey c ks [] privKey) (\<lambda>data.
     Some \<lparr>rq_Method = meth, rq_Path = path_Join [''/nodes/'', Base64String i], rq_Body = json_Marshal (OpenReq_json data)\<rparr>))"

definition http_client_Open :: "('p, 's, 'r) circl \<Rightarrow> sponge \<Rightarrow> string list \<Rightarrow> 's private_key \<Rightarrow> http_request option" where
  "http_client_Open c sp ks privKey = http_request_for ''CONNECT'' c sp ks privKey"

definition http_client_Drop :: "('p, 's, 'r) circl \<Rightarrow> sponge \<Rightarrow> string list \<Rightarrow> 's private_key \<Rightarrow> http_request option" where
  "http_client_Drop c sp ks privKey = http_request_for ''DELETE'' c sp ks privKey"

section \<open>The server\<close>

datatype open_error = BadPath id_error | BadBody json_error | BadPrivateKey pki_error | KeyMismatch

datatype 'e http_error = BadRequest open_error | OpenFailed 'e

text \<open>What \<^verbatim>\<open>handleOpen\<close> reads from a request before it opens the node.\<close>

definition open_key ::
  "('p, 's, 'r) circl \<Rightarrow> sponge \<Rightarrow> string list \<Rightarrow> http_request \<Rightarrow> (open_error, 's private_key) outcome" where
  "open_key c sp ks r =
     obind (err_map BadPath (ParseAddrBase64 (last (bytes_Split (strings_Trim (rq_Path r) CHR ''/'') CHR ''/'')))) (\<lambda>a.
     obind (err_map BadBody (json_Unmarshal (decode_struct OpenReq_fields) (rq_Body r) [])) (\<lambda>data.
     obind (err_map BadPrivateKey (ParsePrivateKey c data)) (\<lambda>privKey.
     obind (unwinds (key_ID c sp ks privKey)) (\<lambda>i.
       if i \<noteq> a then Err KeyMismatch else Ok privKey))))"

definition handleOpen ::
  "('p, 's, 'r) circl \<Rightarrow> sponge \<Rightarrow> string list \<Rightarrow> ('svc, 's private_key, 'h, 'e) service_ops \<Rightarrow> http_request \<Rightarrow> ('svc, 'h) rc_server \<Rightarrow>
   ('e http_error, ('svc, 'h) rc_server \<times> 'h) outcome" where
  "handleOpen c sp ks S r x = obind (err_map BadRequest (open_key c sp ks r)) (\<lambda>privKey. err_map OpenFailed (rc_Open S privKey x))"

text \<open>The result is the state, the status and the node to serve; \<open>None\<close> is a panic.\<close>

definition ServeHTTP ::
  "('p, 's, 'r) circl \<Rightarrow> sponge \<Rightarrow> string list \<Rightarrow> ('svc, 's private_key, 'h, 'e) service_ops \<Rightarrow> http_request \<Rightarrow> ('svc, 'h) rc_server \<Rightarrow>
   (('svc, 'h) rc_server \<times> nat \<times> 'h option) option" where
  "ServeHTTP c sp ks S r x =
     (if rq_Method r = ''CONNECT'' then
        (case handleOpen c sp ks S r x of
           Ok (x', node) \<Rightarrow> Some (x', 200, Some node)
         | Err e \<Rightarrow> Some (x, 500, None)
         | Panic \<Rightarrow> None)
      else if rq_Method r = ''DELETE'' then Some (x, 200, None)
      else Some (x, 400, None))"

text \<open>When the served connection ends, the deferred \<^verbatim>\<open>Close\<close> of the node runs.\<close>

definition serve_done :: "('svc, 'k, 'h, 'e) service_ops \<Rightarrow> 'h \<Rightarrow> ('svc, 'h) rc_server \<Rightarrow> ('svc, 'h) rc_server option" where
  "serve_done S node x = map_option fst (rc_Close S node x)"
section \<open>The path of a node\<close>

lemma Base64String_chars: "c \<in> set (Base64String a) \<Longrightarrow> c \<in> set Base64Alphabet"
  using enc_digits_less [of _ a] length_Base64Alphabet
  by (auto simp: Base64String_def MarshalText_def EncodeToString_def enc_char_def)

lemma alphabet_no_separators: "CHR ''/'' \<notin> set Base64Alphabet" "CHR ''.'' \<notin> set Base64Alphabet"
  by (simp_all add: Base64Alphabet_def)

lemma Base64String_nonempty: "is_addr a \<Longrightarrow> Base64String a \<noteq> ''''"
  by (cases a rule: enc_digits.cases) (auto simp: Base64String_def MarshalText_def EncodeToString_def is_addr_def AddrSize_def Let_def)

lemma node_path:
  assumes "is_addr a"
  shows "path_Join [''/nodes/'', Base64String a] = ''/nodes/'' @ Base64String a"
    and "last (bytes_Split (strings_Trim (''/nodes/'' @ Base64String a) CHR ''/'') CHR ''/'') = Base64String a"
proof -
  let ?t = "Base64String a"
  have t: "CHR ''/'' \<notin> set ?t" "CHR ''.'' \<notin> set ?t" "?t \<noteq> ''''"
    using Base64String_chars alphabet_no_separators Base64String_nonempty [OF assms] by blast+
  then have "?t \<noteq> ''.''" "?t \<noteq> ''..''" by auto
  moreover have "bytes_Split (''/nodes//'' @ ?t) CHR ''/'' = ['''', ''nodes'', '''', ?t]"
    using bytes_Split_no_sep [OF t(1)] by simp
  ultimately show "path_Join [''/nodes/'', ?t] = ''/nodes/'' @ ?t"
    using t(3) by (simp add: path_Join_def path_Clean_def Let_def)
  have "dropWhile (\<lambda>x. x = CHR ''/'') (rev ?t @ r) = rev ?t @ r" for r
    using t(1,3) by (cases "rev ?t") (auto dest: arg_cong [of "rev ?t" _ set])
  then have "strings_Trim (''/nodes/'' @ ?t) CHR ''/'' = ''nodes/'' @ ?t"
    by (simp add: strings_Trim_def)
  then show "last (bytes_Split (strings_Trim (''/nodes/'' @ ?t) CHR ''/'') CHR ''/'') = ?t"
    using bytes_Split_no_sep [OF t(1)] by simp
qed

lemma ParsePrivateKey_base:
  assumes "circl_marshals c" "enumerates ks (Schemes DefaultPKI)"
  obtains data where "MarshalPrivateKey c ks [] (BasePrivate a s) = Some data" "ParsePrivateKey c data = Ok (BasePrivate a s)"
proof -
  obtain bs where bs: "MarshalPrivateKey c ks [] (BasePrivate a s) = Some (writeTag [] (algo_tag a @ PrivateSuffix) @ bs)" "c_unmarshal_priv c a bs = Ok s"
    using MarshalPrivateKey_base [OF assms] by blast
  have "Schemes DefaultPKI (algo_tag a) = Some (BaseScheme a)" by (simp add: DefaultPKI_schemes)
  then have "ParsePrivateKey c (writeTag [] (algo_tag a @ PrivateSuffix) @ bs) = Ok (BasePrivate a s)"
    using readTag_writeTag [OF length_algo_tag(1), of a bs] bs(2)
    by (simp add: ParsePrivateKey_def pki_ParsePrivateKey_def)
  with bs(1) that show thesis by blast
qed

lemma open_key_client:
  assumes "circl_marshals c" "enumerates ks (Schemes DefaultPKI)" "key_ID c sp ks (BasePrivate a s) = Some i" "is_addr i"
  obtains req where "http_request_for m c sp ks (BasePrivate a s) = Some req" "rq_Method req = m" "open_key c sp ks req = Ok (BasePrivate a s)"
proof -
  obtain data where data: "MarshalPrivateKey c ks [] (BasePrivate a s) = Some data" "ParsePrivateKey c data = Ok (BasePrivate a s)"
    by (rule ParsePrivateKey_base [OF assms(1,2)])
  let ?req = "\<lparr>rq_Method = m, rq_Path = ''/nodes/'' @ Base64String i, rq_Body = json_Marshal (OpenReq_json data)\<rparr>"
  have "json_Unmarshal (decode_struct OpenReq_fields) (json_Marshal (OpenReq_json data)) [] = Ok data"
    by (simp add: json_simps OpenReq_json_def OpenReq_fields_def decode_struct_def field_decoder_def)
  moreover have "ParseAddrBase64 (Base64String i) = Ok i"
    using UnmarshalText_MarshalText [OF is_addr_zero assms(4)] by (simp add: ParseAddrBase64_def Base64String_def)
  ultimately have "open_key c sp ks ?req = Ok (BasePrivate a s)"
    using data(2) assms(3) node_path(2) [OF assms(4)] by (simp add: open_key_def)
  moreover have "http_request_for m c sp ks (BasePrivate a s) = Some ?req"
    using data(1) assms(3) by (simp add: http_request_for_def node_path(1) [OF assms(4)])
  ultimately show thesis using that by simp
qed

section \<open>Properties\<close>

text \<open>
  Opening a node over HTTP opens exactly the node of the caller's key: the request the client writes
  makes the server open that key, with status 200 and the node to serve, and 500 if the service
  refuses.
\<close>

theorem http_Open_transparent:
  assumes "circl_marshals c" "enumerates ks (Schemes DefaultPKI)" "key_ID c sp ks (BasePrivate a s) = Some i" "is_addr i"
  shows "\<exists>req. http_client_Open c sp ks (BasePrivate a s) = Some req \<and>
     ServeHTTP c sp ks S req x =
       (case rc_Open S (BasePrivate a s) x of Ok (x', node) \<Rightarrow> Some (x', 200, Some node) | Err e \<Rightarrow> Some (x, 500, None) | Panic \<Rightarrow> None)"
proof -
  obtain req where "http_request_for ''CONNECT'' c sp ks (BasePrivate a s) = Some req" "rq_Method req = ''CONNECT''" "open_key c sp ks req = Ok (BasePrivate a s)"
    by (rule open_key_client [OF assms])
  then show ?thesis
    by (cases "rc_Open S (BasePrivate a s) x") (auto simp: http_client_Open_def ServeHTTP_def handleOpen_def)
qed

abbreviation sample_mem_ops :: "((bool, message list) memService, bool private_key, bool memNode, svc_error) service_ops" where
  "sample_mem_ops \<equiv> mem_ops sample_queues sample_circl sample_sponge default_tags"

lemma sample_open:
  "rc_Open sample_mem_ops (BasePrivate Ed25519 True) (Wrap (mem_New [])) =
     Ok (\<lparr>rc_service = sample_mem, rc_nodes = [sample_ID True \<mapsto> (\<lparr>mn_publicKey = BasePublic Ed25519 True, mn_incoming = 0\<rparr>, 1)]\<rparr>,
         \<lparr>mn_publicKey = BasePublic Ed25519 True, mn_incoming = 0\<rparr>)"
  using sample_mem(1) by (simp add: rc_Open_def mem_ops_def sample_ID Wrap_def)

theorem http_Open_transparent_witness:
  "\<exists>req x'. http_client_Open sample_circl sample_sponge default_tags (BasePrivate Ed25519 True) = Some req \<and>
     ServeHTTP sample_circl sample_sponge default_tags sample_mem_ops req (Wrap (mem_New [])) =
       Some (x', 200, Some \<lparr>mn_publicKey = BasePublic Ed25519 True, mn_incoming = 0\<rparr>)"
  using http_Open_transparent [OF sample_circl_marshals default_tags_enumerates sample_ID is_addr_sample_ID, of sample_mem_ops "Wrap (mem_New [])"]
  unfolding sample_open outcome.case prod.case by blast



text \<open>
  \<^verbatim>\<open>Drop\<close> over HTTP does nothing: the server answers a \<^verbatim>\<open>DELETE\<close> with success and leaves the node as it is.
\<close>

theorem http_Drop_ignored:
  assumes "http_client_Drop c sp ks priv = Some req"
  shows "ServeHTTP c sp ks S req x = Some (x, 200, None)"
  using assms by (auto simp: http_client_Drop_def http_request_for_def ServeHTTP_def bind_eq_Some_conv)

theorem http_Drop_ignored_witness:
  "\<exists>req. http_client_Drop sample_circl sample_sponge default_tags (BasePrivate Ed25519 True) = Some req \<and>
     ServeHTTP sample_circl sample_sponge default_tags sample_mem_ops req (Wrap sample_mem) = Some (Wrap sample_mem, 200, None)"
proof -
  obtain req where "http_client_Drop sample_circl sample_sponge default_tags (BasePrivate Ed25519 True) = Some req"
    unfolding http_client_Drop_def by (rule open_key_client [OF sample_circl_marshals default_tags_enumerates sample_ID is_addr_sample_ID])
  with http_Drop_ignored [OF this] show ?thesis by blast
qed

end
