(* ===== verification/Landisco.thy ===== *)
theory Landisco
  imports Peers Json
begin

text \<open>
  Discovery on the local network, \<^verbatim>\<open>src/discovery/landisco\<close>: announcements encrypted under the address of
  their sender (\<^verbatim>\<open>message.go\<close>), the multicast bus (\<^verbatim>\<open>bus.go\<close>) and the service that feeds what it hears into
  the peer store (\<^verbatim>\<open>service.go\<close>). The cipher \<^verbatim>\<open>chacha20poly1305\<close> is the record \<open>aead\<close>; a timestamp is given by
  its binary form, a transport address by its text; sockets are lists of packets.
\<close>

section \<open>Messages\<close>

record aead =
  ae_Seal :: "bytes \<Rightarrow> bytes \<Rightarrow> bytes \<Rightarrow> bytes"
  ae_Open :: "bytes \<Rightarrow> bytes \<Rightarrow> bytes \<Rightarrow> bytes option"

datatype 'e ld_error = MessageTooShort | NotFromPeer | BadAdvertisement json_error | BadAddr 'e
  | InvalidPeriod | NoInterfaces | SocketError

record advertisement =
  adv_Transports :: "string list"
  adv_Solicit :: bool

definition MinMessageSize :: nat where "MinMessageSize = 12 + 16"

text \<open>\<open>now\<close> is the marshalled timestamp, copied into a nonce of 12 bytes.\<close>

definition NewMessage :: "aead \<Rightarrow> bytes \<Rightarrow> addr \<Rightarrow> bytes \<Rightarrow> bytes" where
  "NewMessage A now i payload = (let nonce = gocopy (replicate 12 0) now in nonce @ ae_Seal A i nonce payload)"

definition ld_ParseMessage :: "bytes \<Rightarrow> ('e ld_error, bytes) outcome" where
  "ld_ParseMessage x = (if length x < MinMessageSize then Err MessageTooShort else Ok x)"

definition GetTAI64N :: "(bytes \<Rightarrow> ('e ld_error, 't) outcome) \<Rightarrow> bytes \<Rightarrow> ('e ld_error, 't) outcome" where
  "GetTAI64N parseN m = obind (unwinds (goslice m 0 12)) parseN"

fun open_loop :: "aead \<Rightarrow> bytes \<Rightarrow> bytes \<Rightarrow> nat \<Rightarrow> addr list \<Rightarrow> (nat \<times> bytes) option" where
  "open_loop A nonce ctext n [] = None"
| "open_loop A nonce ctext n (i # ids) =
     (case ae_Open A i nonce ctext of Some ptext \<Rightarrow> Some (n, ptext) | None \<Rightarrow> open_loop A nonce ctext (n + 1) ids)"

text \<open>The index of the first address that opens the message; a message without a nonce panics.\<close>

definition msg_Open :: "aead \<Rightarrow> bytes \<Rightarrow> addr list \<Rightarrow> ('e ld_error, nat \<times> bytes) outcome" where
  "msg_Open A m ids =
     obind (unwinds (goslice m 0 12)) (\<lambda>nonce.
     obind (unwinds (goslice m 12 (length m))) (\<lambda>ctext.
       case open_loop A nonce ctext 0 ids of None \<Rightarrow> Err NotFromPeer | Some r \<Rightarrow> Ok r))"

section \<open>The bus\<close>

text \<open>A bus with sockets \<open>'c\<close> and subscribers \<open>'ch\<close>.\<close>

record ('c, 'ch) bus =
  bus_conns :: "'c list"
  bus_subs :: "'ch list"

definition NewBus :: "(string \<Rightarrow> 'c option) \<Rightarrow> string list \<Rightarrow> int \<Rightarrow> ('e ld_error, ('c, 'ch) bus) outcome" where
  "NewBus newUDPMulticast ifaces announcePeriod =
     (if announcePeriod \<le> 0 then Err InvalidPeriod
      else if length ifaces < 1 then Err NoInterfaces
      else obind (ofold (\<lambda>name conns. case newUDPMulticast name of None \<Rightarrow> Err SocketError | Some c \<Rightarrow> Ok (conns @ [c])) ifaces [])
             (\<lambda>conns. Ok \<lparr>bus_conns = conns, bus_subs = []\<rparr>))"

text \<open>What a broadcast writes, and whether any write failed; a failing socket does not stop the others.\<close>

definition Broadcast :: "('c \<Rightarrow> bytes \<Rightarrow> bool) \<Rightarrow> bytes \<Rightarrow> ('c, 'ch) bus \<Rightarrow> ('c \<times> bytes) list \<times> bool" where
  "Broadcast writeTo msg b =
     foldl (\<lambda>(out, ok) c. (out @ [(c, msg)], ok \<and> writeTo c msg)) ([], True) (bus_conns b)"

definition advertisement_json :: "advertisement \<Rightarrow> json" where
  "advertisement_json a =
     JObj [(''transports'', if adv_Transports a = [] then JNull else JArr (map JStr (adv_Transports a))), (''solicit'', JBool (adv_Solicit a))]"

definition advertisement_fields :: "(string \<times> advertisement decoder) list" where
  "advertisement_fields =
     [(''transports'', into adv_Transports (\<lambda>v a. a\<lparr>adv_Transports := v\<rparr>) (decode_list decode_string '''')),
      (''solicit'', into adv_Solicit (\<lambda>v a. a\<lparr>adv_Solicit := v\<rparr>) decode_bool)]"

text \<open>The message that announces addresses, given by their texts.\<close>

definition announcement :: "aead \<Rightarrow> bytes \<Rightarrow> addr \<Rightarrow> string list \<Rightarrow> bytes" where
  "announcement A now i addrs =
     NewMessage A now i (json_Marshal (advertisement_json \<lparr>adv_Transports = addrs, adv_Solicit = False\<rparr>))"

definition bus_Announce ::
  "aead \<Rightarrow> ('c \<Rightarrow> bytes \<Rightarrow> bool) \<Rightarrow> bytes \<Rightarrow> addr \<Rightarrow> string list \<Rightarrow> ('c, 'ch) bus \<Rightarrow> ('c \<times> bytes) list \<times> bool" where
  "bus_Announce A writeTo now i addrs b = Broadcast writeTo (announcement A now i addrs) b"

definition Subscribe :: "'ch \<Rightarrow> ('c, 'ch) bus \<Rightarrow> ('c, 'ch) bus" where
  "Subscribe ch b = b\<lparr>bus_subs := bus_subs b @ [ch]\<rparr>"

definition Unsubscribe :: "'ch \<Rightarrow> ('c, 'ch) bus \<Rightarrow> ('c, 'ch) bus" where
  "Unsubscribe ch b = b\<lparr>bus_subs := filter (\<lambda>x. x \<noteq> ch) (bus_subs b)\<rparr>"

text \<open>
  One packet of the read loop: every subscriber that is ready to receive gets the message. A packet that
  does not parse is logged, and the nil message goes to the subscribers.
\<close>

definition bus_packet :: "('ch \<Rightarrow> bool) \<Rightarrow> bytes \<Rightarrow> ('c, 'ch) bus \<Rightarrow> ('ch \<times> bytes) list" where
  "bus_packet ready buf b =
     (let msg = (case ld_ParseMessage buf :: (unit ld_error, bytes) outcome of Ok m \<Rightarrow> m | _ \<Rightarrow> [])
      in map (\<lambda>ch. (ch, msg)) (filter ready (bus_subs b)))"

section \<open>The service\<close>

text \<open>\<open>ps\<close> is the listing of the peer store, \<open>upd\<close> its \<^verbatim>\<open>Update\<close>; the result is the store and whether to answer.\<close>

definition ld_handleMessage ::
  "aead \<Rightarrow> ('st \<Rightarrow> addr \<Rightarrow> ('t info \<Rightarrow> 't info) \<Rightarrow> 'st) \<Rightarrow> (bytes \<Rightarrow> ('e, 't) outcome) \<Rightarrow> addr \<Rightarrow> addr list \<Rightarrow> bytes \<Rightarrow> 'st \<Rightarrow>
   ('e ld_error, 'st \<times> bool) outcome" where
  "ld_handleMessage A upd ap localID ps msg st =
     (case msg_Open A msg [localID] :: ('e ld_error, nat \<times> bytes) outcome of
        Panic \<Rightarrow> Panic
      | Ok _ \<Rightarrow> Ok (st, False)
      | Err _ \<Rightarrow>
          obind (msg_Open A msg ps) (\<lambda>(i, data).
          obind (err_map BadAdvertisement (json_Unmarshal (decode_struct advertisement_fields) data \<lparr>adv_Transports = [], adv_Solicit = False\<rparr>)) (\<lambda>adv.
          obind (err_map BadAddr (ParseAddrs ap (adv_Transports adv))) (\<lambda>addrs.
            Ok (SetAddrs upd st (ps ! i) addrs, adv_Solicit adv)))))"

text \<open>The read loop over the messages it receives; an error is logged.\<close>

fun ld_readLoop ::
  "aead \<Rightarrow> ('st \<Rightarrow> addr \<Rightarrow> ('t info \<Rightarrow> 't info) \<Rightarrow> 'st) \<Rightarrow> (bytes \<Rightarrow> ('e, 't) outcome) \<Rightarrow> addr \<Rightarrow> ('st \<Rightarrow> addr list) \<Rightarrow> bytes list \<Rightarrow> 'st \<Rightarrow> 'st option" where
  "ld_readLoop A upd ap localID list_peers [] st = Some st"
| "ld_readLoop A upd ap localID list_peers (msg # msgs) st =
     (case ld_handleMessage A upd ap localID (list_peers st) msg st of
        Ok (st', _) \<Rightarrow> ld_readLoop A upd ap localID list_peers msgs st'
      | Err _ \<Rightarrow> ld_readLoop A upd ap localID list_peers msgs st
      | Panic \<Rightarrow> None)"

text \<open>The announce loop, one announcement per tick, ends at the first error.\<close>

fun ld_announceLoop ::
  "aead \<Rightarrow> ('c \<Rightarrow> bytes \<Rightarrow> bool) \<Rightarrow> addr \<Rightarrow> (bytes \<times> string list) list \<Rightarrow> ('c, 'ch) bus \<Rightarrow> ('c \<times> bytes) list \<times> bool" where
  "ld_announceLoop A writeTo localID [] b = ([], True)"
| "ld_announceLoop A writeTo localID ((now, addrs) # ticks) b =
     (case bus_Announce A writeTo now localID addrs b of
        (out, False) \<Rightarrow> (out, False)
      | (out, True) \<Rightarrow> (case ld_announceLoop A writeTo localID ticks b of (out', ok) \<Rightarrow> (out @ out', ok)))"
section \<open>Reading announcements\<close>

text \<open>
  What the cipher promises: what was sealed under a key opens under it, and the tag makes a sealed text
  16 bytes longer. That a message opens under no other key can only hold of the keys in play,
  \<open>foreign_to\<close>: there are more keys than tags.
\<close>

definition aead_laws :: "aead \<Rightarrow> bool" where
  "aead_laws A \<longleftrightarrow> (\<forall>k n p. ae_Open A k n (ae_Seal A k n p) = Some p \<and> length (ae_Seal A k n p) = length p + 16)"

definition foreign_to :: "aead \<Rightarrow> addr \<Rightarrow> bytes \<Rightarrow> addr list \<Rightarrow> bool" where
  "foreign_to A i m ids \<longleftrightarrow> list_all (\<lambda>k. k = i \<or> ae_Open A k (take 12 m) (drop 12 m) = None) ids"

lemma advertisement_decode:
  "json_Unmarshal (decode_struct advertisement_fields) (json_Marshal (advertisement_json a)) z = Ok a"
proof -
  have "json_ok (advertisement_json a)" by (auto simp: advertisement_json_def list.pred_set)
  then show ?thesis
    by (auto simp: json_simps advertisement_json_def advertisement_fields_def decode_struct_def field_decoder_def into_def decode_list_def decode_elems_map)
qed

lemma open_loop_sealed:
  assumes "ae_Open A i n c = Some p"
  shows "i \<in> set ids \<Longrightarrow> list_all (\<lambda>k. k = i \<or> ae_Open A k n c = None) ids \<Longrightarrow>
    \<exists>k < length ids. ids ! k = i \<and> open_loop A n c j ids = Some (j + k, p)"
proof (induction ids arbitrary: j)
  case (Cons i' ids)
  show ?case
  proof (cases "i' = i")
    case True
    then show ?thesis using assms by (intro exI [of _ 0]) simp
  next
    case False
    then have "\<exists>k < length ids. ids ! k = i \<and> open_loop A n c (j + 1) ids = Some (j + 1 + k, p)"
      using Cons.IH [of "j + 1"] Cons.prems by simp
    then obtain k where "k < length ids" "ids ! k = i" "open_loop A n c (j + 1) ids = Some (j + 1 + k, p)" by blast
    with False Cons.prems show ?thesis by (intro exI [of _ "Suc k"]) simp
  qed
qed simp

lemma open_loop_foreign:
  "i \<notin> set ids \<Longrightarrow> list_all (\<lambda>k. k = i \<or> ae_Open A k n c = None) ids \<Longrightarrow> open_loop A n c j ids = None"
  by (induction ids arbitrary: j) auto

lemma msg_Open_long: "12 \<le> length m \<Longrightarrow> msg_Open A m ids = (case open_loop A (take 12 m) (drop 12 m) 0 ids of None \<Rightarrow> Err NotFromPeer | Some r \<Rightarrow> Ok r)"
  by (simp add: msg_Open_def goslice_def)

lemma NewMessage_opens:
  assumes "aead_laws A" "m = NewMessage A now i p"
  shows "MinMessageSize \<le> length m" "ae_Open A i (take 12 m) (drop 12 m) = Some p"
  using assms by (simp_all add: NewMessage_def Let_def MinMessageSize_def aead_laws_def)

lemma ld_handle_announcement:
  assumes "aead_laws A" "enumerates ks (ps_m (wrapped st))" "m = announcement A now i addrs" "ParseAddrs ap addrs = Ok ts"
    and "foreign_to A i m (localID # store_List ks (wrapped st))"
  shows "ld_handleMessage A fixed_Update ap localID (store_List ks (wrapped st)) m st =
      (if i = localID then Ok (st, False)
       else if fixed_Get st i = None then Err NotFromPeer
       else Ok (SetAddrs fixed_Update st i ts, False))"
proof -
  let ?d = "json_Marshal (advertisement_json \<lparr>adv_Transports = addrs, adv_Solicit = False\<rparr>)"
  let ?ps = "store_List ks (wrapped st)"
  note m = NewMessage_opens [OF assms(1) assms(3) [unfolded announcement_def]]
  then have open_m: "msg_Open A m ids = (case open_loop A (take 12 m) (drop 12 m) 0 ids of None \<Rightarrow> Err NotFromPeer | Some r \<Rightarrow> Ok r)" for ids
    by (simp add: msg_Open_long MinMessageSize_def)
  have ps: "i \<in> set ?ps \<longleftrightarrow> fixed_Get st i \<noteq> None"
    using store_List_enumerates [OF assms(2)] by (auto simp: fixed_Get_def ps.contains_get)
  have others: "list_all (\<lambda>k. k = i \<or> ae_Open A k (take 12 m) (drop 12 m) = None) ?ps"
    and self: "localID = i \<or> ae_Open A localID (take 12 m) (drop 12 m) = None"
    using assms(5) by (simp_all add: foreign_to_def)
  have "ld_handleMessage A fixed_Update ap localID ?ps m st = Ok (SetAddrs fixed_Update st i ts, False)"
    if "i \<noteq> localID" and "i \<in> set ?ps"
  proof -
    note in_ps = that(2)
    obtain k where "k < length ?ps" "?ps ! k = i" "open_loop A (take 12 m) (drop 12 m) 0 ?ps = Some (0 + k, ?d)"
      using open_loop_sealed [OF m(2) in_ps others] by blast
    with that self assms(4) show ?thesis by (simp add: ld_handleMessage_def open_m advertisement_decode)
  qed
  moreover have "ld_handleMessage A fixed_Update ap localID ?ps m st = Err NotFromPeer" if "i \<noteq> localID" and "i \<notin> set ?ps"
    using that self open_loop_foreign [OF that(2) others] by (simp add: ld_handleMessage_def open_m)
  ultimately show ?thesis
    using m ps by (auto simp: ld_handleMessage_def open_m)
qed

section \<open>Properties\<close>

text \<open>
  An announcement heard on the local network sets the addresses of the peer that sent it, and of
  nobody else: it passes the bus to every waiting subscriber, and handling it parses the announced
  texts into the sender's entry, if the sender is one of the listed peers. Otherwise it is refused,
  and the node's own announcements are ignored.
\<close>

theorem lan_announcement_heard:
  assumes "aead_laws A" "enumerates ks (ps_m (wrapped st))" "m = announcement A now i addrs" "ParseAddrs ap addrs = Ok ts"
    and "foreign_to A i m (localID # store_List ks (wrapped st))"
  shows "bus_packet ready m b = map (\<lambda>ch. (ch, m)) (filter ready (bus_subs b)) \<and>
    ld_handleMessage A fixed_Update ap localID (store_List ks (wrapped st)) m st =
      (if i = localID then Ok (st, False)
       else if fixed_Get st i = None then Err NotFromPeer
       else Ok (SetAddrs fixed_Update st i ts, False))"
  using NewMessage_opens(1) [OF assms(1) assms(3) [unfolded announcement_def]] ld_handle_announcement [OF assms]
  by (simp add: bus_packet_def ld_ParseMessage_def)

definition sample_aead :: aead where
  "sample_aead = \<lparr>ae_Seal = (\<lambda>k n p. p @ gocopy (replicate 16 0) k),
     ae_Open = (\<lambda>k n c. if drop (length c - 16) c = gocopy (replicate 16 0) k then Some (take (length c - 16) c) else None)\<rparr>"

lemma sample_aead_laws: "aead_laws sample_aead"
  by (auto simp: aead_laws_def sample_aead_def gocopy_def)

lemma sample_announcement_foreign:
  "foreign_to sample_aead zero_addr (announcement sample_aead [7] zero_addr [''a'']) (replicate 32 1 # store_List [zero_addr] s)"
  by (simp add: foreign_to_def announcement_def NewMessage_def Let_def sample_aead_def gocopy_def zero_addr_def AddrSize_def store_List_def eval_nat_numeral)

theorem lan_announcement_heard_witness:
  "let m = announcement sample_aead [7] zero_addr [''a''] in
     bus_packet (\<lambda>_. True) m \<lparr>bus_conns = [] :: unit list, bus_subs = [()]\<rparr> = [((), m)] \<and>
     ld_handleMessage sample_aead fixed_Update (Ok :: bytes \<Rightarrow> (unit, bytes) outcome) (replicate 32 1) [zero_addr] m sample_store
       = Ok (SetAddrs fixed_Update sample_store zero_addr [[97]], False)"
proof -
  let ?m = "announcement sample_aead [7] zero_addr [''a'']"
  have 1: "enumerates [zero_addr] (ps_m (wrapped sample_store))"
    by (simp add: enumerates_def sample_store_def DisableAddRemove_def store_Add_def NewStore_def)
  have 2: "ParseAddrs (Ok :: bytes \<Rightarrow> (unit, bytes) outcome) [''a''] = Ok [[97]]"
    by (simp add: ParseAddrs_def bytes_of_string_def)
  note 3 = sample_announcement_foreign
  have 4: "fixed_Get sample_store zero_addr \<noteq> None"
    by (simp add: fixed_Get_def store_Get_def sample_store_def DisableAddRemove_def store_Add_def NewStore_def)
  show ?thesis
    using lan_announcement_heard [OF sample_aead_laws 1 refl 2 3, of "\<lambda>_. True" "\<lparr>bus_conns = [] :: unit list, bus_subs = [()]\<rparr>"] 4
    by (simp add: Let_def store_List_def zero_addr_def AddrSize_def eval_nat_numeral)
qed

text \<open>
  C40: A short packet stops the daemon: any packet of fewer than 28 bytes reaches the waiting
  subscribers as an empty message, and handling it panics.
\<close>

theorem lan_short_packet_crashes:
  assumes "length buf < 28" "ch \<in> set (bus_subs b)" "ready ch"
  shows "(ch, []) \<in> set (bus_packet ready buf b) \<and> ld_readLoop A upd ap localID list_peers ([] # msgs) st = None"
  using assms by (auto simp: bus_packet_def ld_ParseMessage_def MinMessageSize_def ld_handleMessage_def msg_Open_def goslice_def)

theorem lan_short_packet_crashes_witness:
  "((), []) \<in> set (bus_packet (\<lambda>_. True) [1, 2, 3] \<lparr>bus_conns = [] :: unit list, bus_subs = [()]\<rparr>) \<and>
   ld_readLoop sample_aead fixed_Update (Ok :: bytes \<Rightarrow> (unit, bytes) outcome) zero_addr (\<lambda>_. []) [[]] sample_store = None"
  by (rule lan_short_packet_crashes) simp_all

end
