(* ===== verification/Centraldisco.thy ===== *)
theory Centraldisco
  imports Peers Services
begin

text \<open>
  Discovery through a directory server, \<^verbatim>\<open>src/discovery/centraldisco\<close>: the server's table of announcements
  (\<^verbatim>\<open>server.go\<close>) and the client that signs and reads them (\<^verbatim>\<open>client.go\<close>). The remote call is an argument of the
  client's operations; the protobuf encoding, the clock format and the signature algorithms are fields of
  the environment. The conversion of a time to live through floating point is done by the caller.
\<close>

section \<open>Messages\<close>

record announce =
  an_Endpoints :: "string list"
  an_Tai64 :: bytes
  an_TtlSeconds :: int

record announce_req =
  rq_PublicKey :: bytes
  rq_Announce :: bytes
  rq_Sig :: bytes

record lookup_res =
  rs_PublicKey :: bytes
  rs_Announce :: bytes
  rs_Sig :: bytes

datatype cd_error = UnreadableKey pki_error | InvalidSignature | UnreadableAnnounce | UnreadableTime
  | UnreadableEndpoint | OldTimestamp | TargetTooShort | NoAnnounce

text \<open>The scheme map is visited in the order \<open>cd_tags\<close>; times are in nanoseconds.\<close>

record ('p, 's, 'r) cd_env =
  cd_circl :: "('p, 's, 'r) circl"
  cd_sponge :: sponge
  cd_tags :: "string list"
  cd_Marshal :: "announce \<Rightarrow> bytes option"
  cd_Unmarshal :: "bytes \<Rightarrow> announce option"
  cd_ParseTime :: "bytes \<Rightarrow> int option"

definition purposeAnnounce :: "('p, 's, 'r) cd_env \<Rightarrow> bytes" where
  "purposeAnnounce E = SigCtxString (cd_sponge E) ''inet256/discovery/central/announce''"

definition cd_Verify :: "('p, 's, 'r) cd_env \<Rightarrow> 'p public_key \<Rightarrow> bytes \<Rightarrow> bytes \<Rightarrow> (cd_error, unit) outcome" where
  "cd_Verify E pubKey msg sig =
     obind (unwinds (pki_Verify (cd_circl E) (cd_sponge E) (Some (purposeAnnounce E)) pubKey msg sig))
       (\<lambda>ok. if ok then Ok () else Err InvalidSignature)"

section \<open>The server\<close>

record entry =
  en_Timestamp :: int
  en_TTL :: int
  en_PublicKey :: bytes
  en_Announce :: announce
  en_Sig :: bytes

type_synonym directory = "addr \<rightharpoonup> entry"

definition cd_NewServer :: directory where "cd_NewServer = Map.empty"

text \<open>The product \<^verbatim>\<open>time.Duration(x.TtlSeconds) * time.Second\<close> wraps at 64 bits.\<close>

definition ttl_duration :: "int \<Rightarrow> int" where
  "ttl_duration s = sint (word_of_int s * 1000000000 :: 64 word)"

definition server_Announce ::
  "('p, 's, 'r) cd_env \<Rightarrow> (bytes \<Rightarrow> ('e, 't) outcome) \<Rightarrow> announce_req \<Rightarrow> directory \<Rightarrow> (cd_error, directory) outcome" where
  "server_Announce E parser req m =
     obind (err_map UnreadableKey (ParsePublicKey (cd_circl E) (rq_PublicKey req))) (\<lambda>pubKey.
     obind (cd_Verify E pubKey (rq_Announce req) (rq_Sig req)) (\<lambda>_.
     case cd_Unmarshal E (rq_Announce req) of
       None \<Rightarrow> Err UnreadableAnnounce
     | Some x \<Rightarrow>
         (case cd_ParseTime E (an_Tai64 x) of
            None \<Rightarrow> Err UnreadableTime
          | Some timeNext \<Rightarrow>
              obind (err_map (\<lambda>_. UnreadableEndpoint) (ofold (\<lambda>endpoint _. obind (parser (bytes_of_string endpoint)) (\<lambda>_. Ok ())) (an_Endpoints x) ())) (\<lambda>_.
              obind (unwinds (NewID (cd_circl E) (cd_sponge E) (cd_tags E) pubKey)) (\<lambda>addr.
                if (case m addr of Some prev \<Rightarrow> \<not> en_Timestamp prev < timeNext | None \<Rightarrow> False) then Err OldTimestamp
                else Ok (m(addr \<mapsto> \<lparr>en_Timestamp = timeNext, en_TTL = ttl_duration (an_TtlSeconds x),
                                     en_PublicKey = rq_PublicKey req, en_Announce = x, en_Sig = rq_Sig req\<rparr>)))))))"

definition dir_get :: "directory \<Rightarrow> addr \<Rightarrow> entry option" where "dir_get m x = m x"

definition server_Lookup :: "('p, 's, 'r) cd_env \<Rightarrow> bytes \<Rightarrow> directory \<Rightarrow> (cd_error, lookup_res) outcome" where
  "server_Lookup E target m =
     (if length target < AddrSize then Err TargetTooShort
      else case dir_get m (IDFromBytes target) of
        None \<Rightarrow> Err NoAnnounce
      | Some x \<Rightarrow>
          obind (unwinds (cd_Marshal E (en_Announce x))) (\<lambda>announceBytes.
            Ok \<lparr>rs_PublicKey = en_PublicKey x, rs_Announce = announceBytes, rs_Sig = en_Sig x\<rparr>))"

section \<open>The client\<close>

text \<open>An error of \<^verbatim>\<open>proto.Marshal\<close> is ignored; the bytes are then nil.\<close>

definition announce_request ::
  "('p, 's, 'r) cd_env \<Rightarrow> 's private_key \<Rightarrow> string list \<Rightarrow> bytes \<Rightarrow> int \<Rightarrow> announce_req option" where
  "announce_request E privKey endpoints ts ttlSeconds =
     (let announceBytes = (case cd_Marshal E \<lparr>an_Endpoints = endpoints, an_Tai64 = ts, an_TtlSeconds = ttlSeconds\<rparr> of None \<Rightarrow> [] | Some b \<Rightarrow> b)
      in Option.bind (pki_Sign (cd_circl E) (cd_sponge E) (Some (purposeAnnounce E)) privKey announceBytes []) (\<lambda>sig.
         Option.bind (MarshalPublicKey (cd_circl E) (cd_tags E) [] (private_Public (cd_circl E) privKey)) (\<lambda>pubKeyBytes.
           Some \<lparr>rq_PublicKey = pubKeyBytes, rq_Announce = announceBytes, rq_Sig = sig\<rparr>)))"

definition client_Announce ::
  "('p, 's, 'r) cd_env \<Rightarrow> (announce_req \<Rightarrow> (cd_error, 'm) outcome) \<Rightarrow> 's private_key \<Rightarrow> string list \<Rightarrow> bytes \<Rightarrow> int \<Rightarrow> (cd_error, 'm) outcome" where
  "client_Announce E call privKey endpoints ts ttlSeconds = obind (unwinds (announce_request E privKey endpoints ts ttlSeconds)) call"

text \<open>A target without an announcement has no endpoints; it is not an error.\<close>

definition client_Lookup ::
  "('p, 's, 'r) cd_env \<Rightarrow> (bytes \<Rightarrow> (cd_error, lookup_res) outcome) \<Rightarrow> addr \<Rightarrow> (cd_error, string list) outcome" where
  "client_Lookup E call target =
     (case call target of
        Panic \<Rightarrow> Panic
      | Err NoAnnounce \<Rightarrow> Ok []
      | Err e \<Rightarrow> Err e
      | Ok res \<Rightarrow>
          obind (err_map UnreadableKey (ParsePublicKey (cd_circl E) (rs_PublicKey res))) (\<lambda>pubKey.
          obind (cd_Verify E pubKey (rs_Announce res) (rs_Sig res)) (\<lambda>_.
          case cd_Unmarshal E (rs_Announce res) of None \<Rightarrow> Err UnreadableAnnounce | Some x \<Rightarrow> Ok (an_Endpoints x))))"

text \<open>A run of the server over the requests it gets; a refused request leaves the table.\<close>

definition directory_step ::
  "('p, 's, 'r) cd_env \<Rightarrow> (bytes \<Rightarrow> ('e, 't) outcome) \<Rightarrow> directory \<Rightarrow> announce_req \<Rightarrow> directory" where
  "directory_step E parser m req = (case server_Announce E parser req m of Ok m' \<Rightarrow> m' | _ \<Rightarrow> m)"
section \<open>What the server admits\<close>

definition parseable :: "(bytes \<Rightarrow> ('e, 't) outcome) \<Rightarrow> string list \<Rightarrow> bool" where
  "parseable parser endpoints \<longleftrightarrow> list_all (\<lambda>e. \<exists>y. parser (bytes_of_string e) = Ok y) endpoints"

lemma endpoints_loop:
  "ofold (\<lambda>endpoint _. obind (parser (bytes_of_string endpoint)) (\<lambda>_. Ok ())) xs () = Ok () \<longleftrightarrow> parseable parser xs"
  by (induction xs) (auto simp: parseable_def outcome_simps)

lemma cd_Verify_Ok:
  "cd_Verify E pk msg sig = Ok () \<longleftrightarrow>
     pki_Verify (cd_circl E) (cd_sponge E) (Some (purposeAnnounce E)) pk msg sig = Some True"
  by (auto simp: cd_Verify_def outcome_simps split: option.splits)

text \<open>Exactly when a request is admitted, and what the table is then.\<close>

lemma server_Announce_Ok:
  "server_Announce E parser req m = Ok m' \<longleftrightarrow>
     (\<exists>pk x t i. ParsePublicKey (cd_circl E) (rq_PublicKey req) = Ok pk \<and> cd_Verify E pk (rq_Announce req) (rq_Sig req) = Ok () \<and>
       cd_Unmarshal E (rq_Announce req) = Some x \<and> cd_ParseTime E (an_Tai64 x) = Some t \<and> parseable parser (an_Endpoints x) \<and>
       NewID (cd_circl E) (cd_sponge E) (cd_tags E) pk = Some i \<and> (\<forall>prev. m i = Some prev \<longrightarrow> en_Timestamp prev < t) \<and>
       m' = m(i \<mapsto> \<lparr>en_Timestamp = t, en_TTL = ttl_duration (an_TtlSeconds x), en_PublicKey = rq_PublicKey req, en_Announce = x, en_Sig = rq_Sig req\<rparr>))"
  by (fastforce simp: server_Announce_def outcome_simps endpoints_loop [symmetric] split: option.splits if_splits)

lemma single_map_eq: "[i \<mapsto> x] = [j \<mapsto> y] \<longleftrightarrow> i = j \<and> x = y"
  by (metis map_upd_eqD1 map_upd_nonempty fun_upd_apply option.distinct(1))

lemma server_Announce_alone:
  "server_Announce E parser req m = Ok m' \<longleftrightarrow>
     (\<exists>i en. server_Announce E parser req cd_NewServer = Ok [i \<mapsto> en] \<and> (\<forall>prev. m i = Some prev \<longrightarrow> en_Timestamp prev < en_Timestamp en) \<and> m' = m(i \<mapsto> en))"
  unfolding server_Announce_Ok by (auto simp: cd_NewServer_def single_map_eq)

text \<open>The newest of the admissible requests for an address, in a table of any length.\<close>

definition newest :: "('p, 's, 'r) cd_env \<Rightarrow> (bytes \<Rightarrow> ('e, 't) outcome) \<Rightarrow> announce_req list \<Rightarrow> addr \<Rightarrow> entry option \<Rightarrow> bool" where
  "newest E parser reqs i r \<longleftrightarrow>
     (let offers = {en. \<exists>req \<in> set reqs. server_Announce E parser req cd_NewServer = Ok [i \<mapsto> en]}
      in case r of None \<Rightarrow> offers = {} | Some en \<Rightarrow> en \<in> offers \<and> (\<forall>en' \<in> offers. en_Timestamp en' \<le> en_Timestamp en))"

lemma newest_step:
  assumes "newest E parser reqs i (m i)"
  shows "newest E parser (reqs @ [req]) i (directory_step E parser m req i)"
proof (cases "\<exists>en. server_Announce E parser req cd_NewServer = Ok [i \<mapsto> en]")
  case True
  then obtain en where en: "server_Announce E parser req cd_NewServer = Ok [i \<mapsto> en]" ..
  have "server_Announce E parser req m = Ok m' \<longleftrightarrow> (\<forall>prev. m i = Some prev \<longrightarrow> en_Timestamp prev < en_Timestamp en) \<and> m' = m(i \<mapsto> en)" for m'
    using server_Announce_alone [of E parser req m m'] en by (simp add: single_map_eq)
  then have "directory_step E parser m req = (if \<forall>prev. m i = Some prev \<longrightarrow> en_Timestamp prev < en_Timestamp en then m(i \<mapsto> en) else m)"
    by (cases "server_Announce E parser req m") (auto simp: directory_step_def)
  with assms en show ?thesis
    by (cases "m i") (fastforce simp: newest_def single_map_eq)+
next
  case False
  then have "directory_step E parser m req i = m i"
    using server_Announce_alone [of E parser req m]
    by (auto simp: directory_step_def split: outcome.splits)
  with assms False show ?thesis by (auto simp: newest_def split: option.splits)
qed

lemma newest_run: "newest E parser reqs i (foldl (directory_step E parser) cd_NewServer reqs i)"
  by (induction reqs rule: rev_induct) (auto simp: newest_step newest_def [of _ _ "[]"] cd_NewServer_def)

text \<open>What the protobuf library promises of announcements: what it encodes it decodes, and what it decodes it encodes.\<close>

definition proto_laws :: "('p, 's, 'r) cd_env \<Rightarrow> bool" where
  "proto_laws E \<longleftrightarrow> (\<forall>x b. cd_Marshal E x = Some b \<longrightarrow> cd_Unmarshal E b = Some x) \<and> (\<forall>b x. cd_Unmarshal E b = Some x \<longrightarrow> cd_Marshal E x \<noteq> None)"

lemma cd_Verify_any: "cd_Verify E pk msg sig = cd_Verify E pk msg' sig"
  by (simp add: cd_Verify_def pki_Verify_def XOF_def)

lemma client_Lookup_entry:
  assumes "proto_laws E" "is_addr i" "m i = Some en" "cd_Unmarshal E b = Some (en_Announce en)"
    and "ParsePublicKey (cd_circl E) (en_PublicKey en) = Ok pk" "cd_Verify E pk b (en_Sig en) = Ok ()"
  shows "client_Lookup E (\<lambda>target. server_Lookup E target m) i = Ok (an_Endpoints (en_Announce en))"
proof -
  obtain b' where "cd_Marshal E (en_Announce en) = Some b'" "cd_Unmarshal E b' = Some (en_Announce en)"
    using assms(1,4) unfolding proto_laws_def by blast
  moreover have "cd_Verify E pk b' (en_Sig en) = Ok ()" using assms(6) cd_Verify_any by metis
  moreover have "\<not> length i < AddrSize" using assms(2) by (simp add: is_addr_def)
  ultimately show ?thesis
    using assms(3,5) by (simp add: client_Lookup_def server_Lookup_def dir_get_def IDFromBytes_addr [OF assms(2)])
qed

lemma client_Lookup_other:
  "is_addr j \<Longrightarrow> m' j = m j \<Longrightarrow> client_Lookup E (\<lambda>t. server_Lookup E t m') j = client_Lookup E (\<lambda>t. server_Lookup E t m) j"
  by (simp add: client_Lookup_def server_Lookup_def dir_get_def IDFromBytes_addr)

lemma announce_accepted:
  assumes "circl_marshals (cd_circl E)" "enumerates (cd_tags E) (Schemes DefaultPKI)" "proto_laws E"
    and "\<forall>a s m. c_verify (cd_circl E) a (c_public (cd_circl E) a s) m (c_sign (cd_circl E) a s m)"
    and "key_ID (cd_circl E) (cd_sponge E) (cd_tags E) (BasePrivate a s) = Some i"
    and "cd_Marshal E \<lparr>an_Endpoints = endpoints, an_Tai64 = ts, an_TtlSeconds = ttl\<rparr> = Some b" "cd_ParseTime E ts = Some t"
    and "parseable parser endpoints" "\<forall>prev. m i = Some prev \<longrightarrow> en_Timestamp prev < t"
  shows "\<exists>req en pk. announce_request E (BasePrivate a s) endpoints ts ttl = Some req \<and> server_Announce E parser req m = Ok (m(i \<mapsto> en)) \<and>
     en_Announce en = \<lparr>an_Endpoints = endpoints, an_Tai64 = ts, an_TtlSeconds = ttl\<rparr> \<and> en_Timestamp en = t \<and>
     ParsePublicKey (cd_circl E) (en_PublicKey en) = Ok pk \<and> cd_Verify E pk b (en_Sig en) = Ok ()"
proof -
  let ?c = "cd_circl E" and ?x = "\<lparr>an_Endpoints = endpoints, an_Tai64 = ts, an_TtlSeconds = ttl\<rparr>"
  let ?pk = "private_Public ?c (BasePrivate a s)"
  obtain pub where "MarshalPublicKey ?c (cd_tags E) [] ?pk = Some pub"
    using MarshalPublicKey_base [OF assms(1,2)] by fastforce
  note pub = this ParsePublicKey_of_marshalled [OF assms(1) this]
  obtain sig where sig: "pki_Sign ?c (cd_sponge E) (Some (purposeAnnounce E)) (BasePrivate a s) b [] = Some sig" "cd_Verify E ?pk b sig = Ok ()"
    using assms(4) by (simp add: cd_Verify_Ok pki_Sign_def pki_Verify_def)
  let ?req = "\<lparr>rq_PublicKey = pub, rq_Announce = b, rq_Sig = sig\<rparr>"
  let ?en = "\<lparr>en_Timestamp = t, en_TTL = ttl_duration ttl, en_PublicKey = pub, en_Announce = ?x, en_Sig = sig\<rparr>"
  have x: "cd_Unmarshal E b = Some ?x" using assms(3,6) by (simp add: proto_laws_def)
  have "server_Announce E parser ?req m = Ok (m(i \<mapsto> ?en))"
    unfolding server_Announce_Ok using pub sig x assms(5,7,8,9)
    by (intro exI [of _ ?pk] exI [of _ ?x] exI [of _ t] exI [of _ i]) (simp add: key_ID_def)
  moreover have "announce_request E (BasePrivate a s) endpoints ts ttl = Some ?req"
    using assms(6) sig(1) pub(1) by (simp add: announce_request_def Let_def)
  ultimately show ?thesis
    using pub(2) sig(2) by (intro exI [of _ ?req] exI [of _ ?en] exI [of _ ?pk]) simp
qed

text \<open>An instance of the environment with two announcements, on which the hypotheses can be evaluated.\<close>

definition sample_announce :: "bool \<Rightarrow> announce" where
  "sample_announce k = \<lparr>an_Endpoints = [if k then ''a'' else ''b''], an_Tai64 = [if k then 1 else 2], an_TtlSeconds = 60\<rparr>"

definition sample_cd :: "(bool, bool, nat) cd_env" where
  "sample_cd = \<lparr>cd_circl = sample_circl, cd_sponge = sample_sponge, cd_tags = default_tags,
     cd_Marshal = (\<lambda>x. if x = sample_announce True then Some [1] else if x = sample_announce False then Some [2] else None),
     cd_Unmarshal = (\<lambda>b. if b = [1] then Some (sample_announce True) else if b = [2] then Some (sample_announce False) else None),
     cd_ParseTime = (\<lambda>b. case b of [w] \<Rightarrow> Some (uint w) | _ \<Rightarrow> None)\<rparr>"

definition sample_request :: announce_req where
  "sample_request = the (announce_request sample_cd (BasePrivate Ed25519 True) [''a''] [1] 60)"

definition sample_parser :: "bytes \<Rightarrow> (unit, bytes) outcome" where "sample_parser = Ok"

lemma sample_circl_verifies: "c_verify sample_circl a (c_public sample_circl a s) m (c_sign sample_circl a s m)"
  by (simp add: sample_circl_def)

lemma sample_cd_ok:
  "circl_marshals (cd_circl sample_cd)" "enumerates (cd_tags sample_cd) (Schemes DefaultPKI)" "proto_laws sample_cd"
  "\<forall>a s m. c_verify (cd_circl sample_cd) a (c_public (cd_circl sample_cd) a s) m (c_sign (cd_circl sample_cd) a s m)"
  "key_ID (cd_circl sample_cd) (cd_sponge sample_cd) (cd_tags sample_cd) (BasePrivate Ed25519 k) = Some (sample_ID k)"
  "cd_Marshal sample_cd \<lparr>an_Endpoints = [''a''], an_Tai64 = [1], an_TtlSeconds = 60\<rparr> = Some [1]" "cd_ParseTime sample_cd [1] = Some 1"
  "parseable sample_parser xs"
  using sample_ID [of k] sample_circl_verifies
  by (auto simp: sample_cd_def sample_circl_marshals default_tags_enumerates sample_announce_def sample_parser_def parseable_def proto_laws_def list.pred_set split: if_splits)

lemma sample_directory:
  "\<exists>en. foldl (directory_step sample_cd sample_parser) cd_NewServer [sample_request] (sample_ID True) = Some en \<and> en_Timestamp en = 1"
proof -
  obtain req en pk where "announce_request sample_cd (BasePrivate Ed25519 True) [''a''] [1] 60 = Some req" "en_Timestamp en = 1"
      "server_Announce sample_cd sample_parser req cd_NewServer = Ok (cd_NewServer(sample_ID True \<mapsto> en))"
    using announce_accepted [OF sample_cd_ok(1-4) sample_cd_ok(5) [of True] sample_cd_ok(6-8), of cd_NewServer] by (auto simp: cd_NewServer_def)
  then show ?thesis by (simp add: sample_request_def directory_step_def)
qed

section \<open>Properties\<close>

text \<open>
  C11: What a client announces is what clients find: a signed announcement that is newer than the
  directory's entry is accepted, looking the announcer's address up then gives exactly the announced
  endpoints, and every other address gives what it gave before.
\<close>

theorem announce_then_lookup:
  assumes "circl_marshals (cd_circl E)" "enumerates (cd_tags E) (Schemes DefaultPKI)" "proto_laws E"
    and "\<forall>a s m. c_verify (cd_circl E) a (c_public (cd_circl E) a s) m (c_sign (cd_circl E) a s m)"
    and "key_ID (cd_circl E) (cd_sponge E) (cd_tags E) (BasePrivate a s) = Some i" "is_addr i"
    and "cd_Marshal E \<lparr>an_Endpoints = endpoints, an_Tai64 = ts, an_TtlSeconds = ttl\<rparr> = Some b" "cd_ParseTime E ts = Some t"
    and "parseable parser endpoints" "\<forall>prev. m i = Some prev \<longrightarrow> en_Timestamp prev < t"
  shows "\<exists>m'. client_Announce E (\<lambda>req. server_Announce E parser req m) (BasePrivate a s) endpoints ts ttl = Ok m' \<and>
     client_Lookup E (\<lambda>target. server_Lookup E target m') i = Ok endpoints \<and>
     (\<forall>j. is_addr j \<and> j \<noteq> i \<longrightarrow>
        client_Lookup E (\<lambda>target. server_Lookup E target m') j = client_Lookup E (\<lambda>target. server_Lookup E target m) j)"
proof -
  let ?x = "\<lparr>an_Endpoints = endpoints, an_Tai64 = ts, an_TtlSeconds = ttl\<rparr>"
  obtain req en pk where r: "announce_request E (BasePrivate a s) endpoints ts ttl = Some req"
      "server_Announce E parser req m = Ok (m(i \<mapsto> en))" "en_Announce en = ?x"
    and pk: "ParsePublicKey (cd_circl E) (en_PublicKey en) = Ok pk" "cd_Verify E pk b (en_Sig en) = Ok ()"
    using announce_accepted [of E a s i endpoints ts ttl b t parser m, OF assms(1-5,7-10)] by blast
  have x: "cd_Unmarshal E b = Some ?x" using assms(3,7) by (simp add: proto_laws_def)
  have "client_Announce E (\<lambda>req. server_Announce E parser req m) (BasePrivate a s) endpoints ts ttl = Ok (m(i \<mapsto> en))"
    using r by (simp add: client_Announce_def)
  moreover have "client_Lookup E (\<lambda>target. server_Lookup E target (m(i \<mapsto> en))) i = Ok endpoints"
    using client_Lookup_entry [OF assms(3,6), of "m(i \<mapsto> en)" en b pk] x r(3) pk by simp
  ultimately show ?thesis by (auto intro!: client_Lookup_other)
qed

theorem announce_then_lookup_witness:
  "\<exists>m'. client_Announce sample_cd (\<lambda>req. server_Announce sample_cd sample_parser req cd_NewServer) (BasePrivate Ed25519 True) [''a''] [1] 60 = Ok m' \<and>
     client_Lookup sample_cd (\<lambda>target. server_Lookup sample_cd target m') (sample_ID True) = Ok [''a'']"
  using announce_then_lookup [OF sample_cd_ok(1-5) is_addr_sample_ID sample_cd_ok(6-8), of cd_NewServer]
  by (auto simp: cd_NewServer_def)

text \<open>
  C12: The directory holds, for every address, the newest announcement that was made for it: after any
  sequence of requests an address has an entry exactly if one of the requests is admissible on its own
  for that address, and the entry is one of those with the latest timestamp.
\<close>

theorem directory_holds_newest:
  "newest E parser reqs i (foldl (directory_step E parser) cd_NewServer reqs i)"
  by (rule newest_run)

text \<open>
  Every entry belongs to its address: after any sequence of requests, the public key of an entry
  parses and hashes to the address it is filed under, the stored signature is valid for that key and
  every endpoint parses.
\<close>

theorem directory_entries_authentic:
  assumes "foldl (directory_step E parser) cd_NewServer reqs i = Some en"
  shows "\<exists>pk. ParsePublicKey (cd_circl E) (en_PublicKey en) = Ok pk \<and> NewID (cd_circl E) (cd_sponge E) (cd_tags E) pk = Some i \<and>
     (\<exists>b. cd_Unmarshal E b = Some (en_Announce en) \<and> cd_Verify E pk b (en_Sig en) = Ok ()) \<and> parseable parser (an_Endpoints (en_Announce en)) \<and>
     cd_ParseTime E (an_Tai64 (en_Announce en)) = Some (en_Timestamp en)"
proof -
  obtain req where "server_Announce E parser req cd_NewServer = Ok [i \<mapsto> en]"
    using newest_run [of E parser reqs i] assms by (auto simp: newest_def)
  then show ?thesis unfolding server_Announce_Ok by (auto simp: cd_NewServer_def single_map_eq)
qed

theorem directory_entries_authentic_witness:
  "\<exists>en pk. foldl (directory_step sample_cd sample_parser) cd_NewServer [sample_request] (sample_ID True) = Some en \<and>
     ParsePublicKey sample_circl (en_PublicKey en) = Ok pk \<and> NewID sample_circl sample_sponge default_tags pk = Some (sample_ID True)"
proof -
  obtain en where en: "foldl (directory_step sample_cd sample_parser) cd_NewServer [sample_request] (sample_ID True) = Some en"
    using sample_directory by blast
  from directory_entries_authentic [OF en] en show ?thesis by (auto simp: sample_cd_def)
qed

text \<open>
  C38: One lookup is enough to take over an address: with the key and the signature of the answer
  anyone can announce endpoints of their own under a later time, the server accepts them, and lookups
  then lead to them. The signature is valid for every announcement of the key.
\<close>

theorem lookup_lets_anyone_replace:
  assumes "proto_laws E" "is_addr i" "m = foldl (directory_step E parser) cd_NewServer reqs" "m i = Some en"
    and "cd_Marshal E x = Some b" "cd_ParseTime E (an_Tai64 x) = Some t" "en_Timestamp en < t" "parseable parser (an_Endpoints x)"
  shows "\<exists>res m'. server_Lookup E i m = Ok res \<and>
     server_Announce E parser \<lparr>rq_PublicKey = rs_PublicKey res, rq_Announce = b, rq_Sig = rs_Sig res\<rparr> m = Ok m' \<and>
     client_Lookup E (\<lambda>target. server_Lookup E target m') i = Ok (an_Endpoints x)"
proof -
  obtain req where "server_Announce E parser req cd_NewServer = Ok [i \<mapsto> en]"
    using newest_run [of E parser reqs i] assms(3,4) by (auto simp: newest_def)
  then obtain pk where pk: "ParsePublicKey (cd_circl E) (en_PublicKey en) = Ok pk" "NewID (cd_circl E) (cd_sponge E) (cd_tags E) pk = Some i"
    and "cd_Verify E pk (rq_Announce req) (en_Sig en) = Ok ()" "cd_Unmarshal E (rq_Announce req) = Some (en_Announce en)"
    unfolding server_Announce_Ok by (auto simp: cd_NewServer_def single_map_eq)
  then obtain b' where sig: "cd_Verify E pk b (en_Sig en) = Ok ()" and b': "cd_Marshal E (en_Announce en) = Some b'"
    using assms(1) cd_Verify_any unfolding proto_laws_def by (metis option.exhaust)
  have x: "cd_Unmarshal E b = Some x" using assms(1,5) by (simp add: proto_laws_def)
  let ?en = "\<lparr>en_Timestamp = t, en_TTL = ttl_duration (an_TtlSeconds x), en_PublicKey = en_PublicKey en, en_Announce = x, en_Sig = en_Sig en\<rparr>"
  have "server_Lookup E i m = Ok \<lparr>rs_PublicKey = en_PublicKey en, rs_Announce = b', rs_Sig = en_Sig en\<rparr>"
    using assms(2,4) b' by (simp add: server_Lookup_def dir_get_def IDFromBytes_addr is_addr_def)
  moreover have "server_Announce E parser \<lparr>rq_PublicKey = en_PublicKey en, rq_Announce = b, rq_Sig = en_Sig en\<rparr> m = Ok (m(i \<mapsto> ?en))"
    unfolding server_Announce_Ok using pk sig x assms(4,6-8) by (intro exI [of _ pk] exI [of _ x] exI [of _ t] exI [of _ i]) simp
  moreover have "client_Lookup E (\<lambda>target. server_Lookup E target (m(i \<mapsto> ?en))) i = Ok (an_Endpoints x)"
    using client_Lookup_entry [OF assms(1,2), of "m(i \<mapsto> ?en)" ?en b pk] x pk(1) sig by simp
  ultimately show ?thesis by (metis lookup_res.select_convs(1,3))
qed

theorem lookup_lets_anyone_replace_witness:
  "\<exists>res m'. let m = foldl (directory_step sample_cd sample_parser) cd_NewServer [sample_request] in
     server_Lookup sample_cd (sample_ID True) m = Ok res \<and>
     server_Announce sample_cd sample_parser \<lparr>rq_PublicKey = rs_PublicKey res, rq_Announce = [2], rq_Sig = rs_Sig res\<rparr> m = Ok m' \<and>
     client_Lookup sample_cd (\<lambda>target. server_Lookup sample_cd target m') (sample_ID True) = Ok [''b'']"
proof -
  obtain en where en: "foldl (directory_step sample_cd sample_parser) cd_NewServer [sample_request] (sample_ID True) = Some en" "en_Timestamp en = 1"
    using sample_directory by blast
  have "cd_Marshal sample_cd (sample_announce False) = Some [2]" "cd_ParseTime sample_cd (an_Tai64 (sample_announce False)) = Some 2"
    by (simp_all add: sample_cd_def sample_announce_def)
  from lookup_lets_anyone_replace [OF sample_cd_ok(3) is_addr_sample_ID refl en(1) this _ sample_cd_ok(8)] en(2)
  show ?thesis by (simp add: sample_announce_def Let_def)
qed

end
