(* ===== verification/Daemon.thy ===== *)
theory Daemon
  imports Mesh Http Landisco Centraldisco
begin

text \<open>
  The daemon, \<^verbatim>\<open>src/inet256d\<close>: from a configuration to the parameters of a server (\<^verbatim>\<open>config.go\<close>), and the peer
  stores that join the configured peers with what discovery services find (\<^verbatim>\<open>daemon.go\<close>, \<^verbatim>\<open>discovery.go\<close>).
  Files, UDP sockets, gRPC connections and the address texts of the transports are the fields of \<open>host\<close>;
  the YAML form of a configuration, the HTTP listener and the metrics are not modelled.
\<close>

section \<open>Configuration\<close>

record peer_spec =
  spec_ID :: addr
  spec_Addrs :: "string list"

record network_spec =
  spec_BeaconNet :: "unit option"
  spec_OneHop :: "unit option"

record transport_spec =
  spec_UDP :: "string option"
  spec_Ethernet :: "string option"

record local_spec =
  spec_Interfaces :: "string list"
  spec_AnnouncePeriod :: int

record central_spec =
  spec_Endpoint :: string
  spec_Period :: int

record discovery_spec =
  spec_AutoPeering :: bool
  spec_Local :: "local_spec option"
  spec_Central :: "central_spec option"

record config =
  PrivateKeyPath :: string
  APIEndpoint :: string
  cfg_Network :: network_spec
  cfg_Transports :: "transport_spec list"
  cfg_Peers :: "peer_spec list"
  cfg_Discovery :: "discovery_spec list"

text \<open>Durations are in nanoseconds.\<close>

definition GetAnnouncePeriod :: "local_spec \<Rightarrow> int" where
  "GetAnnouncePeriod s = (if 0 < spec_AnnouncePeriod s then spec_AnnouncePeriod s else 15 * 1000000000)"

definition GetPeriod :: "central_spec \<Rightarrow> int" where
  "GetPeriod s = (if 0 < spec_Period s then spec_Period s else 15 * 1000000000)"

definition DefaultAPIEndpoint :: string where "DefaultAPIEndpoint = ''unix:///run/inet256.sock''"

definition GetAPIAddr :: "config \<Rightarrow> string" where
  "GetAPIAddr c = (if APIEndpoint c = '''' then DefaultAPIEndpoint else APIEndpoint c)"

definition DefaultNetwork :: network_spec where
  "DefaultNetwork = \<lparr>spec_BeaconNet = Some (), spec_OneHop = None\<rparr>"

definition DefaultConfig :: config where
  "DefaultConfig = \<lparr>PrivateKeyPath = ''./private_key'', APIEndpoint = DefaultAPIEndpoint, cfg_Network = DefaultNetwork,
     cfg_Transports = [\<lparr>spec_UDP = Some ''0.0.0.0:0'', spec_Ethernet = None\<rparr>], cfg_Peers = [], cfg_Discovery = []\<rparr>"

text \<open>The field names of \<^verbatim>\<open>NetworkSpec\<close> in lower case, sorted.\<close>

definition ListNetworks :: "string list" where "ListNetworks = [''beaconnet'', ''onehop'']"

section \<open>Making the parameters\<close>

text \<open>\<open>'sw\<close> are transport swarms, \<open>'t\<close> their addresses, \<open>'g\<close> connections to a directory.\<close>

record ('e, 'sw, 't, 'g) host =
  h_ReadFile :: "string \<Rightarrow> ('e, bytes) outcome"
  h_udpNew :: "string \<Rightarrow> ('e, 'sw) outcome"
  h_Dial :: "string \<Rightarrow> bool \<Rightarrow> ('e, 'g) outcome"
  h_secure :: "'sw \<Rightarrow> 'sw option"
  h_secureParser :: "'sw \<Rightarrow> 'sw"
  h_order :: "(string \<rightharpoonup> 'sw) \<Rightarrow> string list"
  h_ParseAddr :: "(string \<rightharpoonup> 'sw) \<Rightarrow> bytes \<Rightarrow> ('e, 't) outcome"

datatype 'e daemon_error = HostError 'e | UnreadablePrivateKey pki_error | EthernetNotImplemented | EmptyTransport | EmptyNetwork | EmptyDiscovery

datatype network_factory = BeaconFactory

datatype 'g disc_service = LanDisco "string list" int | CentralDisco 'g int

record ('s, 'sw, 't, 'g) daemon_params =
  pa_PrivateKey :: "'s private_key"
  pa_Swarms :: "string \<rightharpoonup> 'sw"
  pa_Network :: network_factory
  pa_Peers :: "'t peerStore"
  pa_Discovery :: "'g disc_service list"
  pa_APIAddr :: string
  pa_Schema :: "string \<rightharpoonup> 'sw"

definition strings_TrimPrefix :: "string \<Rightarrow> string \<Rightarrow> string" where
  "strings_TrimPrefix s p = (if prefix p s then drop (length p) s else s)"

text \<open>\<^verbatim>\<open>filepath.Dir\<close>: what precedes the last separator, cleaned.\<close>

definition filepath_Dir :: "string \<Rightarrow> string" where
  "filepath_Dir p = path_Clean (rev (dropWhile (\<lambda>c. c \<noteq> CHR ''/'') (rev p)))"

definition makeTransport :: "('e, 'sw, 't, 'g) host \<Rightarrow> transport_spec \<Rightarrow> ('e daemon_error, 'sw \<times> string) outcome" where
  "makeTransport H spec =
     (case spec_UDP spec of
        Some laddr \<Rightarrow> obind (err_map HostError (h_udpNew H laddr)) (\<lambda>s. Ok (s, ''udp''))
      | None \<Rightarrow> (case spec_Ethernet spec of Some _ \<Rightarrow> Err EthernetNotImplemented | None \<Rightarrow> Err EmptyTransport))"

definition makeDiscovery :: "('e, 'sw, 't, 'g) host \<Rightarrow> discovery_spec \<Rightarrow> ('e daemon_error, 'g disc_service) outcome" where
  "makeDiscovery H spec =
     (case spec_Local spec of
        Some l \<Rightarrow> Ok (LanDisco (spec_Interfaces l) (GetAnnouncePeriod l))
      | None \<Rightarrow>
          (case spec_Central spec of
             Some cs \<Rightarrow>
               (let endpoint = spec_Endpoint cs;
                    insecure = prefix ''http://'' endpoint;
                    endpoint = (if insecure then strings_TrimPrefix endpoint ''http://'' else endpoint);
                    endpoint = strings_TrimPrefix endpoint ''https://''
                in obind (err_map HostError (h_Dial H endpoint insecure)) (\<lambda>gc. Ok (CentralDisco gc (GetPeriod cs))))
           | None \<Rightarrow> Err EmptyDiscovery))"

definition networkFactoryFromSpec :: "network_spec \<Rightarrow> ('e daemon_error, network_factory) outcome" where
  "networkFactoryFromSpec spec = (case spec_BeaconNet spec of Some _ \<Rightarrow> Ok BeaconFactory | None \<Rightarrow> Err EmptyNetwork)"

definition add_transport ::
  "('e, 'sw, 't, 'g) host \<Rightarrow> transport_spec \<Rightarrow> (string \<rightharpoonup> 'sw) \<Rightarrow> ('e daemon_error, string \<rightharpoonup> 'sw) outcome" where
  "add_transport H tspec swarms = obind (makeTransport H tspec) (\<lambda>(sw, swname). Ok (swarms(swname \<mapsto> sw)))"

definition add_peer ::
  "(bytes \<Rightarrow> ('e, 't) outcome) \<Rightarrow> peer_spec \<Rightarrow> 't peerStore \<Rightarrow> ('e daemon_error, 't peerStore) outcome" where
  "add_peer ap pspec ps =
     obind (err_map HostError (ParseAddrs ap (spec_Addrs pspec))) (\<lambda>addrs.
       Ok (SetAddrs store_Update (store_Add ps (spec_ID pspec)) (spec_ID pspec) addrs))"

definition add_discovery ::
  "('e, 'sw, 't, 'g) host \<Rightarrow> discovery_spec \<Rightarrow> 'g disc_service list \<Rightarrow> ('e daemon_error, 'g disc_service list) outcome" where
  "add_discovery H spec srvs = obind (makeDiscovery H spec) (\<lambda>srv. Ok (srvs @ [srv]))"

definition key_path :: "string \<Rightarrow> config \<Rightarrow> string" where
  "key_path configPath c =
     (if prefix ''./'' (PrivateKeyPath c) then path_Join [filepath_Dir configPath, PrivateKeyPath c] else PrivateKeyPath c)"

definition MakeParams ::
  "('p, 's, 'r) circl \<Rightarrow> ('e, 'sw, 't, 'g) host \<Rightarrow> string \<Rightarrow> config \<Rightarrow> ('e daemon_error, ('s, 'sw, 't, 'g) daemon_params) outcome" where
  "MakeParams cc H configPath c =
     obind (err_map HostError (h_ReadFile H (key_path configPath c))) (\<lambda>keyData.
     obind (err_map UnreadablePrivateKey (ParsePrivateKey cc keyData)) (\<lambda>privateKey.
     obind (ofold (add_transport H) (cfg_Transports c) Map.empty) (\<lambda>swarms.
     let addrSchema = NewAddrSchema (h_secure H) (h_secureParser H) (h_order H swarms) swarms in
     obind (ofold (add_peer (h_ParseAddr H addrSchema)) (cfg_Peers c) NewStore) (\<lambda>ps.
     obind (networkFactoryFromSpec (cfg_Network c)) (\<lambda>network.
     obind (ofold (add_discovery H) (cfg_Discovery c) []) (\<lambda>srvs.
       Ok \<lparr>pa_PrivateKey = privateKey, pa_Swarms = swarms, pa_Network = network, pa_Peers = ps,
           pa_Discovery = srvs, pa_APIAddr = APIEndpoint c, pa_Schema = addrSchema\<rparr>))))))"

section \<open>Running\<close>

text \<open>
  The stores of a running daemon: the configured one, and one for each discovery service, to which the
  configured peers are copied. The node uses the chain of them all.
\<close>

record 't daemon =
  dm_main :: "'t peerStore"
  dm_disc :: "'t peerStore list"

definition copyPeers :: "addr list \<Rightarrow> 't peerStore \<Rightarrow> 't peerStore \<Rightarrow> 't peerStore" where
  "copyPeers ks dst src = foldl store_Add dst (store_List ks src)"

definition daemon_setup :: "addr list \<Rightarrow> 't peerStore \<Rightarrow> nat \<Rightarrow> 't daemon" where
  "daemon_setup ks main n = \<lparr>dm_main = main, dm_disc = map (\<lambda>_. copyPeers ks NewStore main) [0..<n]\<rparr>"

definition node_peers :: "'t daemon \<Rightarrow> 't ChainStore" where
  "node_peers d = dm_main d # dm_disc d"

text \<open>
  Service \<open>k\<close> works on its store through the wrapper of \<^verbatim>\<open>DisableAddRemove\<close>, which shares the store with the
  chain.
\<close>

definition run_service :: "nat \<Rightarrow> ('t fixedStore \<Rightarrow> 't fixedStore) \<Rightarrow> 't daemon \<Rightarrow> 't daemon" where
  "run_service k f d = d\<lparr>dm_disc := (dm_disc d)[k := wrapped (f (DisableAddRemove (dm_disc d ! k)))]\<rparr>"

text \<open>The calls of the store interface a service can make.\<close>

datatype 't store_call = CallAdd addr | CallRemove addr | CallUpdate addr "'t info \<Rightarrow> 't info"

fun fixed_call :: "'t store_call \<Rightarrow> 't fixedStore \<Rightarrow> 't fixedStore" where
  "fixed_call (CallAdd i) s = fixed_Add s i"
| "fixed_call (CallRemove i) s = fixed_Remove s i"
| "fixed_call (CallUpdate i fn) s = fixed_Update s i fn"

text \<open>What a service is given by \<^verbatim>\<open>runDiscovery\<close>: its address, and the local addresses that it may announce.\<close>

definition discovery_LocalID :: "('p, 's, 'r) circl \<Rightarrow> sponge \<Rightarrow> string list \<Rightarrow> 's private_key \<Rightarrow> addr option" where
  "discovery_LocalID c sp tags privateKey = NewID c sp tags (private_Public c privateKey)"

definition broadcastTransports :: "string \<rightharpoonup> unit" where
  "broadcastTransports = [SecureProtocolName ''udp'' \<mapsto> ()]"

text \<open>\<open>f\<close> lists the transport addresses with their schemes; an error panics.\<close>

definition adaptTransportAddrs :: "('e, (string \<times> 'a) list) outcome \<Rightarrow> (string \<times> 'a) list option" where
  "adaptTransportAddrs f =
     (case f of
        Ok addrs \<Rightarrow> Some (foldl (\<lambda>addrs2 a. if broadcastTransports (fst a) \<noteq> None then addrs2 @ [a] else addrs2) [] addrs)
      | _ \<Rightarrow> None)"
section \<open>Lemmas\<close>

lemma add_peer_Ok:
  "add_peer ap y ps = Ok ps' \<longleftrightarrow> (\<exists>ts. ParseAddrs ap (spec_Addrs y) = Ok ts \<and>
     ps' = SetAddrs store_Update (store_Add ps (spec_ID y)) (spec_ID y) ts)"
  by (auto simp: add_peer_def outcome_simps)

lemma store_Get_add_peer:
  assumes "add_peer ap y ps = Ok ps'"
  shows "\<exists>ts. ParseAddrs ap (spec_Addrs y) = Ok ts \<and> store_Get ps' i = (if i = spec_ID y then Some \<lparr>Addrs = ts\<rparr> else store_Get ps i)"
proof -
  obtain ts where "ParseAddrs ap (spec_Addrs y) = Ok ts" "ps' = SetAddrs store_Update (store_Add ps (spec_ID y)) (spec_ID y) ts"
    using assms by (auto simp: add_peer_Ok)
  then show ?thesis by (cases "store_Get ps (spec_ID y)") (simp_all add: ps.get_SetAddrs ps.get_add)
qed

text \<open>The peers a list of specifications leaves in the store: the last one for an address counts.\<close>

lemma add_peers_Ok:
  "ofold (add_peer ap) ys NewStore = Ok ps \<Longrightarrow>
     (store_Get ps i \<noteq> None \<longleftrightarrow> i \<in> spec_ID ` set ys) \<and>
     (\<forall>xs y zs. ys = xs @ y # zs \<and> spec_ID y = i \<and> i \<notin> spec_ID ` set zs \<longrightarrow>
        ParseAddrs ap (spec_Addrs y) = Ok (ListAddrs store_Get ps i))"
proof (induction ys arbitrary: ps rule: rev_induct)
  case (snoc z ys)
  then obtain ps1 where ps1: "ofold (add_peer ap) ys NewStore = Ok ps1" "add_peer ap z ps1 = Ok ps"
    by (auto simp: ofold_append outcome_simps)
  obtain ts where ts: "ParseAddrs ap (spec_Addrs z) = Ok ts" "store_Get ps i = (if i = spec_ID z then Some \<lparr>Addrs = ts\<rparr> else store_Get ps1 i)"
    using store_Get_add_peer [OF ps1(2)] by blast
  have "ParseAddrs ap (spec_Addrs y) = Ok (ListAddrs store_Get ps i)"
    if "ys @ [z] = xs @ y # zs" "spec_ID y = i" "i \<notin> spec_ID ` set zs" for xs y zs
  proof (cases zs rule: rev_cases)
    case Nil
    with that ts show ?thesis by (simp add: ListAddrs_def)
  next
    case (snoc zs' w)
    with that have "ys = xs @ y # zs'" "w = z" by simp_all
    with that snoc ts(2) snoc.IH [OF ps1(1)] show ?thesis by (auto simp: ListAddrs_def)
  qed
  with ts(2) snoc.IH [OF ps1(1)] show ?case by auto
qed (simp add: ps.get_new)

lemma get_copyPeers:
  assumes "enumerates ks (ps_m src)"
  shows "store_Get (copyPeers ks NewStore src) i = (if store_Contains src i then Some \<lparr>Addrs = []\<rparr> else None)"
proof -
  have "store_Get (foldl store_Add s xs) i = (if i \<in> set xs \<and> store_Get s i = None then Some \<lparr>Addrs = []\<rparr> else store_Get s i)" for s :: "'a peerStore" and xs
    by (induction xs arbitrary: s) (auto simp: ps.get_add)
  then show ?thesis
    using store_List_enumerates [OF assms, of i] by (simp add: copyPeers_def ps.get_new)
qed

lemma wrapped_fixed_call_contains: "store_Contains (wrapped (fixed_call call s)) i \<longleftrightarrow> store_Contains (wrapped s) i"
  by (cases call) (auto simp: fixed_Add_def fixed_Remove_def fixed_Update_def store_Contains_def store_Update_def split: option.splits)

text \<open>Every store of the daemon has exactly the configured peers.\<close>

definition same_peers :: "'t peerStore \<Rightarrow> 't daemon \<Rightarrow> bool" where
  "same_peers main d \<longleftrightarrow> dm_main d = main \<and> (\<forall>s \<in> set (dm_disc d). \<forall>i. store_Contains s i \<longleftrightarrow> store_Contains main i)"

lemma same_peers_setup: "enumerates ks (ps_m main) \<Longrightarrow> same_peers main (daemon_setup ks main n)"
  by (auto simp: same_peers_def daemon_setup_def get_copyPeers ps.contains_get)

lemma same_peers_run_service:
  assumes "same_peers main d"
  shows "same_peers main (run_service k (fixed_call call) d)"
proof (cases "k < length (dm_disc d)")
  case True
  with assms show ?thesis
    by (auto simp: same_peers_def run_service_def wrapped_fixed_call_contains DisableAddRemove_def dest!: set_update_subset_insert [THEN subsetD])
qed (use assms in \<open>simp add: same_peers_def run_service_def list_update_beyond\<close>)

lemma same_peers_run: "same_peers main d \<Longrightarrow> same_peers main (foldl (\<lambda>d (k, call). run_service k (fixed_call call) d) d calls)"
  by (induction calls arbitrary: d) (auto simp: same_peers_run_service)

lemma chain_Get_eq: "chain_Get ps i = (\<lparr>Addrs = concat (map (\<lambda>s. ListAddrs store_Get s i) ps)\<rparr>, chain_Contains ps i)"
  by (simp add: chain_Get_def chain_Get_loop_eq)

text \<open>What a message heard on the local network does to the store of the service.\<close>

definition lan_service ::
  "aead \<Rightarrow> (bytes \<Rightarrow> ('e, 't) outcome) \<Rightarrow> addr \<Rightarrow> addr list \<Rightarrow> bytes \<Rightarrow> 't fixedStore \<Rightarrow> 't fixedStore" where
  "lan_service A ap localID ks m st =
     (case ld_handleMessage A fixed_Update ap localID (store_List ks (wrapped st)) m st of Ok (st', _) \<Rightarrow> st' | _ \<Rightarrow> st)"

lemma run_service_addrs:
  assumes "k < length (dm_disc d)" "\<And>st. fixed_Get st i \<noteq> None \<Longrightarrow> st = DisableAddRemove (dm_disc d ! k) \<Longrightarrow> f st = SetAddrs fixed_Update st i ts"
    and "store_Contains (dm_disc d ! k) i"
  shows "chain_Get (node_peers (run_service k f d)) i =
     (\<lparr>Addrs = concat (map (\<lambda>s. ListAddrs store_Get s i) (take (Suc k) (node_peers d))) @ ts @
        concat (map (\<lambda>s. ListAddrs store_Get s i) (drop (Suc (Suc k)) (node_peers d)))\<rparr>, True)"
proof -
  let ?s = "dm_disc d ! k"
  have "fixed_Get (DisableAddRemove ?s) i \<noteq> None" using assms(3) by (simp add: DisableAddRemove_def fixed_Get_def ps.contains_get)
  from assms(2) [OF this refl] have "wrapped (f (DisableAddRemove ?s)) = SetAddrs store_Update ?s i ts"
    by (simp add: SetAddrs_def fixed_Update_def DisableAddRemove_def)
  then have "node_peers (run_service k f d) = take (Suc k) (node_peers d) @ SetAddrs store_Update ?s i ts # drop (Suc (Suc k)) (node_peers d)"
    using assms(1) by (simp add: node_peers_def run_service_def upd_conv_take_nth_drop)
  moreover have "store_Contains (SetAddrs store_Update ?s i ts) i" using assms(3) by (simp add: ps.contains_get ps.get_SetAddrs)
  ultimately show ?thesis using ps.set_then_list [OF assms(3)] by (simp add: chain_Get_eq chain_Contains_def)
qed

lemma distinct_singleton: "distinct xs \<Longrightarrow> set xs = {a} \<Longrightarrow> xs = [a]"
  by (cases xs) (auto simp: subset_singleton_iff)

lemma add_transport_udp: "add_transport H t m = Ok m' \<Longrightarrow> ''udp'' \<in> dom m' \<and> dom m' \<subseteq> insert ''udp'' (dom m)"
  by (auto simp: add_transport_def makeTransport_def outcome_simps split: option.splits)

lemma add_transports_udp:
  "ofold (add_transport H) ts m = Ok m' \<Longrightarrow> dom m \<subseteq> {''udp''} \<Longrightarrow> dom m' \<subseteq> {''udp''} \<and> (ts \<noteq> [] \<or> m \<noteq> Map.empty \<longrightarrow> dom m' = {''udp''})"
proof (induction ts arbitrary: m)
  case (Cons t ts)
  then obtain m1 where m1: "add_transport H t m = Ok m1" "ofold (add_transport H) ts m1 = Ok m'" by (auto simp: outcome_simps)
  from add_transport_udp [OF m1(1)] Cons.prems(2) have "dom m1 = {''udp''}" by blast
  with Cons.IH [OF m1(2)] show ?case by fastforce
qed (use subset_singletonD dom_eq_empty_conv in \<open>fastforce simp del: dom_eq_empty_conv\<close>)

section \<open>Properties\<close>

text \<open>
  The peers of a daemon are the configured ones: when the parameters can be made, the store has
  exactly the addresses of the peer specifications, each with the parsed texts of the last
  specification that names it.
\<close>

theorem MakeParams_peers:
  assumes "MakeParams cc H configPath c = Ok p"
  shows "(store_Get (pa_Peers p) i \<noteq> None \<longleftrightarrow> i \<in> spec_ID ` set (cfg_Peers c)) \<and>
     (\<forall>xs y zs. cfg_Peers c = xs @ y # zs \<and> spec_ID y = i \<and> i \<notin> spec_ID ` set zs \<longrightarrow>
        ParseAddrs (h_ParseAddr H (pa_Schema p)) (spec_Addrs y) = Ok (ListAddrs store_Get (pa_Peers p) i))"
proof -
  have "ofold (add_peer (h_ParseAddr H (pa_Schema p))) (cfg_Peers c) NewStore = Ok (pa_Peers p)"
    using assms by (auto simp: MakeParams_def Let_def outcome_simps)
  then show ?thesis by (rule add_peers_Ok)
qed

definition sample_host :: "(unit, nat, bytes, unit) host" where
  "sample_host = \<lparr>h_ReadFile = (\<lambda>_. Ok (the (MarshalPrivateKey sample_circl default_tags [] (BasePrivate Ed25519 True)))),
     h_udpNew = (\<lambda>_. Ok 7), h_Dial = (\<lambda>_ _. Ok ()), h_secure = (\<lambda>_. None), h_secureParser = (\<lambda>s. s),
     h_order = (\<lambda>_. [''udp'']), h_ParseAddr = (\<lambda>_. Ok)\<rparr>"

definition sample_config :: config where
  "sample_config = DefaultConfig\<lparr>APIEndpoint := '''', cfg_Peers := [\<lparr>spec_ID = zero_addr, spec_Addrs = [''a'']\<rparr>]\<rparr>"

definition sample_params :: "(bool, nat, bytes, unit) daemon_params" where
  "sample_params = \<lparr>pa_PrivateKey = BasePrivate Ed25519 True, pa_Swarms = [''udp'' \<mapsto> 7], pa_Network = BeaconFactory,
     pa_Peers = SetAddrs store_Update (store_Add NewStore zero_addr) zero_addr [[97]], pa_Discovery = [], pa_APIAddr = '''',
     pa_Schema = [''quic+udp'' \<mapsto> 7]\<rparr>"

lemma sample_key_parses:
  "ParsePrivateKey sample_circl (the (MarshalPrivateKey sample_circl default_tags [] (BasePrivate Ed25519 True))) = Ok (BasePrivate Ed25519 True)"
  by code_simp

lemma sample_MakeParams: "MakeParams sample_circl sample_host ''/etc/inet256.yml'' sample_config = Ok sample_params"
  by (simp add: MakeParams_def sample_host_def sample_config_def DefaultConfig_def DefaultNetwork_def sample_key_parses add_transport_def makeTransport_def
      add_peer_def ParseAddrs_def bytes_of_string_def networkFactoryFromSpec_def NewAddrSchema_def SecureProtocolName_def sample_params_def)

theorem MakeParams_peers_witness: "ParseAddrs (Ok :: bytes \<Rightarrow> (unit, bytes) outcome) [''a''] = Ok (ListAddrs store_Get (pa_Peers sample_params) zero_addr)"
  using MakeParams_peers [OF sample_MakeParams, of zero_addr, THEN conjunct2, rule_format, of "[]" "\<lparr>spec_ID = zero_addr, spec_Addrs = [''a'']\<rparr>" "[]"]
  by (simp add: sample_config_def DefaultConfig_def sample_host_def)

text \<open>
  C33: Discovery never changes who the peers are: after any calls of any services, the node's chain of
  stores has exactly the configured peers, and the configured addresses of a peer come first.
\<close>

theorem discovery_keeps_peers:
  assumes "enumerates ks (ps_m main)"
    and "d = foldl (\<lambda>d (k, call). run_service k (fixed_call call) d) (daemon_setup ks main n) calls"
  shows "(chain_Contains (node_peers d) i \<longleftrightarrow> store_Contains main i) \<and>
     prefix (ListAddrs store_Get main i) (Addrs (fst (chain_Get (node_peers d) i)))"
proof -
  have "same_peers main d" unfolding assms(2) by (intro same_peers_run same_peers_setup assms(1))
  then show ?thesis by (auto simp: same_peers_def node_peers_def chain_Contains_def chain_Get_eq list_ex_iff)
qed

theorem discovery_keeps_peers_witness:
  "let d = foldl (\<lambda>d (k, call). run_service k (fixed_call call) d) (daemon_setup [zero_addr] (wrapped sample_store) 1)
       [(0, CallAdd (replicate 32 1)), (0, CallRemove zero_addr), (0, CallUpdate zero_addr (\<lambda>x. x\<lparr>Addrs := [[97]]\<rparr>))]
   in chain_Contains (node_peers d) zero_addr \<and> \<not> chain_Contains (node_peers d) (replicate 32 1)"
proof -
  let ?calls = "[(0, CallAdd (replicate 32 1)), (0, CallRemove zero_addr), (0, CallUpdate zero_addr (\<lambda>x. x\<lparr>Addrs := [[97]]\<rparr>))]"
  have e: "enumerates [zero_addr] (ps_m (wrapped sample_store))" "store_Contains (wrapped sample_store) zero_addr"
    "\<not> store_Contains (wrapped sample_store) (replicate 32 1)"
    by (auto simp: enumerates_def sample_store_def DisableAddRemove_def store_Add_def NewStore_def store_Contains_def zero_addr_def AddrSize_def eval_nat_numeral)
  show ?thesis
    unfolding Let_def using discovery_keeps_peers [OF e(1) refl, of 1 ?calls] e(2,3) by blast
qed

text \<open>
  A daemon without an API endpoint in its configuration gets none: the default of \<^verbatim>\<open>GetAPIAddr\<close> is not
  used.
\<close>

theorem empty_endpoint_stays_empty:
  assumes "MakeParams cc H configPath c = Ok p" "APIEndpoint c = ''''"
  shows "pa_APIAddr p = '''' \<and> GetAPIAddr c = DefaultAPIEndpoint \<and> DefaultAPIEndpoint \<noteq> ''''"
  using assms by (auto simp: MakeParams_def Let_def outcome_simps GetAPIAddr_def DefaultAPIEndpoint_def)

theorem empty_endpoint_stays_empty_witness: "pa_APIAddr sample_params = ''''"
  using empty_endpoint_stays_empty [OF sample_MakeParams] by (simp add: sample_config_def)

text \<open>
  C14: What the local network announces reaches the node: when an announcement of a configured peer
  arrives at a discovery service, the node's peer store lists the announced addresses for that peer at
  the service's place, beside those of the other stores.
\<close>

theorem announcement_reaches_node:
  assumes "aead_laws A" "k < length (dm_disc d)" "enumerates ks (ps_m (dm_disc d ! k))" "store_Contains (dm_disc d ! k) i"
    and "m = announcement A now i addrs" "ParseAddrs ap addrs = Ok ts" "i \<noteq> localID" "foreign_to A i m (localID # store_List ks (dm_disc d ! k))"
  shows "chain_Get (node_peers (run_service k (lan_service A ap localID ks m) d)) i =
     (\<lparr>Addrs = concat (map (\<lambda>s. ListAddrs store_Get s i) (take (Suc k) (node_peers d))) @ ts @
        concat (map (\<lambda>s. ListAddrs store_Get s i) (drop (Suc (Suc k)) (node_peers d)))\<rparr>, True)"
proof (rule run_service_addrs [OF assms(2) _ assms(4)])
  fix st assume st: "fixed_Get st i \<noteq> None" "st = DisableAddRemove (dm_disc d ! k)"
  then have w: "wrapped st = dm_disc d ! k" by (simp add: DisableAddRemove_def)
  show "lan_service A ap localID ks m st = SetAddrs fixed_Update st i ts"
    using ld_handle_announcement [of A ks st m now i addrs ap ts localID] assms(1,3,5-8) st(1)
    by (simp add: lan_service_def w)
qed

theorem announcement_reaches_node_witness:
  "let d = daemon_setup [zero_addr] (wrapped sample_store) 1; m = announcement sample_aead [7] zero_addr [''a'']
   in chain_Get (node_peers (run_service 0 (lan_service sample_aead (Ok :: bytes \<Rightarrow> (unit, bytes) outcome) (replicate 32 1) [zero_addr] m) d)) zero_addr
     = (\<lparr>Addrs = [[97]]\<rparr>, True)"
proof -
  let ?d = "daemon_setup [zero_addr] (wrapped sample_store) 1" and ?m = "announcement sample_aead [7] zero_addr [''a'']"
  have d: "dm_disc ?d = [wrapped sample_store]" "node_peers ?d = [wrapped sample_store, wrapped sample_store]"
    by (simp_all add: daemon_setup_def copyPeers_def store_List_def node_peers_def sample_store_def DisableAddRemove_def store_Add_def NewStore_def)
  have s: "enumerates [zero_addr] (ps_m (wrapped sample_store))" "store_Contains (wrapped sample_store) zero_addr" "ListAddrs store_Get (wrapped sample_store) zero_addr = []"
    by (simp_all add: enumerates_def sample_store_def DisableAddRemove_def store_Add_def NewStore_def store_Contains_def ListAddrs_def store_Get_def)
  have p: "ParseAddrs (Ok :: bytes \<Rightarrow> (unit, bytes) outcome) [''a''] = Ok [[97]]" by (simp add: ParseAddrs_def bytes_of_string_def)
  have z: "zero_addr \<noteq> replicate 32 1" by (simp add: zero_addr_def AddrSize_def eval_nat_numeral)
  show ?thesis
    unfolding Let_def
    using announcement_reaches_node [OF sample_aead_laws _ _ _ refl p z, of 0 ?d "[zero_addr]" "[7]"] sample_announcement_foreign [of "wrapped sample_store"] d s by simp
qed

text \<open>
  A daemon understands the addresses that daemons announce: with at least one transport, and
  transports that are secured by the mesh, the schemes that pass the filter of \<^verbatim>\<open>adaptTransportAddrs\<close> are
  exactly those of the daemon's own address parser.
\<close>

theorem announced_schemes_parse:
  assumes "MakeParams cc H configPath c = Ok p" "cfg_Transports c \<noteq> []" "enumerates (h_order H (pa_Swarms p)) (pa_Swarms p)"
    and "\<forall>sw. h_secure H sw = None"
  shows "adaptTransportAddrs (Ok addrs) = Some (filter (\<lambda>a. fst a \<in> dom (pa_Schema p)) addrs)"
proof -
  have "ofold (add_transport H) (cfg_Transports c) Map.empty = Ok (pa_Swarms p)"
      "pa_Schema p = NewAddrSchema (h_secure H) (h_secureParser H) (h_order H (pa_Swarms p)) (pa_Swarms p)"
    using assms(1) by (auto simp: MakeParams_def Let_def outcome_simps)
  moreover from this(1) have "dom (pa_Swarms p) = {''udp''}" using add_transports_udp [of H "cfg_Transports c" Map.empty] assms(2) by simp
  then have "h_order H (pa_Swarms p) = [''udp'']" using assms(3) unfolding enumerates_def by (metis distinct_singleton)
  ultimately have "dom (pa_Schema p) = {SecureProtocolName ''udp''}" using assms(4) by (simp add: NewAddrSchema_def)
  moreover have "foldl (\<lambda>xs a. if broadcastTransports (fst a) \<noteq> None then xs @ [a] else xs) acc addrs =
      acc @ filter (\<lambda>a. fst a = SecureProtocolName ''udp'') addrs" for acc
    by (induction addrs arbitrary: acc) (auto simp: broadcastTransports_def)
  ultimately show ?thesis by (simp add: adaptTransportAddrs_def)
qed

theorem announced_schemes_parse_witness:
  "adaptTransportAddrs (Ok [(''quic+udp'', 1), (''udp'', 2 :: nat)] :: (unit, (string \<times> nat) list) outcome) = Some [(''quic+udp'', 1)]"
  using announced_schemes_parse [OF sample_MakeParams, of "[(''quic+udp'', 1), (''udp'', 2 :: nat)]"]
  by (simp add: sample_config_def DefaultConfig_def sample_host_def sample_params_def enumerates_def)

end
