(* ===== verification/Commands.thy ===== *)
theory Commands
  imports Balancer Daemon Ipv6 Beaconnet
begin

text \<open>
  What the commands of \<^verbatim>\<open>src/inet256cmd\<close> and \<^verbatim>\<open>src/inet256ipv6/ip6.go\<close> do between their flags and their output. Files
  are the function \<open>readFile\<close> and opening a node is \<open>newNode\<close>; what a loop receives is a list with the result of every
  call. Parsing flags and printing are I/O.
\<close>

datatype ('e, 'n) cmd_error = FileError 'e | KeyError pki_error | AddrError id_error | NodeFailed 'n | MissingKey | UnknownProtocol
  | BackendFailed "'e lb_error" | TooLong

section \<open>Keys\<close>

definition loadPrivateKeyFromFile ::
  "('p, 's, 'r) circl \<Rightarrow> (string \<Rightarrow> ('e, bytes) outcome) \<Rightarrow> string \<Rightarrow> (('e, 'n) cmd_error, 's private_key) outcome" where
  "loadPrivateKeyFromFile c readFile p =
     obind (err_map FileError (readFile p)) (\<lambda>data. err_map KeyError (ParsePrivateKey c data))"

text \<open>A key and what is left of the entropy; an error panics.\<close>

definition generateKey :: "('p, 's, 'r) circl \<Rightarrow> 'r \<Rightarrow> ('s private_key \<times> 'r) option" where
  "generateKey c r = (case pki_GenerateKey c DefaultPKI r of Ok ((pub, priv), r') \<Rightarrow> Some (priv, r') | _ \<Rightarrow> None)"

definition keygen_cmd :: "('p, 's, 'r) circl \<Rightarrow> string list \<Rightarrow> 'r \<Rightarrow> bytes option" where
  "keygen_cmd c ks r = Option.bind (generateKey c r) (\<lambda>(priv, r'). MarshalPrivateKey c ks [] priv)"

definition addr_cmd ::
  "('p, 's, 'r) circl \<Rightarrow> sponge \<Rightarrow> string list \<Rightarrow> (string \<Rightarrow> ('e, bytes) outcome) \<Rightarrow> string \<Rightarrow> (('e, 'n) cmd_error, string) outcome" where
  "addr_cmd c sp ks readFile path =
     (if path = '''' then Err MissingKey
      else obind (loadPrivateKeyFromFile c readFile path) (\<lambda>privateKey.
           obind (unwinds (NewID c sp ks (private_Public c privateKey))) (\<lambda>i. Ok (MarshalText i @ [CHR 0x0A]))))"

text \<open>The address that the \<^verbatim>\<open>ip6-addr\<close> command prints, from a key file or from its argument.\<close>

definition ip6_addr_cmd ::
  "('p, 's, 'r) circl \<Rightarrow> sponge \<Rightarrow> string list \<Rightarrow> (string \<Rightarrow> ('e, bytes) outcome) \<Rightarrow> string \<Rightarrow> string list \<Rightarrow>
   (('e, 'n) cmd_error, netip_addr) outcome" where
  "ip6_addr_cmd c sp ks readFile path args =
     obind (if path \<noteq> '''' then
              obind (loadPrivateKeyFromFile c readFile path) (\<lambda>privateKey. unwinds (NewID c sp ks (private_Public c privateKey)))
            else if length args = 1 then err_map AddrError (ParseAddrBase64 (args ! 0))
            else Err MissingKey)
       (\<lambda>x. unwinds (IPv6FromINET256 x))"

section \<open>Messages\<close>

text \<open>
  The loop of \<^verbatim>\<open>echo\<close>. An element of the list is the result of \<^verbatim>\<open>Receive\<close> and, for a message, of the \<^verbatim>\<open>Send\<close> that answers
  it; the value is the messages that were sent without an error, and the error that ended the loop.
\<close>

fun echo_loop :: "('n + message \<times> ('n + unit)) list \<Rightarrow> (addr \<times> bytes) list \<times> 'n option" where
  "echo_loop [] = ([], None)"
| "echo_loop (Inl e # xs) = ([], Some e)"
| "echo_loop (Inr (msg, sent) # xs) =
     (case echo_loop xs of (out, e) \<Rightarrow>
        (case sent of Inr _ \<Rightarrow> ((m_Src msg, m_Payload msg) # out, e) | Inl _ \<Rightarrow> (out, e)))"

text \<open>The receiving loop of \<^verbatim>\<open>nc\<close>: what it writes, and the error that ended it.\<close>

fun nc_receive :: "addr \<Rightarrow> ('n + message) list \<Rightarrow> bytes \<times> 'n option" where
  "nc_receive remote [] = ([], None)"
| "nc_receive remote (Inl e # xs) = ([], Some e)"
| "nc_receive remote (Inr msg # xs) =
     (case nc_receive remote xs of (out, e) \<Rightarrow>
        if m_Src msg \<noteq> remote then (out, e) else (m_Payload msg @ [10] @ out, e))"

text \<open>
  The tokens of a \<^verbatim>\<open>bufio.Scanner\<close> and whether it reached the end: lines without their line break and one carriage
  return before it. A line that does not fit the buffer of 65536 bytes ends the scan with an error.
\<close>

definition MaxScanTokenSize :: nat where "MaxScanTokenSize = 65536"

definition dropCR :: "bytes \<Rightarrow> bytes" where
  "dropCR data = (if data \<noteq> [] \<and> last data = 13 then butlast data else data)"

function scan_lines :: "bytes \<Rightarrow> bytes list \<times> bool" where
  "scan_lines data =
     (if data = [] then ([], True)
      else let line = takeWhile (\<lambda>b. b \<noteq> 10) data; rest = dropWhile (\<lambda>b. b \<noteq> 10) data
           in if MaxScanTokenSize \<le> length line then ([], False)
              else if rest = [] then ([dropCR line], True)
              else case scan_lines (tl rest) of (lines, ok) \<Rightarrow> (dropCR line # lines, ok))"
  by pat_completeness auto
termination
proof (relation "measure length")
  fix data line rest :: bytes
  assume "data \<noteq> []" "rest = dropWhile (\<lambda>b. b \<noteq> 10) data"
  then show "(tl rest, data) \<in> measure length"
    using length_dropWhile_le [of "\<lambda>b. b \<noteq> 10" data] by (cases data) auto
qed simp

declare scan_lines.simps [simp del]

text \<open>The sending loop of \<^verbatim>\<open>nc\<close> over the scanned lines: what it sends, and how it ends.\<close>

fun nc_send :: "(addr \<Rightarrow> bytes \<Rightarrow> ('n, unit) outcome) \<Rightarrow> addr \<Rightarrow> bytes list \<Rightarrow> bool \<Rightarrow> (addr \<times> bytes) list \<times> (('e, 'n) cmd_error, unit) outcome" where
  "nc_send send remote [] ok = ([], if ok then Ok () else Err TooLong)"
| "nc_send send remote (line # lines) ok =
     (case send remote line of
        Ok _ \<Rightarrow> (case nc_send send remote lines ok of (out, res) \<Rightarrow> ((remote, line) # out, res))
      | Err e \<Rightarrow> ([], Err (NodeFailed e))
      | Panic \<Rightarrow> ([], Panic))"

definition ping_cmd ::
  "('p, 's, 'r) circl \<Rightarrow> ('s private_key \<Rightarrow> ('n, 'h) outcome) \<Rightarrow> ('h \<Rightarrow> addr \<Rightarrow> bytes \<Rightarrow> ('n, unit) outcome) \<Rightarrow> 'r \<Rightarrow> string \<Rightarrow>
   (('e, 'n) cmd_error, unit) outcome" where
  "ping_cmd c newNode send r arg =
     obind (unwinds (generateKey c r)) (\<lambda>(privKey, r').
     obind (err_map NodeFailed (newNode privKey)) (\<lambda>node.
     obind (err_map AddrError (ParseAddrBase64 arg)) (\<lambda>dst.
     err_map NodeFailed (send node dst (bytes_of_string ''ping'')))))"

section \<open>Streams\<close>

text \<open>The \<^verbatim>\<open>dial\<close> command up to the connection it copies; \<open>None\<close> is a run that ends without a connection and without an error.\<close>

definition dial_cmd ::
  "('p, 's, 'r) circl \<Rightarrow> (string \<Rightarrow> ('e, bytes) outcome) \<Rightarrow> ('s private_key \<Rightarrow> ('n, 'h) outcome) \<Rightarrow> ('h \<Rightarrow> addr \<Rightarrow> ('n, 'conn) outcome) \<Rightarrow>
   string \<Rightarrow> string \<Rightarrow> string \<Rightarrow> (('e, 'n) cmd_error, 'conn option) outcome" where
  "dial_cmd c readFile newNode utp_Open protocol path arg =
     obind (err_map AddrError (ParseAddrBase64 arg)) (\<lambda>dst.
     if path = '''' then Err MissingKey
     else obind (loadPrivateKeyFromFile c readFile path) (\<lambda>privateKey.
       if protocol \<noteq> ''utp'' then Err UnknownProtocol
       else case newNode privateKey of
         Err e \<Rightarrow> Ok None
       | Panic \<Rightarrow> Panic
       | Ok node \<Rightarrow> obind (err_map NodeFailed (utp_Open node dst)) (\<lambda>conn. Ok (Some conn))))"

datatype 'ap listen_backend = StdioBackend | StreamBackend "'ap backend"

text \<open>The error of \<^verbatim>\<open>AddBackend\<close> is ignored: a name that is already there keeps its backend.\<close>

definition add_backend :: "string \<Rightarrow> 'b \<Rightarrow> 'b balancer \<Rightarrow> 'b balancer" where
  "add_backend k be bal = (case AddBackend k be bal of Ok bal' \<Rightarrow> bal' | _ \<Rightarrow> bal)"

definition listen_backends ::
  "(string \<Rightarrow> ('e, 'ap) outcome) \<Rightarrow> string list \<Rightarrow> ('e lb_error, 'ap listen_backend balancer) outcome" where
  "listen_backends parseAddrPort args =
     (if length args = 1 \<and> args ! 0 = ''stdio'' then Ok (add_backend ''stdio'' StdioBackend NewStreamBalancer)
      else ofold (\<lambda>x bal. obind (MakeStreamBackend parseAddrPort x) (\<lambda>e. Ok (add_backend x (StreamBackend e) bal)))
             args NewStreamBalancer)"

definition MakeStreamFrontend :: "string \<Rightarrow> ('e lb_error, unit) outcome" where
  "MakeStreamFrontend protocol = (if protocol = ''utp'' then Ok () else Err UnrecognizedScheme)"

text \<open>The \<^verbatim>\<open>listen\<close> command up to the balancer that serves the frontend of the node.\<close>

definition listen_cmd ::
  "('p, 's, 'r) circl \<Rightarrow> (string \<Rightarrow> ('e, bytes) outcome) \<Rightarrow> ('s private_key \<Rightarrow> ('n, 'h) outcome) \<Rightarrow> (string \<Rightarrow> ('e, 'ap) outcome) \<Rightarrow>
   string \<Rightarrow> string \<Rightarrow> string list \<Rightarrow> (('e, 'n) cmd_error, ('h \<times> 'ap listen_backend balancer) option) outcome" where
  "listen_cmd c readFile newNode parseAddrPort protocol path args =
     (if path = '''' then Err MissingKey
      else obind (loadPrivateKeyFromFile c readFile path) (\<lambda>privateKey.
        case newNode privateKey of
          Err e \<Rightarrow> Ok None
        | Panic \<Rightarrow> Panic
        | Ok node \<Rightarrow>
            obind (err_map BackendFailed (listen_backends parseAddrPort args)) (\<lambda>bal.
            obind (err_map BackendFailed (MakeStreamFrontend protocol)) (\<lambda>_. Ok (Some (node, bal))))))"

section \<open>Standard input and output as a backend\<close>

text \<open>
  The state of an \<^verbatim>\<open>rwBackend\<close>: the tokens in its channel of capacity one, whether it is closed, the calls of \<^verbatim>\<open>Open\<close>
  that have passed the first \<^verbatim>\<open>select\<close>, and the connections that have not been closed. The second \<^verbatim>\<open>select\<close> takes any
  case that is ready, so a waiting call may still win the token after \<^verbatim>\<open>Close\<close>. \<^verbatim>\<open>PlumbRWC\<close> closes a connection once.
\<close>

record rwBackend =
  rw_sem :: nat
  rw_closed :: bool
  rw_waiting :: nat
  rw_conns :: nat

definition newRWBackend :: rwBackend where
  "newRWBackend = \<lparr>rw_sem = 0, rw_closed = False, rw_waiting = 0, rw_conns = 0\<rparr>"

inductive rw_step :: "rwBackend \<Rightarrow> rwBackend \<Rightarrow> bool" where
  rw_call: "\<not> rw_closed b \<Longrightarrow> rw_step b (b\<lparr>rw_waiting := rw_waiting b + 1\<rparr>)"
| rw_token: "0 < rw_waiting b \<Longrightarrow> rw_sem b < 1 \<Longrightarrow>
     rw_step b (b\<lparr>rw_waiting := rw_waiting b - 1, rw_sem := rw_sem b + 1, rw_conns := rw_conns b + 1\<rparr>)"
| rw_giveup: "0 < rw_waiting b \<Longrightarrow> rw_step b (b\<lparr>rw_waiting := rw_waiting b - 1\<rparr>)"
| rw_conn_Close: "0 < rw_conns b \<Longrightarrow> 0 < rw_sem b \<Longrightarrow> rw_step b (b\<lparr>rw_sem := rw_sem b - 1, rw_conns := rw_conns b - 1\<rparr>)"
| rw_Close: "rw_step b (b\<lparr>rw_closed := True\<rparr>)"

section \<open>Configurations\<close>

definition create_config :: "string \<Rightarrow> config" where
  "create_config api_endpoint =
     (if api_endpoint \<noteq> '''' then DefaultConfig\<lparr>APIEndpoint := api_endpoint\<rparr> else DefaultConfig)"

text \<open>\<open>env\<close> is the value of \<^verbatim>\<open>INET256_API\<close>, if it is set.\<close>

definition GetAPIEndpointFromEnv :: "string option \<Rightarrow> string" where
  "GetAPIEndpointFromEnv env = (case env of None \<Rightarrow> ''unix:///run/inet256.sock'' | Some e \<Rightarrow> e)"

section \<open>Lemmas\<close>

lemma generateKey_base:
  assumes "generateKey c r = Some (priv, r')"
  shows "\<exists>s. priv = BasePrivate Ed25519 s"
  using assms by (auto simp: generateKey_def pki_GenerateKey_def DefaultPKI_def tag_defs outcome_simps split: outcome.splits prod.splits)

lemma NewID_base:
  assumes "circl_marshals c" "enumerates ks (Schemes DefaultPKI)" "sponge_sized sp"
  shows "\<exists>i. NewID c sp ks (BasePublic a p) = Some i \<and> is_addr i"
proof -
  obtain data where "c_marshal_pub c a p = Ok data" using assms(1) unfolding circl_marshals_def by blast
  then obtain i where i: "NewID c sp ks (BasePublic a p) = Some i"
    by (simp add: NewID_def pki_NewID_def pki_MarshalPublicKey_def findTag_Default [OF assms(2)])
  then have "is_addr i"
    using NewID_is_addr [of "\<lparr>e_circl = c, e_sponge = sp, e_tags = ks\<rparr>" "BasePublic a p" i] assms(3) by simp
  with i show ?thesis by blast
qed

lemma keygen_succeeds:
  assumes "circl_marshals c" "enumerates ks (Schemes DefaultPKI)" "generateKey c r = Some (priv, r')"
  shows "\<exists>data. keygen_cmd c ks r = Some data \<and> ParsePrivateKey c data = Ok priv"
proof -
  obtain s where "priv = BasePrivate Ed25519 s" using generateKey_base [OF assms(3)] by blast
  with ParsePrivateKey_MarshalPrivateKey [OF assms(1,2), of Ed25519 s] assms(3) show ?thesis by (auto simp: keygen_cmd_def)
qed

text \<open>A key file written by \<^verbatim>\<open>keygen\<close> is loaded as the key that was generated.\<close>

lemma load_keygen:
  assumes "circl_marshals c" "enumerates ks (Schemes DefaultPKI)" "generateKey c r = Some (priv, r')"
    and "keygen_cmd c ks r = Some data" "readFile p = Ok data"
  shows "loadPrivateKeyFromFile c readFile p = Ok priv"
  using keygen_succeeds [OF assms(1-3)] assms(4,5) by (auto simp: loadPrivateKeyFromFile_def)

lemma scan_lines_line:
  assumes "10 \<notin> set l" "length l < 65536" "l = [] \<or> last l \<noteq> 13"
  shows "scan_lines (l @ [10] @ rest) = (case scan_lines rest of (ls, ok) \<Rightarrow> (l # ls, ok))"
proof -
  have split: "takeWhile (\<lambda>b. b \<noteq> 10) (l @ 10 # rest) = l" "dropWhile (\<lambda>b. b \<noteq> 10) (l @ 10 # rest) = 10 # rest"
    using assms(1) by (auto simp: takeWhile_append dropWhile_append)
  have "dropCR l = l" using assms(3) by (auto simp: dropCR_def)
  with split assms(2) show ?thesis
    by (subst scan_lines.simps) (simp add: MaxScanTokenSize_def Let_def)
qed

lemma scan_lines_text:
  assumes "\<forall>l \<in> set ls. 10 \<notin> set l \<and> length l < 65536 \<and> (l = [] \<or> last l \<noteq> 13)"
  shows "scan_lines (concat (map (\<lambda>l. l @ [10]) ls)) = (ls, True)"
  using assms
proof (induction ls)
  case Nil
  show ?case by (subst scan_lines.simps) simp
next
  case (Cons l ls)
  then show ?case using scan_lines_line [of l "concat (map (\<lambda>l. l @ [10]) ls)"] by simp
qed

lemma nc_send_ok: "\<forall>l \<in> set ls. send remote l = Ok () \<Longrightarrow> nc_send send remote ls True = (map (Pair remote) ls, Ok ())"
  by (induction ls) auto

lemma nc_receive_only_remote:
  "nc_receive remote (map Inr msgs) = (concat (map (\<lambda>m. m_Payload m @ [10]) (filter (\<lambda>m. m_Src m = remote) msgs)), None)"
  by (induction msgs) auto

text \<open>In every reachable state the tokens are the open connections.\<close>

lemma rw_invariant: "rw_step\<^sup>*\<^sup>* newRWBackend b \<Longrightarrow> rw_sem b = rw_conns b \<and> rw_conns b \<le> 1"
  by (induction rule: rtranclp_induct) (auto simp: newRWBackend_def elim!: rw_step.cases)

lemma dom_add_backend: "dom (lb_backends (add_backend k be bal)) = insert k (dom (lb_backends bal))"
  by (auto simp: add_backend_def AddBackend_def)

lemma ofold_backends_dom:
  "ofold (\<lambda>x bal. obind (MakeStreamBackend ap x) (\<lambda>e. Ok (add_backend x (StreamBackend e) bal))) args bal = Ok bal' \<Longrightarrow>
   dom (lb_backends bal') = set args \<union> dom (lb_backends bal)"
proof (induction args arbitrary: bal)
  case (Cons x args)
  then obtain e where "dom (lb_backends bal') = set args \<union> dom (lb_backends (add_backend x (StreamBackend e) bal))"
    by (clarsimp simp: outcome_simps)
  then show ?case by (simp add: dom_add_backend)
qed simp

lemma listen_backends_dom:
  assumes "listen_backends ap args = Ok bal"
  shows "dom (lb_backends bal) = set args"
proof (cases "length args = 1 \<and> args ! 0 = ''stdio''")
  case True
  then have "args = [''stdio'']" by (cases args) auto
  with assms True dom_add_backend [of "''stdio''" StdioBackend NewStreamBalancer] show ?thesis
    by (auto simp: listen_backends_def NewStreamBalancer_def simp del: domIff)
next
  case False
  with assms have "ofold (\<lambda>x bal. obind (MakeStreamBackend ap x) (\<lambda>e. Ok (add_backend x (StreamBackend e) bal))) args NewStreamBalancer = Ok bal"
    by (auto simp: listen_backends_def split: if_splits)
  from ofold_backends_dom [OF this] show ?thesis by (simp add: NewStreamBalancer_def)
qed

section \<open>Samples\<close>

definition sample_key_file :: "string \<Rightarrow> (unit, bytes) outcome" where
  "sample_key_file p = Ok (the (keygen_cmd sample_circl default_tags 3))"

section \<open>Properties\<close>

text \<open>
  C28: What \<^verbatim>\<open>keygen\<close> writes, the other commands read: \<^verbatim>\<open>keygen\<close> succeeds whenever a key can be generated, and on a file
  with its output \<^verbatim>\<open>addr\<close> prints one line, which \<^verbatim>\<open>ParseAddrBase64\<close> reads as the address of the generated key, and
  \<^verbatim>\<open>ip6-addr\<close> shows the same IPv6 address for the file as for that line.
\<close>

theorem keygen_then_addr:
  assumes "circl_marshals c" "enumerates ks (Schemes DefaultPKI)" "sponge_sized sp" "generateKey c r = Some (priv, r')"
    and "p \<noteq> ''''" "\<And>data. keygen_cmd c ks r = Some data \<Longrightarrow> readFile p = Ok data"
  shows "\<exists>data i line. keygen_cmd c ks r = Some data \<and> NewID c sp ks (private_Public c priv) = Some i \<and>
     addr_cmd c sp ks readFile p = Ok (line @ [CHR 0x0A]) \<and> ParseAddrBase64 line = Ok i \<and>
     ip6_addr_cmd c sp ks readFile p [] = ip6_addr_cmd c sp ks readFile '''' [line]"
proof -
  obtain s where s: "priv = BasePrivate Ed25519 s" using generateKey_base [OF assms(4)] by blast
  obtain i where i: "NewID c sp ks (private_Public c priv) = Some i" "is_addr i"
    using NewID_base [OF assms(1-3)] by (auto simp: s)
  obtain data where data: "keygen_cmd c ks r = Some data" using keygen_succeeds [OF assms(1,2,4)] by blast
  note load = load_keygen [where readFile = readFile and p = p, OF assms(1,2,4) data assms(6) [OF data]]
  have parse: "ParseAddrBase64 (MarshalText i) = Ok i"
    using UnmarshalText_MarshalText [OF is_addr_zero i(2)] by (simp add: ParseAddrBase64_def)
  show ?thesis
    by (rule exI [of _ data], rule exI [of _ i], rule exI [of _ "MarshalText i"])
      (simp add: addr_cmd_def ip6_addr_cmd_def load parse data i(1) assms(5))
qed

theorem keygen_then_addr_witness:
  "\<exists>data i line. keygen_cmd sample_circl default_tags 3 = Some data \<and>
     NewID sample_circl sample_sponge default_tags (private_Public sample_circl (BasePrivate Ed25519 True)) = Some i \<and>
     addr_cmd sample_circl sample_sponge default_tags sample_key_file ''key'' = Ok (line @ [CHR 0x0A]) \<and> ParseAddrBase64 line = Ok i \<and>
     ip6_addr_cmd sample_circl sample_sponge default_tags sample_key_file ''key'' [] =
     ip6_addr_cmd sample_circl sample_sponge default_tags sample_key_file '''' [line]"
proof (rule keygen_then_addr [OF sample_circl_marshals default_tags_enumerates])
  show "sponge_sized sample_sponge" by (auto simp: sponge_sized_def sample_sponge_def)
  show "generateKey sample_circl 3 = Some (BasePrivate Ed25519 True, 4)"
    by (simp add: generateKey_def pki_GenerateKey_def DefaultPKI_def tag_defs sample_circl_def)
qed (simp_all add: sample_key_file_def)

text \<open>
  Two \<^verbatim>\<open>nc\<close> commands carry text: if the input is made of lines that are shorter than the scanner's buffer and do not end
  in a carriage return, and no send fails, then one side sends every line in order, and the other side writes exactly the
  input, whatever other messages arrive in between.
\<close>

theorem nc_carries_lines:
  assumes "\<forall>l \<in> set ls. 10 \<notin> set l \<and> length l < 65536 \<and> (l = [] \<or> last l \<noteq> 13)" "\<forall>l \<in> set ls. send b l = Ok ()"
    and "map m_Payload (filter (\<lambda>m. m_Src m = a) msgs) = map snd out"
    and "nc_send send b (fst (scan_lines input)) (snd (scan_lines input)) = (out, res)" "input = concat (map (\<lambda>l. l @ [10]) ls)"
  shows "out = map (Pair b) ls \<and> res = Ok () \<and> nc_receive a (map Inr msgs) = (input, None)"
proof -
  have out: "out = map (Pair b) ls \<and> res = Ok ()"
    using assms(4,5) by (simp add: scan_lines_text [OF assms(1)] nc_send_ok assms(2))
  have "concat (map (\<lambda>m. m_Payload m @ [10]) (filter (\<lambda>m. m_Src m = a) msgs)) =
      concat (map (\<lambda>l. l @ [10]) (map m_Payload (filter (\<lambda>m. m_Src m = a) msgs)))" by (simp add: comp_def)
  also have "\<dots> = input" using assms(3,5) out by (simp add: comp_def)
  finally show ?thesis using out by (simp add: nc_receive_only_remote)
qed

theorem nc_carries_lines_witness:
  "nc_receive (sample_ID True) (map Inr
     [\<lparr>m_Src = sample_ID True, m_Dst = sample_ID False, m_Payload = [104, 105]\<rparr>,
      \<lparr>m_Src = sample_ID False, m_Dst = sample_ID False, m_Payload = [1]\<rparr>,
      \<lparr>m_Src = sample_ID True, m_Dst = sample_ID False, m_Payload = []\<rparr>]) = ([104, 105, 10, 10], None :: unit option)"
proof -
  let ?input = "[104, 105, 10, 10] :: bytes" and ?send = "\<lambda>a l. Ok () :: (unit, unit) outcome"
  let ?msgs = "[\<lparr>m_Src = sample_ID True, m_Dst = sample_ID False, m_Payload = [104, 105]\<rparr>,
     \<lparr>m_Src = sample_ID False, m_Dst = sample_ID False, m_Payload = [1]\<rparr>,
     \<lparr>m_Src = sample_ID True, m_Dst = sample_ID False, m_Payload = []\<rparr>]"
  have ids: "sample_ID False \<noteq> sample_ID True" by code_simp
  have lines: "scan_lines ?input = ([[104, 105], []], True)" using scan_lines_text [of "[[104, 105], []]"] by simp
  show ?thesis
  proof (rule nc_carries_lines [THEN conjunct2, THEN conjunct2])
    show "\<forall>l \<in> set [[104, 105], []]. 10 \<notin> set l \<and> length l < 65536 \<and> (l = [] \<or> last l \<noteq> (13 :: 8 word))" by simp
    show "\<forall>l \<in> set [[104, 105], []]. ?send (sample_ID False) l = Ok ()" by simp
    show "map m_Payload (filter (\<lambda>m. m_Src m = sample_ID True) ?msgs) = map snd [(sample_ID False, [104, 105]), (sample_ID False, [])]"
      by (simp only: filter.simps message.simps ids simp_thms if_True if_False list.map prod.sel)
    show "nc_send ?send (sample_ID False) (fst (scan_lines ?input)) (snd (scan_lines ?input)) =
        ([(sample_ID False, [104, 105]), (sample_ID False, [])], Ok () :: ((unit, unit) cmd_error, unit) outcome)"
      by (simp only: lines fst_conv snd_conv nc_send.simps outcome.case prod.case if_True)
    show "?input = concat (map (\<lambda>l. l @ [10]) [[104, 105], []])" by simp
  qed
qed

text \<open>
  Standard input and output belong to one connection at a time: at most one is open, its \<^verbatim>\<open>Close\<close> never blocks, and
  while it is open no waiting call gets another.
\<close>

theorem stdio_exclusive:
  assumes "rw_step\<^sup>*\<^sup>* newRWBackend b"
  shows "rw_conns b \<le> 1 \<and> (rw_conns b = 1 \<longleftrightarrow> rw_sem b = 1) \<and> (0 < rw_conns b \<longrightarrow> (\<forall>b'. rw_step b b' \<longrightarrow> rw_conns b' \<le> rw_conns b))"
  using rw_invariant [OF assms] by (auto elim!: rw_step.cases)

text \<open>A run of \<^verbatim>\<open>listen\<close> that gets as far as serving has a backend for every argument and no other.\<close>

theorem listen_serves_arguments:
  fixes newNode :: "'s private_key \<Rightarrow> ('n, 'h) outcome" and readFile :: "string \<Rightarrow> ('e, bytes) outcome"
  assumes "listen_cmd c readFile newNode parseAddrPort protocol path args = Ok (Some (node, bal))"
  shows "dom (lb_backends bal) = set args \<and> protocol = ''utp''"
proof -
  obtain priv where "(case newNode priv of Err e \<Rightarrow> Ok None | Panic \<Rightarrow> Panic
      | Ok node \<Rightarrow> obind (err_map BackendFailed (listen_backends parseAddrPort args)) (\<lambda>bal.
          obind (err_map BackendFailed (MakeStreamFrontend protocol)) (\<lambda>_. Ok (Some (node, bal))))) =
      (Ok (Some (node, bal)) :: (('e, 'n) cmd_error, _) outcome)"
    using assms by (auto simp: listen_cmd_def outcome_simps split: if_splits)
  then have "listen_backends parseAddrPort args = Ok bal" "protocol = ''utp''"
    by (cases "newNode priv"; auto simp: MakeStreamFrontend_def outcome_simps split: if_splits)+
  then show ?thesis by (simp add: listen_backends_dom)
qed

text \<open>
  If the node cannot be opened, \<^verbatim>\<open>dial\<close> and \<^verbatim>\<open>listen\<close> end without doing anything and without an error.
\<close>

theorem node_error_is_hidden:
  assumes "readFile path = Ok data" "ParsePrivateKey c data = Ok priv" "newNode priv = Err e" "path \<noteq> ''''" "ParseAddrBase64 arg = Ok dst"
  shows "dial_cmd c readFile newNode utp_Open ''utp'' path arg = Ok None \<and>
     listen_cmd c readFile newNode parseAddrPort protocol path args = Ok None"
  using assms by (simp add: dial_cmd_def listen_cmd_def loadPrivateKeyFromFile_def)

text \<open>\<^verbatim>\<open>echo\<close> returns every message to its sender, in order, and an error of a send does not stop it.\<close>

theorem echo_answers:
  "echo_loop (map Inr xs @ [Inl e]) = (map (\<lambda>(msg, sent). (m_Src msg, m_Payload msg)) (filter (\<lambda>(msg, sent). sent = Inr ()) xs), Some e)"
  by (induction xs) (auto split: sum.splits)

end
