(* ===== verification/Suite.thy ===== *)
theory Suite
  imports Services "HOL-Library.List_Lexorder"
begin

text \<open>
  The test suite that every implementation of \<^verbatim>\<open>inet256.Service\<close> has to pass (\<^verbatim>\<open>src/inet256tests\<close>), as executable tests
  over the operations of a service and its nodes. The locale \<open>conforming\<close> is the contract of such a service: under
  it the suite passes, for every order of the pairs and every interleaving of the sender with the receiver. It is
  interpreted on the memory service, and on reference counting in front of the memory service.
\<close>

section \<open>Services and nodes\<close>

text \<open>
  \<^verbatim>\<open>inet256.Service\<close> and \<^verbatim>\<open>inet256.Node\<close>, for a number of services that share the state \<open>'s\<close>; the first argument
  of \<open>sa_Open\<close> and \<open>sa_Drop\<close> is the number of the service. \<open>sa_Receive\<close> is \<open>None\<close> while the call blocks; \<open>sa_Drop\<close> and
  \<open>sa_Close\<close> are \<open>None\<close> when they panic.
\<close>

record ('s, 'k, 'h, 'p, 'e) service_api =
  sa_Open :: "nat \<Rightarrow> 'k \<Rightarrow> 's \<Rightarrow> ('e, 's \<times> 'h) outcome"
  sa_Drop :: "nat \<Rightarrow> 'k \<Rightarrow> 's \<Rightarrow> ('s \<times> 'e option) option"
  sa_Close :: "'h \<Rightarrow> 's \<Rightarrow> ('s \<times> 'e option) option"
  sa_LocalAddr :: "'h \<Rightarrow> addr option"
  sa_PublicKey :: "'h \<Rightarrow> 'p public_key"
  sa_Send :: "'h \<Rightarrow> addr \<Rightarrow> bytes \<Rightarrow> 's \<Rightarrow> ('e, 's) outcome"
  sa_Receive :: "'h \<Rightarrow> 's \<Rightarrow> ('s \<times> ('e, message) outcome) option"
  sa_FindAddr :: "'h \<Rightarrow> bytes \<Rightarrow> int \<Rightarrow> 's \<Rightarrow> ('e, addr) outcome"
  sa_LookupPublicKey :: "'h \<Rightarrow> addr \<Rightarrow> 's \<Rightarrow> ('e, 'p public_key) outcome"

section \<open>The tests\<close>

text \<open>A test that fails stops, which is \<open>None\<close>.\<close>

definition NoError :: "('e, 'a) outcome \<Rightarrow> 'a option" where
  "NoError r = (case r of Ok x \<Rightarrow> Some x | _ \<Rightarrow> None)"

definition NilError :: "('s \<times> 'e option) option \<Rightarrow> 's option" where
  "NilError r = (case r of Some (s, None) \<Rightarrow> Some s | _ \<Rightarrow> None)"

definition require :: "bool \<Rightarrow> 'a \<Rightarrow> 'a option" where
  "require b x = (if b then Some x else None)"

definition test_data :: bytes where "test_data = bytes_of_string ''test data''"

text \<open>
  The goroutines of \<^verbatim>\<open>TestSendRecvOne\<close>: the receiver may have taken a message before the sender runs (\<open>early\<close>), if
  there is one. A receiver that is still waiting after the send fails at the timeout.
\<close>

definition TestSendRecvOne :: "('s, 'k, 'h, 'p, 'e) service_api \<Rightarrow> bool \<Rightarrow> 'h \<Rightarrow> 'h \<Rightarrow> 's \<Rightarrow> 's option" where
  "TestSendRecvOne S early src dst s =
     Option.bind (sa_LocalAddr S dst) (\<lambda>addr.
     Option.bind
       (case (if early then sa_Receive S dst s else None) of
          Some (s1, r) \<Rightarrow> Option.bind (NoError (sa_Send S src addr test_data s1)) (\<lambda>s2. Some (s2, r))
        | None \<Rightarrow> Option.bind (NoError (sa_Send S src addr test_data s)) (sa_Receive S dst)) (\<lambda>(s', r).
     Option.bind (NoError r) (\<lambda>recieved.
       require (m_Payload recieved = test_data \<and> m_Dst recieved = addr) s')))"

text \<open>The pairs in the order in which they are visited: \<open>p\<close> and \<open>q i\<close> are the permutations that are drawn.\<close>

definition randomPairs :: "nat list \<Rightarrow> (nat \<Rightarrow> nat list) \<Rightarrow> (nat \<times> nat) list" where
  "randomPairs p q = concat (map (\<lambda>i. map (Pair i) (filter (\<lambda>j. i \<noteq> j) (q i))) p)"

fun send_pairs :: "('s, 'k, 'h, 'p, 'e) service_api \<Rightarrow> (nat \<Rightarrow> nat \<Rightarrow> bool) \<Rightarrow> 'h list \<Rightarrow> (nat \<times> nat) list \<Rightarrow> 's \<Rightarrow> 's option" where
  "send_pairs S early nodes [] s = Some s"
| "send_pairs S early nodes ((i, j) # ps) s =
     Option.bind (TestSendRecvOne S (early i j) (nodes ! i) (nodes ! j) s) (send_pairs S early nodes ps)"

fun open_nodes :: "('s, 'k, 'h, 'p, 'e) service_api \<Rightarrow> (nat \<times> 'k) list \<Rightarrow> 's \<Rightarrow> ('s \<times> 'h list) option" where
  "open_nodes S [] s = Some (s, [])"
| "open_nodes S ((x, pk) # xs) s =
     Option.bind (NoError (sa_Open S x pk s)) (\<lambda>(s1, n).
     Option.bind (open_nodes S xs s1) (\<lambda>(s2, ns). Some (s2, n # ns)))"

definition OpenNode :: "('s, 'k, 'h, 'p, 'e) service_api \<Rightarrow> (nat \<Rightarrow> 'k) \<Rightarrow> nat \<Rightarrow> nat \<Rightarrow> 's \<Rightarrow> ('s \<times> 'h) option" where
  "OpenNode S key x i s = NoError (sa_Open S x (key i) s)"

definition testServerSend ::
  "('s, 'k, 'h, 'p, 'e) service_api \<Rightarrow> (nat \<Rightarrow> 'k) \<Rightarrow> (nat \<Rightarrow> nat \<Rightarrow> bool) \<Rightarrow> (nat \<times> nat) list \<Rightarrow> 's \<Rightarrow> bool" where
  "testServerSend S key early pairs s =
     (Option.bind (open_nodes S (map (\<lambda>i. (0, key i)) [0..<5]) s) (\<lambda>(s1, nodes). send_pairs S early nodes pairs s1) \<noteq> None)"

definition testMultipleServers ::
  "('s, 'k, 'h, 'p, 'e) service_api \<Rightarrow> nat \<Rightarrow> (nat \<Rightarrow> 'k) \<Rightarrow> (nat \<Rightarrow> nat \<Rightarrow> bool) \<Rightarrow> (nat \<times> nat) list \<Rightarrow> 's \<Rightarrow> bool" where
  "testMultipleServers S srvs key early pairs s =
     (Option.bind (open_nodes S (concat (map (\<lambda>i. map (\<lambda>j. (i, key (i * 5 + j))) [0..<5]) [0..<srvs])) s)
        (\<lambda>(s1, nodes). send_pairs S early nodes pairs s1) \<noteq> None)"

definition testLoopback :: "('s, 'k, 'h, 'p, 'e) service_api \<Rightarrow> (nat \<Rightarrow> 'k) \<Rightarrow> (nat \<Rightarrow> nat \<Rightarrow> bool) \<Rightarrow> 's \<Rightarrow> bool" where
  "testLoopback S key early s =
     (Option.bind (OpenNode S key 0 1 s) (\<lambda>(s1, n1).
      Option.bind (OpenNode S key 1 2 s1) (\<lambda>(s2, n2).
      Option.bind (TestSendRecvOne S (early 1 1) n1 n1 s2) (\<lambda>s3.
      TestSendRecvOne S (early 2 2) n2 n2 s3))) \<noteq> None)"

definition testFindAddr :: "('s, 'k, 'h, 'p, 'e) service_api \<Rightarrow> (nat \<Rightarrow> 'k) \<Rightarrow> 's \<Rightarrow> bool" where
  "testFindAddr S key s =
     (Option.bind (OpenNode S key 0 1 s) (\<lambda>(s1, n1).
      Option.bind (OpenNode S key 1 2 s1) (\<lambda>(s2, n2).
      Option.bind (sa_LocalAddr S n2) (\<lambda>n2Addr.
      Option.bind (NoError (sa_FindAddr S n1 (take 1 n2Addr) 7 s2)) (\<lambda>addr.
      require (addr = n2Addr) ())))) \<noteq> None)"

text \<open>\<open>marshal\<close> is \<^verbatim>\<open>MarshalPublicKey(nil, _)\<close>.\<close>

definition testLookupPublicKey ::
  "('s, 'k, 'h, 'p, 'e) service_api \<Rightarrow> ('p public_key \<Rightarrow> bytes option) \<Rightarrow> (nat \<Rightarrow> 'k) \<Rightarrow> 's \<Rightarrow> bool" where
  "testLookupPublicKey S marshal key s =
     (Option.bind (OpenNode S key 0 1 s) (\<lambda>(s1, n1).
      Option.bind (OpenNode S key 1 2 s1) (\<lambda>(s2, n2).
      Option.bind (sa_LocalAddr S n2) (\<lambda>n2Addr.
      Option.bind (NoError (sa_LookupPublicKey S n1 n2Addr s2)) (\<lambda>pubKey.
      Option.bind (marshal (sa_PublicKey S n2)) (\<lambda>a.
      Option.bind (marshal pubKey) (\<lambda>b. require (a = b) ())))))) \<noteq> None)"

definition testReOpen :: "('s, 'k, 'h, 'p, 'e) service_api \<Rightarrow> (nat \<Rightarrow> 'k) \<Rightarrow> 's \<Rightarrow> bool" where
  "testReOpen S key s =
     (Option.bind (NoError (sa_Open S 0 (key 1) s)) (\<lambda>(s1, n).
      Option.bind (NilError (sa_Close S n s1)) (\<lambda>s2.
      Option.bind (NoError (sa_Open S 0 (key 1) s2)) (\<lambda>(s3, n).
      Option.bind (NilError (sa_Drop S 0 (key 1) s3)) (\<lambda>s4.
      OpenNode S key 0 1 s4)))) \<noteq> None)"

text \<open>Every test starts with the state of new services.\<close>

definition TestService ::
  "('s, 'k, 'h, 'p, 'e) service_api \<Rightarrow> ('p public_key \<Rightarrow> bytes option) \<Rightarrow> (nat \<Rightarrow> 'k) \<Rightarrow> (nat \<Rightarrow> nat \<Rightarrow> bool) \<Rightarrow>
   (nat \<times> nat) list \<Rightarrow> (nat \<times> nat) list \<Rightarrow> 's \<Rightarrow> bool" where
  "TestService S marshal key early pairs5 pairs10 s \<longleftrightarrow>
     testServerSend S key early pairs5 s \<and> testMultipleServers S 2 key early pairs10 s \<and> testLoopback S key early s \<and>
     testFindAddr S key s \<and> testLookupPublicKey S marshal key s \<and> testReOpen S key s"

text \<open>The keys of all servers, in order.\<close>

lemma server_keys:
  "map snd (concat (map (\<lambda>i. map (\<lambda>j. (i, key (i * 5 + j))) [0..<5]) [0..<srvs])) = map key [0..<srvs * 5]"
proof (induction srvs)
  case (Suc n)
  have "[0..<Suc n * 5] = [0..<n * 5] @ [n * 5..<n * 5 + 5]" using upt_add_eq_append [of 0 "n * 5" 5] by (simp add: add.commute)
  moreover have "[n * 5..<n * 5 + 5] = map (\<lambda>j. n * 5 + j) [0..<5]" using map_add_upt [of "n * 5" 5] by (simp add: add.commute)
  ultimately show ?case using Suc.IH by (simp add: upt_Suc_append comp_def del: upt_Suc)
qed simp

lemma first_byte_prefix:
  assumes "is_addr a"
  shows "id_HasPrefix a (take 1 a) 7"
proof -
  obtain x xs where a: "a = x # xs" "length xs = 31" using assms by (cases a) (auto simp: is_addr_def AddrSize_def)
  have "take 7 (bits_msb (x # xs)) = take 7 (bits_msb [x])" by (rule nth_equalityI) (auto simp: byte_bits_def a(2))
  with id_HasPrefix_bits [of 7 a "take 1 a"] a show ?thesis by simp
qed

section \<open>Reference counting in front of services\<close>

text \<open>
  Several servers of \<^verbatim>\<open>rcsrv\<close> in front of one service, each with its own table: a node is the number of its server
  and the node behind it, whose operations other than \<^verbatim>\<open>Close\<close> it inherits.
\<close>

definition svc_of :: "('s, 'k, 'h, 'p, 'e) service_api \<Rightarrow> ('k \<Rightarrow> addr option) \<Rightarrow> nat \<Rightarrow> ('s, 'k, 'h, 'e) service_ops" where
  "svc_of S keyID x = \<lparr>sv_ID = keyID, sv_Open = sa_Open S x, sv_Close = sa_Close S, sv_LocalAddr = sa_LocalAddr S\<rparr>"

type_synonym ('s, 'h) rc_world = "'s \<times> (nat \<Rightarrow> addr \<rightharpoonup> 'h \<times> int)"

definition rc_at :: "nat \<Rightarrow> ('s, 'h) rc_world \<Rightarrow> ('s, 'h) rc_server" where
  "rc_at x w = \<lparr>rc_service = fst w, rc_nodes = snd w x\<rparr>"

definition rc_put :: "nat \<Rightarrow> ('s, 'h) rc_server \<Rightarrow> ('s, 'h) rc_world \<Rightarrow> ('s, 'h) rc_world" where
  "rc_put x r w = (rc_service r, (snd w)(x := rc_nodes r))"

definition rc_api ::
  "('s, 'k, 'h, 'p, 'e) service_api \<Rightarrow> ('k \<Rightarrow> addr option) \<Rightarrow> (('s, 'h) rc_world, 'k, nat \<times> 'h, 'p, 'e) service_api" where
  "rc_api S keyID = \<lparr>
     sa_Open = (\<lambda>x k w. obind (rc_Open (svc_of S keyID x) k (rc_at x w)) (\<lambda>(r, h). Ok (rc_put x r w, (x, h)))),
     sa_Drop = (\<lambda>x k w. map_option (\<lambda>(r, e). (rc_put x r w, e)) (rc_Drop (svc_of S keyID x) k (rc_at x w))),
     sa_Close = (\<lambda>(x, h) w. map_option (\<lambda>(r, e). (rc_put x r w, e)) (rc_Close (svc_of S keyID x) h (rc_at x w))),
     sa_LocalAddr = (\<lambda>(x, h). sa_LocalAddr S h),
     sa_PublicKey = (\<lambda>(x, h). sa_PublicKey S h),
     sa_Send = (\<lambda>(x, h) dst data w. obind (sa_Send S h dst data (fst w)) (\<lambda>s. Ok (s, snd w))),
     sa_Receive = (\<lambda>(x, h) w. map_option (\<lambda>(s, r). ((s, snd w), r)) (sa_Receive S h (fst w))),
     sa_FindAddr = (\<lambda>(x, h) pfx nbits w. sa_FindAddr S h pfx nbits (fst w)),
     sa_LookupPublicKey = (\<lambda>(x, h) target w. sa_LookupPublicKey S h target (fst w))\<rparr>"

text \<open>The node that some server has under an address, and tables that agree with the nodes of the service.\<close>

definition rc_opened :: "('s, 'h) rc_world \<Rightarrow> addr \<rightharpoonup> nat \<times> 'h" where
  "rc_opened w i = (if \<exists>x. snd w x i \<noteq> None then let x = (THE x. snd w x i \<noteq> None) in Some (x, fst (the (snd w x i))) else None)"

definition rc_tables :: "(addr \<rightharpoonup> 'h) \<Rightarrow> (nat \<Rightarrow> addr \<rightharpoonup> 'h \<times> int) \<Rightarrow> bool" where
  "rc_tables nodes f \<longleftrightarrow>
     (\<forall>x i h n. f x i = Some (h, n) \<longrightarrow> n = 1 \<and> nodes i = Some h) \<and>
     (\<forall>x y i. f x i \<noteq> None \<longrightarrow> f y i \<noteq> None \<longrightarrow> x = y) \<and>
     (\<forall>i. nodes i \<noteq> None \<longrightarrow> (\<exists>x. f x i \<noteq> None))"

lemma rc_opened_iff:
  assumes "rc_tables nodes (snd w)"
  shows "rc_opened w i = Some (x, h) \<longleftrightarrow> snd w x i = Some (h, 1)" "rc_opened w i = None \<longleftrightarrow> nodes i = None"
    and "rc_opened w i = Some (x, h) \<Longrightarrow> nodes i = Some h"
proof -
  have the: "(THE x. snd w x i \<noteq> None) = y" if "snd w y i \<noteq> None" for y
    using assms that unfolding rc_tables_def by (intro the_equality) blast+
  have one: "n = 1 \<and> nodes i = Some h'" if "snd w y i = Some (h', n)" for y h' n using assms that unfolding rc_tables_def by blast
  show iff: "rc_opened w i = Some (x, h) \<longleftrightarrow> snd w x i = Some (h, 1)"
  proof
    assume o: "rc_opened w i = Some (x, h)"
    then obtain y where y: "snd w y i \<noteq> None" by (auto simp: rc_opened_def split: if_splits)
    with o the [OF y] have "x = y" "h = fst (the (snd w y i))" by (auto simp: rc_opened_def Let_def split: if_splits)
    with y one show "snd w x i = Some (h, 1)" by (metis option.exhaust_sel prod.collapse)
  next
    assume "snd w x i = Some (h, 1)"
    with the [of x] show "rc_opened w i = Some (x, h)" by (auto simp: rc_opened_def Let_def)
  qed
  show "nodes i = Some h" if "rc_opened w i = Some (x, h)" using iff one that by blast
  show "rc_opened w i = None \<longleftrightarrow> nodes i = None"
    using assms unfolding rc_opened_def rc_tables_def by (auto simp: Let_def)
qed

lemma rc_opened_cong: "(\<And>y. snd w y j = snd w' y j) \<Longrightarrow> rc_opened w j = rc_opened w' j"
  by (simp add: rc_opened_def)

lemma rc_tables_add:
  assumes "rc_tables nodes f" "nodes i = None"
  shows "rc_tables (nodes(i \<mapsto> h)) (f(x := (f x)(i \<mapsto> (h, 1))))"
    and "rc_opened (s', f(x := (f x)(i \<mapsto> (h, 1)))) = (rc_opened (s, f))(i \<mapsto> (x, h))"
proof -
  have free: "f y i = None" for y using assms unfolding rc_tables_def by (metis option.distinct(1) option.exhaust prod.exhaust)
  show tables: "rc_tables (nodes(i \<mapsto> h)) (f(x := (f x)(i \<mapsto> (h, 1))))"
    using assms(1) free unfolding rc_tables_def by (auto split: if_splits) metis+
  show "rc_opened (s', f(x := (f x)(i \<mapsto> (h, 1)))) = (rc_opened (s, f))(i \<mapsto> (x, h))"
  proof
    fix j
    show "rc_opened (s', f(x := (f x)(i \<mapsto> (h, 1)))) j = ((rc_opened (s, f))(i \<mapsto> (x, h))) j"
      using rc_opened_iff(1) [of "nodes(i \<mapsto> h)" "(s', f(x := (f x)(i \<mapsto> (h, 1))))" i x h] tables
        rc_opened_cong [of "(s', f(x := (f x)(i \<mapsto> (h, 1))))" j "(s, f)"] by (cases "j = i") simp_all
  qed
qed

lemma rc_tables_remove:
  assumes "rc_tables nodes f" "f x i = Some (h, 1)"
  shows "rc_tables (nodes(i := None)) (f(x := (f x)(i := None)))"
    and "rc_opened (s', f(x := (f x)(i := None))) = (rc_opened (s, f))(i := None)"
proof -
  have other: "f y i = None" if "y \<noteq> x" for y using assms that unfolding rc_tables_def by (metis option.distinct(1))
  show tables: "rc_tables (nodes(i := None)) (f(x := (f x)(i := None)))"
    using assms(1) other unfolding rc_tables_def by (auto split: if_splits) metis+
  show "rc_opened (s', f(x := (f x)(i := None))) = (rc_opened (s, f))(i := None)"
  proof
    fix j
    show "rc_opened (s', f(x := (f x)(i := None))) j = ((rc_opened (s, f))(i := None)) j"
      using rc_opened_iff(2) [of "nodes(i := None)" "(s', f(x := (f x)(i := None)))" i] tables
        rc_opened_cong [of "(s', f(x := (f x)(i := None)))" j "(s, f)"] by (cases "j = i") simp_all
  qed
qed

section \<open>The contract\<close>

text \<open>
  A service that conforms: \<open>opened\<close> are its open nodes by address, \<open>inbox\<close> the messages a node has not received
  yet and \<open>home\<close> tells on which service a node was opened; \<open>good\<close> are the keys it supports and \<open>ID\<close> their addresses.
\<close>

locale conforming =
  fixes S :: "('s, 'k, 'h, 'p, 'e) service_api" and marshal :: "'p public_key \<Rightarrow> bytes option"
    and good :: "'k \<Rightarrow> bool" and ID :: "'k \<Rightarrow> addr" and wf :: "'s \<Rightarrow> bool" and opened :: "'s \<Rightarrow> addr \<rightharpoonup> 'h"
    and inbox :: "'s \<Rightarrow> 'h \<Rightarrow> message list" and home :: "'h \<Rightarrow> nat \<Rightarrow> bool"
  assumes api_Open: "wf s \<Longrightarrow> good k \<Longrightarrow> opened s (ID k) = None \<Longrightarrow>
        \<exists>s' h. sa_Open S x k s = Ok (s', h) \<and> wf s' \<and> opened s' = (opened s)(ID k \<mapsto> h) \<and> inbox s' h = [] \<and> home h x \<and>
          (\<forall>i h'. opened s i = Some h' \<longrightarrow> inbox s' h' = inbox s h')"
    and api_Close: "wf s \<Longrightarrow> opened s i = Some h \<Longrightarrow> \<exists>s'. sa_Close S h s = Some (s', None) \<and> wf s' \<and> opened s' = (opened s)(i := None)"
    and api_Drop: "wf s \<Longrightarrow> good k \<Longrightarrow> opened s (ID k) = Some h \<Longrightarrow> home h x \<Longrightarrow>
        \<exists>s'. sa_Drop S x k s = Some (s', None) \<and> wf s' \<and> opened s' = (opened s)(ID k := None)"
    and api_LocalAddr: "wf s \<Longrightarrow> opened s i = Some h \<Longrightarrow> sa_LocalAddr S h = Some i"
    and api_Send: "wf s \<Longrightarrow> opened s i = Some src \<Longrightarrow> opened s j = Some dst \<Longrightarrow> inbox s dst = [] \<Longrightarrow>
        \<exists>s'. sa_Send S src j data s = Ok s' \<and> wf s' \<and> opened s' = opened s \<and>
          inbox s' dst = [\<lparr>m_Src = i, m_Dst = j, m_Payload = data\<rparr>] \<and>
          (\<forall>i' h'. opened s i' = Some h' \<longrightarrow> i' \<noteq> j \<longrightarrow> inbox s' h' = inbox s h')"
    and api_Receive: "wf s \<Longrightarrow> opened s i = Some h \<Longrightarrow> inbox s h = m # ms \<Longrightarrow>
        \<exists>s'. sa_Receive S h s = Some (s', Ok m) \<and> wf s' \<and> opened s' = opened s \<and> inbox s' h = ms \<and>
          (\<forall>i' h'. opened s i' = Some h' \<longrightarrow> i' \<noteq> i \<longrightarrow> inbox s' h' = inbox s h')"
    and api_Receive_blocks: "wf s \<Longrightarrow> opened s i = Some h \<Longrightarrow> inbox s h = [] \<Longrightarrow> sa_Receive S h s = None"
    and api_FindAddr: "wf s \<Longrightarrow> opened s i = Some h \<Longrightarrow> opened s a \<noteq> None \<Longrightarrow> id_HasPrefix a pfx n \<Longrightarrow>
        \<exists>b. sa_FindAddr S h pfx n s = Ok b \<and> opened s b \<noteq> None \<and> id_HasPrefix b pfx n"
    and api_LookupPublicKey: "wf s \<Longrightarrow> opened s i = Some h \<Longrightarrow> opened s j = Some d \<Longrightarrow>
        sa_LookupPublicKey S h j s = Ok (sa_PublicKey S d) \<and> marshal (sa_PublicKey S d) \<noteq> None"
begin

text \<open>Between two exchanges no message is waiting.\<close>

definition quiet :: "'s \<Rightarrow> bool" where
  "quiet s \<longleftrightarrow> wf s \<and> (\<forall>i h. opened s i = Some h \<longrightarrow> inbox s h = [])"

lemma deliver_one:
  assumes "quiet s" "opened s i = Some src" "opened s j = Some dst"
  shows "\<exists>s1 s2. sa_Send S src j data s = Ok s1 \<and> sa_Receive S dst s1 = Some (s2, Ok \<lparr>m_Src = i, m_Dst = j, m_Payload = data\<rparr>) \<and>
     quiet s2 \<and> opened s2 = opened s"
proof -
  have wf: "wf s" and empty: "inbox s dst = []" using assms by (auto simp: quiet_def)
  obtain s1 where s1: "sa_Send S src j data s = Ok s1" "wf s1" "opened s1 = opened s"
      "inbox s1 dst = [\<lparr>m_Src = i, m_Dst = j, m_Payload = data\<rparr>]"
      "\<forall>i' h'. opened s i' = Some h' \<longrightarrow> i' \<noteq> j \<longrightarrow> inbox s1 h' = inbox s h'"
    using api_Send [OF wf assms(2,3) empty] by blast
  obtain s2 where s2: "sa_Receive S dst s1 = Some (s2, Ok \<lparr>m_Src = i, m_Dst = j, m_Payload = data\<rparr>)" "wf s2" "opened s2 = opened s1"
      "inbox s2 dst = []" "\<forall>i' h'. opened s1 i' = Some h' \<longrightarrow> i' \<noteq> j \<longrightarrow> inbox s2 h' = inbox s1 h'"
    using api_Receive [OF s1(2) _ s1(4), of j] assms(3) s1(3) by auto
  have "inbox s2 h = []" if "opened s2 k = Some h" for k h
    using that s1(3,5) s2(3-5) assms(1,3) by (cases "k = j") (auto simp: quiet_def)
  with s1 s2 show ?thesis by (auto simp: quiet_def)
qed

lemma send_recv_one:
  assumes "quiet s" "opened s i = Some src" "opened s j = Some dst"
  shows "\<exists>s'. TestSendRecvOne S early src dst s = Some s' \<and> quiet s' \<and> opened s' = opened s"
proof -
  have wf: "wf s" and empty: "inbox s dst = []" using assms by (auto simp: quiet_def)
  from deliver_one [OF assms, of test_data] api_LocalAddr [OF wf assms(3)] api_Receive_blocks [OF wf assms(3) empty] show ?thesis
    by (auto simp: TestSendRecvOne_def NoError_def require_def)
qed

lemma send_pairs_ok:
  assumes "quiet s" "\<forall>n \<in> set nodes. \<exists>i. opened s i = Some n" "\<forall>(i, j) \<in> set pairs. i < length nodes \<and> j < length nodes"
  shows "\<exists>s'. send_pairs S early nodes pairs s = Some s'"
  using assms
proof (induction pairs arbitrary: s)
  case (Cons p pairs)
  obtain i j where p: "p = (i, j)" "i < length nodes" "j < length nodes" using Cons.prems(3) by (cases p) auto
  then obtain a b where "opened s a = Some (nodes ! i)" "opened s b = Some (nodes ! j)" using Cons.prems(2) nth_mem by meson
  from send_recv_one [OF Cons.prems(1) this] obtain s1 where
    "TestSendRecvOne S (early i j) (nodes ! i) (nodes ! j) s = Some s1" "quiet s1" "opened s1 = opened s" by blast
  with Cons.IH [of s1] Cons.prems(2,3) p(1) show ?case by auto
qed simp

lemma open_quiet:
  assumes "quiet s" "good k" "opened s (ID k) = None"
  shows "\<exists>s' h. sa_Open S x k s = Ok (s', h) \<and> quiet s' \<and> opened s' = (opened s)(ID k \<mapsto> h) \<and> home h x"
proof -
  have "wf s" using assms(1) by (simp add: quiet_def)
  from api_Open [OF this assms(2,3), of x] assms(1) show ?thesis unfolding quiet_def by (metis fun_upd_apply option.inject)
qed

lemma open_nodes_ok:
  assumes "quiet s" "\<forall>(x, k) \<in> set xs. good k \<and> opened s (ID k) = None" "distinct (map (ID \<circ> snd) xs)"
  shows "\<exists>s' nodes. open_nodes S xs s = Some (s', nodes) \<and> quiet s' \<and> length nodes = length xs \<and>
     (\<forall>n \<in> set nodes. \<exists>i. opened s' i = Some n) \<and> (\<forall>i. i \<notin> (ID \<circ> snd) ` set xs \<longrightarrow> opened s' i = opened s i)"
  using assms
proof (induction xs arbitrary: s)
  case (Cons p xs)
  obtain x k where p: "p = (x, k)" by (cases p)
  obtain s1 h where s1: "sa_Open S x k s = Ok (s1, h)" "quiet s1" "opened s1 = (opened s)(ID k \<mapsto> h)"
    using open_quiet [of s k x] Cons.prems p by auto
  have free: "\<forall>(x, k) \<in> set xs. good k \<and> opened s1 (ID k) = None"
    using Cons.prems(2,3) p s1(3) by (force simp: image_iff)
  obtain s2 nodes where s2: "open_nodes S xs s1 = Some (s2, nodes)" "quiet s2" "length nodes = length xs"
      "\<forall>n \<in> set nodes. \<exists>i. opened s2 i = Some n" "\<forall>i. i \<notin> (ID \<circ> snd) ` set xs \<longrightarrow> opened s2 i = opened s1 i"
    using Cons.IH [OF s1(2) free] Cons.prems(3) by auto
  have "ID k \<notin> (ID \<circ> snd) ` set xs" using Cons.prems(3) p by auto
  then have "opened s2 (ID k) = Some h" using s2(5) s1(3) by simp
  with s1 s2 p show ?case by (auto simp: NoError_def)
qed simp

text \<open>Two nodes on two services, the start of most tests.\<close>

lemma two_nodes:
  assumes "quiet s" "opened s = Map.empty" "good (key 1)" "good (key 2)" "ID (key 1) \<noteq> ID (key 2)"
  shows "\<exists>s1 n1 s2 n2. OpenNode S key 0 1 s = Some (s1, n1) \<and> OpenNode S key 1 2 s1 = Some (s2, n2) \<and> quiet s2 \<and>
     opened s2 = [ID (key 1) \<mapsto> n1, ID (key 2) \<mapsto> n2]"
proof -
  obtain s1 n1 where s1: "sa_Open S 0 (key 1) s = Ok (s1, n1)" "quiet s1" "opened s1 = [ID (key 1) \<mapsto> n1]"
    using open_quiet [OF assms(1,3), of 0] assms(2) by auto
  moreover obtain s2 n2 where "sa_Open S 1 (key 2) s1 = Ok (s2, n2)" "quiet s2" "opened s2 = (opened s1)(ID (key 2) \<mapsto> n2)"
    using open_quiet [OF s1(2) assms(4), of 1] assms(5) s1(3) by auto
  ultimately show ?thesis by (auto simp: OpenNode_def NoError_def)
qed

lemma server_send_passes:
  assumes "quiet s" "opened s = Map.empty" "\<forall>i < 5. good (key i)" "inj_on (ID \<circ> key) {..<5}" "\<forall>(i, j) \<in> set pairs. i < 5 \<and> j < 5"
  shows "testServerSend S key early pairs s"
proof -
  let ?xs = "map (\<lambda>i. (0, key i)) [0..<5]"
  have "distinct (map (ID \<circ> snd) ?xs)" using assms(4) by (simp add: distinct_map comp_def atLeast_upt)
  then obtain s' nodes where s': "open_nodes S ?xs s = Some (s', nodes)" "quiet s'" "length nodes = 5" "\<forall>n \<in> set nodes. \<exists>i. opened s' i = Some n"
    using open_nodes_ok [OF assms(1), of ?xs] assms(2,3) by auto
  with send_pairs_ok [OF s'(2,4), of pairs early] assms(5) show ?thesis by (auto simp: testServerSend_def)
qed

lemma multiple_servers_pass:
  assumes "quiet s" "opened s = Map.empty" "\<forall>i < srvs * 5. good (key i)" "inj_on (ID \<circ> key) {..<srvs * 5}"
    and "\<forall>(i, j) \<in> set pairs. i < srvs * 5 \<and> j < srvs * 5"
  shows "testMultipleServers S srvs key early pairs s"
proof -
  let ?xs = "concat (map (\<lambda>i. map (\<lambda>j. (i, key (i * 5 + j))) [0..<5]) [0..<srvs])"
  have "distinct (map (ID \<circ> snd) ?xs)"
    using assms(4) unfolding map_map [symmetric] server_keys by (simp add: distinct_map comp_def atLeast_upt)
  moreover have "\<forall>(x, k) \<in> set ?xs. good k \<and> opened s (ID k) = None" using assms(2,3) by auto
  moreover have "length ?xs = srvs * 5" using arg_cong [OF server_keys [of key srvs], of length] by simp
  ultimately obtain s' nodes where s': "open_nodes S ?xs s = Some (s', nodes)" "quiet s'" "length nodes = srvs * 5"
      "\<forall>n \<in> set nodes. \<exists>i. opened s' i = Some n"
    using open_nodes_ok [OF assms(1), of ?xs] by auto
  with send_pairs_ok [OF s'(2,4), of pairs early] assms(5) show ?thesis by (auto simp: testMultipleServers_def)
qed

lemma loopback_passes:
  assumes "quiet s" "opened s = Map.empty" "good (key 1)" "good (key 2)" "ID (key 1) \<noteq> ID (key 2)"
  shows "testLoopback S key early s"
proof -
  obtain s1 n1 s2 n2 where open12: "OpenNode S key 0 1 s = Some (s1, n1)" "OpenNode S key 1 2 s1 = Some (s2, n2)" "quiet s2"
      "opened s2 = [ID (key 1) \<mapsto> n1, ID (key 2) \<mapsto> n2]"
    using two_nodes [of s key, OF assms] by blast
  have n: "opened s2 (ID (key 1)) = Some n1" "opened s2 (ID (key 2)) = Some n2" using open12(4) assms(5) by auto
  obtain s3 where s3: "TestSendRecvOne S (early 1 1) n1 n1 s2 = Some s3" "quiet s3" "opened s3 = opened s2"
    using send_recv_one [OF open12(3) n(1,1)] by blast
  obtain s4 where "TestSendRecvOne S (early 2 2) n2 n2 s3 = Some s4"
    using send_recv_one [OF s3(2), of "ID (key 2)" n2 "ID (key 2)" n2 "early 2 2"] n(2) s3(3) by auto
  with open12 s3 show ?thesis by (simp add: testLoopback_def)
qed

lemma find_addr_passes:
  assumes "quiet s" "opened s = Map.empty" "good (key 1)" "good (key 2)" "is_addr (ID (key 2))"
    and "\<not> id_HasPrefix (ID (key 1)) (take 1 (ID (key 2))) 7"
  shows "testFindAddr S key s"
proof -
  have own: "id_HasPrefix (ID (key 2)) (take 1 (ID (key 2))) 7" by (rule first_byte_prefix [OF assms(5)])
  then have "ID (key 1) \<noteq> ID (key 2)" using assms(6) by auto
  from two_nodes [of s key, OF assms(1-4) this] obtain s1 n1 s2 n2 where
    open12: "OpenNode S key 0 1 s = Some (s1, n1)" "OpenNode S key 1 2 s1 = Some (s2, n2)" "quiet s2"
      "opened s2 = [ID (key 1) \<mapsto> n1, ID (key 2) \<mapsto> n2]" by blast
  have n: "opened s2 (ID (key 1)) = Some n1" "opened s2 (ID (key 2)) = Some n2" "wf s2"
    using open12(3,4) \<open>ID (key 1) \<noteq> ID (key 2)\<close> by (auto simp: quiet_def)
  obtain b where "sa_FindAddr S n1 (take 1 (ID (key 2))) 7 s2 = Ok b" "opened s2 b \<noteq> None" "id_HasPrefix b (take 1 (ID (key 2))) 7"
    using api_FindAddr [OF n(3,1) _ own] n(2) by auto
  moreover from this have "b = ID (key 2)" using open12(4) assms(6) by (auto split: if_splits)
  ultimately show ?thesis using open12(1,2) api_LocalAddr [OF n(3,2)] by (simp add: testFindAddr_def NoError_def require_def)
qed

lemma lookup_passes:
  assumes "quiet s" "opened s = Map.empty" "good (key 1)" "good (key 2)" "ID (key 1) \<noteq> ID (key 2)"
  shows "testLookupPublicKey S marshal key s"
proof -
  obtain s1 n1 s2 n2 where open12: "OpenNode S key 0 1 s = Some (s1, n1)" "OpenNode S key 1 2 s1 = Some (s2, n2)" "quiet s2"
      "opened s2 = [ID (key 1) \<mapsto> n1, ID (key 2) \<mapsto> n2]"
    using two_nodes [of s key, OF assms] by blast
  have n: "opened s2 (ID (key 1)) = Some n1" "opened s2 (ID (key 2)) = Some n2" "wf s2"
    using open12(3,4) assms(5) by (auto simp: quiet_def)
  with open12(1,2) api_LocalAddr [OF n(3,2)] api_LookupPublicKey [OF n(3,1,2)] show ?thesis
    by (auto simp: testLookupPublicKey_def NoError_def require_def)
qed

lemma reopen_passes:
  assumes "quiet s" "opened s = Map.empty" "good (key 1)"
  shows "testReOpen S key s"
proof -
  have wf: "wf s" using assms(1) by (simp add: quiet_def)
  obtain s1 n1 where s1: "sa_Open S 0 (key 1) s = Ok (s1, n1)" "wf s1" "opened s1 = [ID (key 1) \<mapsto> n1]"
    using api_Open [OF wf assms(3), of 0] assms(2) by auto
  obtain s2 where s2: "sa_Close S n1 s1 = Some (s2, None)" "wf s2" "opened s2 (ID (key 1)) = None"
    using api_Close [OF s1(2), of "ID (key 1)" n1] s1(3) by auto
  obtain s3 n3 where s3: "sa_Open S 0 (key 1) s2 = Ok (s3, n3)" "wf s3" "opened s3 (ID (key 1)) = Some n3" "home n3 0"
    using api_Open [OF s2(2) assms(3) s2(3), of 0] by auto
  obtain s4 where s4: "sa_Drop S 0 (key 1) s3 = Some (s4, None)" "wf s4" "opened s4 (ID (key 1)) = None"
    using api_Drop [OF s3(2) assms(3) s3(3,4)] by auto
  from api_Open [OF s4(2) assms(3) s4(3), of 0] s1 s2 s3 s4 show ?thesis
    by (auto simp: testReOpen_def NoError_def NilError_def OpenNode_def)
qed

text \<open>Servers that count references in front of a conforming service conform as well.\<close>

abbreviation rc_wf :: "('s, 'h) rc_world \<Rightarrow> bool" where
  "rc_wf w \<equiv> wf (fst w) \<and> rc_tables (opened (fst w)) (snd w)"

lemma rc_node:
  assumes "rc_wf w" "rc_opened w i = Some h"
  shows "snd w (fst h) i = Some (snd h, 1)" "opened (fst w) i = Some (snd h)" "sa_LocalAddr S (snd h) = Some i"
proof -
  show "snd w (fst h) i = Some (snd h, 1)" "opened (fst w) i = Some (snd h)"
    using assms rc_opened_iff(1,3) [of "opened (fst w)" w i "fst h" "snd h"] by simp_all
  then show "sa_LocalAddr S (snd h) = Some i" using api_LocalAddr assms(1) by blast
qed

lemma rc_Open_ok:
  assumes "rc_wf w" "good k" "keyID k = Some (ID k)" "rc_opened w (ID k) = None"
  shows "\<exists>w' h. sa_Open (rc_api S keyID) x k w = Ok (w', h) \<and> rc_wf w' \<and> rc_opened w' = (rc_opened w)(ID k \<mapsto> h) \<and>
     inbox (fst w') (snd h) = [] \<and> fst h = x \<and> (\<forall>i h'. rc_opened w i = Some h' \<longrightarrow> inbox (fst w') (snd h') = inbox (fst w) (snd h'))"
proof -
  obtain s f where w: "w = (s, f)" by (cases w)
  have tab: "wf s" "rc_tables (opened s) f" using assms(1) w by simp_all
  have free: "opened s (ID k) = None" using assms(4) tab rc_opened_iff(2) [of "opened s" w "ID k"] unfolding w by simp
  then have none: "f x (ID k) = None" using tab(2) unfolding rc_tables_def by (metis option.exhaust prod.exhaust option.distinct(1))
  obtain s' h where o: "sa_Open S x k s = Ok (s', h)" "wf s'" "opened s' = (opened s)(ID k \<mapsto> h)" "inbox s' h = []"
      "\<forall>i h'. opened s i = Some h' \<longrightarrow> inbox s' h' = inbox s h'"
    using api_Open [OF tab(1) assms(2) free, of x] by blast
  have "sa_Open (rc_api S keyID) x k w = Ok ((s', f(x := (f x)(ID k \<mapsto> (h, 1)))), (x, h))"
    using assms(3) o(1) none by (simp add: w rc_api_def rc_Open_def svc_of_def rc_at_def rc_put_def)
  moreover have "inbox s' (snd h') = inbox s (snd h')" if "rc_opened w i = Some h'" for i h'
    using o(5) rc_node(2) [OF assms(1) that] by (simp add: w)
  ultimately show ?thesis
    using o(2-4) rc_tables_add(1) [OF tab(2) free, of h x] rc_tables_add(2) [OF tab(2) free, of s' x h s]
    by (intro exI [of _ "(s', f(x := (f x)(ID k \<mapsto> (h, 1))))"] exI [of _ "(x, h)"]) (simp add: w)
qed

lemma rc_delete_ok:
  assumes "rc_wf w" "rc_opened w i = Some h" "rc_service r = fst w" "rc_nodes r i = Some (snd h, n)"
    and "\<forall>j. j \<noteq> i \<longrightarrow> rc_nodes r j = snd w (fst h) j"
  shows "\<exists>r'. rc_delete (svc_of S keyID x) i r = Some (r', None) \<and> rc_wf (rc_put (fst h) r' w) \<and>
     rc_opened (rc_put (fst h) r' w) = (rc_opened w)(i := None)"
proof -
  note n = rc_node [OF assms(1,2)]
  have tab: "wf (fst w)" "rc_tables (opened (fst w)) (snd w)" using assms(1) by simp_all
  obtain s' where s': "sa_Close S (snd h) (fst w) = Some (s', None)" "wf s'" "opened s' = (opened (fst w))(i := None)"
    using api_Close [OF tab(1) n(2)] by blast
  let ?r = "r\<lparr>rc_service := s', rc_nodes := (rc_nodes r)(i := None)\<rparr>"
  have nodes: "(rc_nodes r)(i := None) = (snd w (fst h))(i := None)" using assms(5) by auto
  have "rc_delete (svc_of S keyID x) i r = Some (?r, None)" using s'(1) assms(3,4) by (simp add: rc_delete_def svc_of_def)
  moreover have "rc_put (fst h) ?r w = (s', (snd w)(fst h := (snd w (fst h))(i := None)))" by (simp add: rc_put_def nodes)
  ultimately show ?thesis
    using s'(2,3) rc_tables_remove(1) [OF tab(2) n(1)] rc_tables_remove(2) [OF tab(2) n(1), of s' "fst w"] by simp
qed

lemma rc_keeps:
  assumes "rc_wf w" "wf s'" "opened s' = opened (fst w)" "\<forall>i' h'. opened (fst w) i' = Some h' \<longrightarrow> i' \<noteq> j \<longrightarrow> inbox s' h' = inbox (fst w) h'"
  shows "rc_wf (s', snd w)" "rc_opened (s', snd w) = rc_opened w"
    and "\<forall>i' h'. rc_opened w i' = Some h' \<longrightarrow> i' \<noteq> j \<longrightarrow> inbox s' (snd h') = inbox (fst w) (snd h')"
proof -
  show "rc_wf (s', snd w)" using assms(1-3) by simp
  show "rc_opened (s', snd w) = rc_opened w" by (rule ext, rule rc_opened_cong) simp
  show "\<forall>i' h'. rc_opened w i' = Some h' \<longrightarrow> i' \<noteq> j \<longrightarrow> inbox s' (snd h') = inbox (fst w) (snd h')"
    using assms(4) rc_node(2) [OF assms(1)] by blast
qed

lemma rc_conforming:
  "conforming (rc_api S keyID) marshal (\<lambda>k. good k \<and> keyID k = Some (ID k)) ID rc_wf rc_opened (\<lambda>w h. inbox (fst w) (snd h)) (\<lambda>h x. fst h = x)"
proof (unfold_locales, goal_cases)
  case (1 w k x)
  then show ?case using rc_Open_ok [of w k keyID x] by blast
next
  case (2 w i h)
  note n = rc_node [OF 2]
  let ?r = "(rc_at (fst h) w)\<lparr>rc_nodes := (snd w (fst h))(i \<mapsto> (snd h, 1 - 1))\<rparr>"
  from rc_delete_ok [OF 2, of ?r "1 - 1" keyID "fst h"] n(1,3) show ?case
    by (auto simp: rc_api_def rc_Close_def rc_at_def svc_of_def case_prod_beta simp del: split_paired_Ex)
next
  case (3 w k h x)
  from rc_delete_ok [OF 3(1,3), of "rc_at x w" 1 keyID x] rc_node(1) [OF 3(1,3)] 3(2,4) show ?case
    by (auto simp: rc_api_def rc_Drop_def rc_at_def svc_of_def simp del: split_paired_Ex)
next
  case (4 w i h)
  then show ?case using rc_node(3) by (simp add: rc_api_def case_prod_beta)
next
  case (5 w i src j dst data)
  from api_Send [OF _ rc_node(2) [OF 5(1,2)] rc_node(2) [OF 5(1,3)], of data] 5(1,4) obtain s' where
    s': "sa_Send S (snd src) j data (fst w) = Ok s'" "wf s'" "opened s' = opened (fst w)" "inbox s' (snd dst) = [\<lparr>m_Src = i, m_Dst = j, m_Payload = data\<rparr>]"
      "\<forall>i' h'. opened (fst w) i' = Some h' \<longrightarrow> i' \<noteq> j \<longrightarrow> inbox s' h' = inbox (fst w) h'" by blast
  with rc_keeps [OF 5(1) s'(2,3,5)] show ?case
    by (intro exI [of _ "(s', snd w)"]) (simp add: rc_api_def case_prod_beta)
next
  case (6 w i h m ms)
  from api_Receive [OF _ rc_node(2) [OF 6(1,2)] 6(3)] 6(1) obtain s' where
    s': "sa_Receive S (snd h) (fst w) = Some (s', Ok m)" "wf s'" "opened s' = opened (fst w)" "inbox s' (snd h) = ms"
      "\<forall>i' h'. opened (fst w) i' = Some h' \<longrightarrow> i' \<noteq> i \<longrightarrow> inbox s' h' = inbox (fst w) h'" by blast
  with rc_keeps [OF 6(1) s'(2,3,5)] show ?case
    by (intro exI [of _ "(s', snd w)"]) (simp add: rc_api_def case_prod_beta)
next
  case (7 w i h)
  then show ?case using api_Receive_blocks [OF _ rc_node(2) [OF 7(1,2)]] by (simp add: rc_api_def case_prod_beta)
next
  case (8 w i h a pfx n)
  then show ?case using rc_opened_iff(2) [of "opened (fst w)" w] api_FindAddr [OF _ rc_node(2) [OF 8(1,2)], of a pfx n]
    by (simp add: rc_api_def case_prod_beta)
next
  case (9 w i h j d)
  then show ?case using api_LookupPublicKey [OF _ rc_node(2) [OF 9(1,2)] rc_node(2) [OF 9(1,3)]] by (simp add: rc_api_def case_prod_beta)
qed

text \<open>The whole suite, for all orders of the pairs and all interleavings.\<close>

lemma suite_passes:
  assumes "wf s" "opened s = Map.empty" "\<forall>i < 10. good (key i)" "inj_on (ID \<circ> key) {..<10}" "is_addr (ID (key 2))"
    and "\<not> id_HasPrefix (ID (key 1)) (take 1 (ID (key 2))) 7"
    and "\<forall>(i, j) \<in> set pairs5. i < 5 \<and> j < 5" "\<forall>(i, j) \<in> set pairs10. i < 10 \<and> j < 10"
  shows "TestService S marshal key early pairs5 pairs10 s"
proof -
  have q: "quiet s" using assms(1,2) by (simp add: quiet_def)
  have k: "good (key 1)" "good (key 2)" "ID (key 1) \<noteq> ID (key 2)" using assms(3) inj_onD [OF assms(4), of 1 2] by auto
  have "inj_on (ID \<circ> key) {..<5}" using assms(4) by (rule inj_on_subset) auto
  then have "testServerSend S key early pairs5 s" using server_send_passes [OF q assms(2)] assms(3,7) by auto
  moreover have "testMultipleServers S 2 key early pairs10 s" using multiple_servers_pass [OF q assms(2), of 2 key] assms(3,4,8) by auto
  ultimately show ?thesis unfolding TestService_def
    using loopback_passes [of s key early, OF q assms(2) k] find_addr_passes [of s key, OF q assms(2) k(1,2) assms(5,6)]
      lookup_passes [of s key, OF q assms(2) k] reopen_passes [of s key, OF q assms(2) k(1)] by blast
qed

end

section \<open>The memory service\<close>

text \<open>\<open>order\<close> is the order in which \<^verbatim>\<open>findAddr\<close> visits the nodes.\<close>

definition mem_api ::
  "((addr \<rightharpoonup> 'p memNode) \<Rightarrow> addr list) \<Rightarrow> 'q queue_ops \<Rightarrow> ('p, 's, 'r) circl \<Rightarrow> sponge \<Rightarrow> string list \<Rightarrow>
   (('p, 'q) memService, 's private_key, 'p memNode, 'p, svc_error) service_api" where
  "mem_api order Q c sp ks = \<lparr>
     sa_Open = (\<lambda>x k s. mem_Open Q c sp ks k s),
     sa_Drop = (\<lambda>x k s. map_option (\<lambda>s'. (s', None)) (mem_Drop Q c sp ks k s)),
     sa_Close = mem_Close Q c sp ks,
     sa_LocalAddr = mem_LocalAddr c sp ks,
     sa_PublicKey = mn_publicKey,
     sa_Send = (\<lambda>h dst data s. unwinds (mem_Send Q c sp ks h dst data s)),
     sa_Receive = mem_Receive Q,
     sa_FindAddr = (\<lambda>h pfx nbits s. mem_findAddr (order (ms_nodes s)) pfx nbits),
     sa_LookupPublicKey = (\<lambda>h target s. mem_LookupPublicKey target s)\<rparr>"

text \<open>
  What a queue of positive length promises until it is closed: it starts empty, accepts a message when it is
  empty, gives the messages back in order, and blocks the receiver when there is none.
\<close>

definition queue_promises :: "'q queue_ops \<Rightarrow> ('q \<Rightarrow> message list) \<Rightarrow> ('q \<Rightarrow> bool) \<Rightarrow> bool" where
  "queue_promises Q held live \<longleftrightarrow>
     (\<forall>n > 0. live (q_new Q n) \<and> held (q_new Q n) = []) \<and>
     (\<forall>q m. live q \<longrightarrow> live (fst (q_deliver Q q m)) \<and> (held q = [] \<longrightarrow> held (fst (q_deliver Q q m)) = [m])) \<and>
     (\<forall>q m ms. live q \<longrightarrow> held q = m # ms \<longrightarrow> (\<exists>q'. q_receive Q q = Some (q', Ok m) \<and> held q' = ms \<and> live q')) \<and>
     (\<forall>q. live q \<longrightarrow> held q = [] \<longrightarrow> q_receive Q q = None)"

definition is_base :: "'s private_key \<Rightarrow> bool" where
  "is_base k \<longleftrightarrow> (\<exists>a s. k = BasePrivate a s)"

definition mem_live ::
  "('p, 's, 'r) circl \<Rightarrow> sponge \<Rightarrow> string list \<Rightarrow> ('q \<Rightarrow> bool) \<Rightarrow> ('p, 'q) memService \<Rightarrow> bool" where
  "mem_live c sp ks live s \<longleftrightarrow> mem_wf c sp ks s \<and> finite (dom (ms_nodes s)) \<and> 0 < ms_queueLen s \<and>
     (\<forall>i n. ms_nodes s i = Some n \<longrightarrow> live (ms_queues s ! mn_incoming n) \<and> (\<exists>a p. mn_publicKey n = BasePublic a p))"

lemma mem_liveD:
  assumes "mem_live c sp ks live s"
  shows "mem_wf c sp ks s" "finite (dom (ms_nodes s))" "0 < ms_queueLen s"
    and "ms_nodes s i = Some n \<Longrightarrow> live (ms_queues s ! mn_incoming n)" "ms_nodes s i = Some n \<Longrightarrow> \<exists>a p. mn_publicKey n = BasePublic a p"
  using assms unfolding mem_live_def by blast+

lemma mem_api_Open:
  assumes "mem_live c sp ks live s" "queue_promises Q held live" "key_ID c sp ks (BasePrivate a k) = Some i" "ms_nodes s i = None"
  shows "\<exists>s' h. mem_Open Q c sp ks (BasePrivate a k) s = Ok (s', h) \<and> mem_live c sp ks live s' \<and> ms_nodes s' = (ms_nodes s)(i \<mapsto> h) \<and>
     held (ms_queues s' ! mn_incoming h) = [] \<and>
     (\<forall>j h'. ms_nodes s j = Some h' \<longrightarrow> held (ms_queues s' ! mn_incoming h') = held (ms_queues s ! mn_incoming h'))"
proof -
  let ?h = "\<lparr>mn_publicKey = private_Public c (BasePrivate a k), mn_incoming = length (ms_queues s)\<rparr>"
  let ?s = "s\<lparr>ms_queues := ms_queues s @ [q_new Q (ms_queueLen s)], ms_nodes := (ms_nodes s)(i \<mapsto> ?h)\<rparr>"
  have o: "mem_Open Q c sp ks (BasePrivate a k) s = Ok (?s, ?h)"
    using assms(3,4) by (simp add: mem_Open_def newMemNode_def)
  have new: "live (q_new Q (ms_queueLen s))" "held (q_new Q (ms_queueLen s)) = []"
    using assms(2) mem_liveD(3) [OF assms(1)] unfolding queue_promises_def by blast+
  have old: "ms_queues ?s ! mn_incoming n = ms_queues s ! mn_incoming n" if "ms_nodes s j = Some n" for j n
    using mem_wfD(2) [OF mem_liveD(1) [OF assms(1)] that] by (simp add: nth_append)
  have "mem_live c sp ks live ?s" unfolding mem_live_def
  proof (intro conjI allI impI)
    show "mem_wf c sp ks ?s" by (rule mem_Open_wf [OF mem_liveD(1) [OF assms(1)] o])
    show "finite (dom (ms_nodes ?s))" "0 < ms_queueLen ?s" using mem_liveD(2,3) [OF assms(1)] by auto
    fix j n assume n: "ms_nodes ?s j = Some n"
    show "live (ms_queues ?s ! mn_incoming n)" "\<exists>a p. mn_publicKey n = BasePublic a p"
      using n old [of j n] new(1) mem_liveD(4,5) [OF assms(1), of j n] by (auto split: if_splits)
  qed
  with o new(2) old show ?thesis by auto
qed

text \<open>Changing the queue of one open node, as \<^verbatim>\<open>Send\<close> and \<^verbatim>\<open>Receive\<close> do.\<close>

lemma mem_queue_update:
  assumes "mem_live c sp ks live s" "ms_nodes s j = Some d" "live q"
  shows "mem_live c sp ks live (s\<lparr>ms_queues := (ms_queues s)[mn_incoming d := q]\<rparr>)"
    and "(ms_queues s)[mn_incoming d := q] ! mn_incoming d = q"
    and "ms_nodes s i = Some n \<Longrightarrow> i \<noteq> j \<Longrightarrow> (ms_queues s)[mn_incoming d := q] ! mn_incoming n = ms_queues s ! mn_incoming n"
proof -
  have wf: "mem_wf c sp ks s" by (rule mem_liveD(1) [OF assms(1)])
  have d: "mn_incoming d < length (ms_queues s)" by (rule mem_wfD(2) [OF wf assms(2)])
  then show same: "(ms_queues s)[mn_incoming d := q] ! mn_incoming d = q" by simp
  show other: "(ms_queues s)[mn_incoming d := q] ! mn_incoming n = ms_queues s ! mn_incoming n" if "ms_nodes s i = Some n" "i \<noteq> j" for i n
    using mem_wfD(3) [OF wf that(1) assms(2)] that(2) by (metis nth_list_update_neq)
  have "live ((ms_queues s)[mn_incoming d := q] ! mn_incoming n)" if "ms_nodes s i = Some n" for i n
    using other [OF that] same assms(2,3) that mem_liveD(4) [OF assms(1) that] by (cases "i = j") auto
  moreover have "mem_wf c sp ks (s\<lparr>ms_queues := (ms_queues s)[mn_incoming d := q]\<rparr>)" using wf by (simp add: mem_wf_def)
  ultimately show "mem_live c sp ks live (s\<lparr>ms_queues := (ms_queues s)[mn_incoming d := q]\<rparr>)"
    using mem_liveD(2,3,5) [OF assms(1)] by (simp add: mem_live_def)
qed

lemma mem_delete_live:
  assumes "mem_live c sp ks live s"
  shows "mem_live c sp ks live (mem_delete Q i s)" "ms_nodes (mem_delete Q i s) = (ms_nodes s)(i := None)"
proof -
  have wf: "mem_wf c sp ks s" by (rule mem_liveD(1) [OF assms])
  show nodes: "ms_nodes (mem_delete Q i s) = (ms_nodes s)(i := None)" by (auto simp: mem_delete_def split: option.splits)
  have "ms_queues (mem_delete Q i s) ! mn_incoming n = ms_queues s ! mn_incoming n" if "ms_nodes s j = Some n" "j \<noteq> i" for j n
  proof (cases "ms_nodes s i")
    case (Some d)
    then have "mn_incoming n \<noteq> mn_incoming d" using mem_wfD(3) [OF wf that(1)] that(2) by blast
    with Some show ?thesis by (simp add: mem_delete_def)
  qed (simp add: mem_delete_def)
  with mem_liveD(4,5) [OF assms] have
    "live (ms_queues (mem_delete Q i s) ! mn_incoming n) \<and> (\<exists>a p. mn_publicKey n = BasePublic a p)"
    if "ms_nodes (mem_delete Q i s) j = Some n" for j n
    using that by (auto simp: nodes split: if_splits)
  moreover have "finite (dom (ms_nodes (mem_delete Q i s)))" "0 < ms_queueLen (mem_delete Q i s)"
    using mem_liveD(2,3) [OF assms] by (simp_all add: dom_mem_delete mem_delete_def split: option.splits)
  ultimately show "mem_live c sp ks live (mem_delete Q i s)"
    unfolding mem_live_def using mem_delete_wf [OF wf] by blast
qed

lemma mem_api_Send:
  assumes "mem_live c sp ks live s" "queue_promises Q held live" "ms_nodes s i = Some src" "ms_nodes s j = Some dst"
    and "held (ms_queues s ! mn_incoming dst) = []"
  shows "\<exists>s'. mem_Send Q c sp ks src j data s = Some s' \<and> mem_live c sp ks live s' \<and> ms_nodes s' = ms_nodes s \<and>
     held (ms_queues s' ! mn_incoming dst) = [\<lparr>m_Src = i, m_Dst = j, m_Payload = data\<rparr>] \<and>
     (\<forall>i' h. ms_nodes s i' = Some h \<longrightarrow> i' \<noteq> j \<longrightarrow> ms_queues s' ! mn_incoming h = ms_queues s ! mn_incoming h)"
proof -
  let ?m = "\<lparr>m_Src = i, m_Dst = j, m_Payload = data\<rparr>"
  let ?q = "fst (q_deliver Q (ms_queues s ! mn_incoming dst) ?m)"
  have q: "live ?q" "held ?q = [?m]"
    using assms(2,5) mem_liveD(4) [OF assms(1,4)] unfolding queue_promises_def by blast+
  have "mem_Send Q c sp ks src j data s = Some (s\<lparr>ms_queues := (ms_queues s)[mn_incoming dst := ?q]\<rparr>)"
    using assms(3,4) mem_wfD(1) [OF mem_liveD(1) [OF assms(1)] assms(3)] by (simp add: mem_Send_def getNode_def case_prod_beta)
  with mem_queue_update [OF assms(1,4) q(1)] q(2) show ?thesis by simp
qed

lemma mem_api_Receive:
  assumes "mem_live c sp ks live s" "queue_promises Q held live" "ms_nodes s i = Some h" "held (ms_queues s ! mn_incoming h) = m # ms"
  shows "\<exists>s'. mem_Receive Q h s = Some (s', Ok m) \<and> mem_live c sp ks live s' \<and> ms_nodes s' = ms_nodes s \<and>
     held (ms_queues s' ! mn_incoming h) = ms \<and>
     (\<forall>i' n. ms_nodes s i' = Some n \<longrightarrow> i' \<noteq> i \<longrightarrow> ms_queues s' ! mn_incoming n = ms_queues s ! mn_incoming n)"
proof -
  obtain q where q: "q_receive Q (ms_queues s ! mn_incoming h) = Some (q, Ok m)" "held q = ms" "live q"
    using assms(2,4) mem_liveD(4) [OF assms(1,3)] unfolding queue_promises_def by blast
  then have "mem_Receive Q h s = Some (s\<lparr>ms_queues := (ms_queues s)[mn_incoming h := q]\<rparr>, Ok m)" by (simp add: mem_Receive_def)
  with mem_queue_update [OF assms(1,3) q(3)] q(2) show ?thesis by simp
qed

lemma mem_findAddr_ok:
  assumes "enumerates ids m" "m a \<noteq> None" "id_HasPrefix a pfx n"
  shows "\<exists>b. mem_findAddr ids pfx n = Ok b \<and> m b \<noteq> None \<and> id_HasPrefix b pfx n"
proof -
  have "a \<in> set ids" using assms(1,2) by (auto simp: enumerates_def)
  with assms(3) obtain b where "find (\<lambda>i. id_HasPrefix i pfx n) ids = Some b" by (cases "find (\<lambda>i. id_HasPrefix i pfx n) ids") (auto simp: find_None_iff)
  moreover from this have "b \<in> set ids" "id_HasPrefix b pfx n" by (auto simp: find_Some_iff)
  ultimately show ?thesis using assms(1) by (auto simp: mem_findAddr_def enumerates_def)
qed

text \<open>What the memory service takes from other packages and from the language.\<close>

definition mem_promises ::
  "((addr \<rightharpoonup> 'p memNode) \<Rightarrow> addr list) \<Rightarrow> 'q queue_ops \<Rightarrow> ('p, 's, 'r) circl \<Rightarrow> string list \<Rightarrow> ('q \<Rightarrow> message list) \<Rightarrow> ('q \<Rightarrow> bool) \<Rightarrow> bool" where
  "mem_promises order Q c ks held live \<longleftrightarrow>
     circl_marshals c \<and> enumerates ks (Schemes DefaultPKI) \<and> queue_promises Q held live \<and>
     (\<forall>m. finite (dom m) \<longrightarrow> enumerates (order m) m)"

interpretation mem_suite: conforming "mem_api order Q c sp ks" "MarshalPublicKey c ks []" is_base "\<lambda>k. the (key_ID c sp ks k)"
  "\<lambda>s. mem_promises order Q c ks held live \<and> mem_live c sp ks live s" ms_nodes "\<lambda>s h. held (ms_queues s ! mn_incoming h)" "\<lambda>h x. True"
  for order :: "(addr \<rightharpoonup> 'p memNode) \<Rightarrow> addr list" and Q :: "'q queue_ops" and c :: "('p, 's, 'r) circl" and sp ks held live
proof (unfold_locales, goal_cases)
  case (1 s k x)
  then obtain a p where k: "k = BasePrivate a p" by (auto simp: is_base_def)
  obtain i where "key_ID c sp ks k = Some i" using key_ID_base [of ks c sp a p] 1(1) by (auto simp: mem_promises_def k)
  with 1 mem_api_Open [of c sp ks live s Q held a p i] show ?case by (auto simp: mem_api_def mem_promises_def k)
next
  case (2 s i h)
  then have "mem_LocalAddr c sp ks h = Some i" using mem_wfD(1) mem_liveD(1) by blast
  with 2 mem_delete_live [of c sp ks live s Q i] show ?case by (simp add: mem_api_def mem_Close_def)
next
  case (3 s k h x)
  then obtain a p where k: "k = BasePrivate a p" by (auto simp: is_base_def)
  obtain i where "key_ID c sp ks k = Some i" using key_ID_base [of ks c sp a p] 3(1) by (auto simp: mem_promises_def k)
  with 3 mem_delete_live [of c sp ks live s Q i] show ?case by (simp add: mem_api_def mem_Drop_def)
next
  case (4 s i h)
  then show ?case using mem_wfD(1) mem_liveD(1) by (fastforce simp: mem_api_def)
next
  case (5 s i src j dst data)
  then have "mem_live c sp ks live s" "queue_promises Q held live" by (simp_all add: mem_promises_def)
  from mem_api_Send [OF this 5(2-4), of data] 5(1) show ?case by (fastforce simp: mem_api_def)
next
  case (6 s i h m ms)
  then have "mem_live c sp ks live s" "queue_promises Q held live" by (simp_all add: mem_promises_def)
  from mem_api_Receive [OF this 6(2,3)] 6(1) show ?case by (fastforce simp: mem_api_def)
next
  case (7 s i h)
  then show ?case using mem_liveD(4) [of c sp ks live s i h] by (auto simp: mem_api_def mem_Receive_def mem_promises_def queue_promises_def)
next
  case (8 s i h a pfx n)
  then have "enumerates (order (ms_nodes s)) (ms_nodes s)" using mem_liveD(2) [of c sp ks live s] by (auto simp: mem_promises_def)
  from mem_findAddr_ok [OF this 8(3,4)] show ?case by (simp add: mem_api_def)
next
  case (9 s i h j d)
  obtain a p where "mn_publicKey d = BasePublic a p" using 9(1,3) mem_liveD(5) by blast
  moreover have "MarshalPublicKey c ks [] (BasePublic a p) \<noteq> None"
    using MarshalPublicKey_base [of c ks a p] 9(1) by (auto simp: mem_promises_def)
  ultimately show ?case using 9(3) by (simp add: mem_api_def mem_LookupPublicKey_def)
qed
interpretation rc_suite: conforming "rc_api (mem_api order Q c sp ks) (key_ID c sp ks)" "MarshalPublicKey c ks []"
  "\<lambda>k. is_base k \<and> key_ID c sp ks k = Some (the (key_ID c sp ks k))" "\<lambda>k. the (key_ID c sp ks k)"
  "\<lambda>w. (mem_promises order Q c ks held live \<and> mem_live c sp ks live (fst w)) \<and> rc_tables (ms_nodes (fst w)) (snd w)"
  rc_opened "\<lambda>w h. held (ms_queues (fst w) ! mn_incoming (snd h))" "\<lambda>h x. fst h = x"
  for order :: "(addr \<rightharpoonup> 'p memNode) \<Rightarrow> addr list" and Q :: "'q queue_ops" and c :: "('p, 's, 'r) circl" and sp ks held live
  by (rule mem_suite.rc_conforming)

lemma mem_New_live: "mem_live c sp ks live (mem_New [])"
  using mem_New_wf [of c sp ks "[]"] by (simp add: mem_live_def mem_New_def defaultQueueLen_def)

lemma randomPairs_bound:
  "set p \<subseteq> {..<n} \<Longrightarrow> (\<And>i. set (q i) \<subseteq> {..<n}) \<Longrightarrow> \<forall>(i, j) \<in> set (randomPairs p q). i < n \<and> j < n"
  by (fastforce simp: randomPairs_def)

section \<open>Samples\<close>

text \<open>Keys that are bytes, and a hash that keeps the end of its input, so that the address of a key starts with the key.\<close>

definition byte_circl :: "(byte, byte, nat) circl" where
  "byte_circl = \<lparr>
     c_pub_size = (\<lambda>a. 32), c_priv_size = (\<lambda>a. 64), c_sig_size = (\<lambda>a. 64), c_seed_size = (\<lambda>a. 32), c_ctx = (\<lambda>a. False),
     c_generate = (\<lambda>a r. Ok ((of_nat r, of_nat r), Suc r)), c_public = (\<lambda>a s. s),
     c_sign = (\<lambda>a s msg. replicate 64 s), c_verify = (\<lambda>a p msg sig. sig = replicate 64 p),
     c_marshal_pub = (\<lambda>a p. Ok (replicate 31 0 @ [p])),
     c_unmarshal_pub = (\<lambda>a bs. if length bs = 32 then Ok (last bs) else Err BadKey),
     c_marshal_priv = (\<lambda>a p. Ok (replicate 63 0 @ [p])),
     c_unmarshal_priv = (\<lambda>a bs. if length bs = 64 then Ok (last bs) else Err BadKey),
     c_pub_equal = (\<lambda>a p q. p = q), c_priv_equal = (\<lambda>a p q. p = q),
     c_signer = (\<lambda>a s msg. Ok (replicate 64 s))\<rparr>"

definition rev_sponge :: sponge where
  "rev_sponge = \<lparr>shake256 = (\<lambda>x n. take n (rev x @ replicate n 0)), cshake256 = (\<lambda>N s x n. replicate n 0)\<rparr>"

definition sample_order :: "(addr \<rightharpoonup> 'a) \<Rightarrow> addr list" where
  "sample_order m = sorted_list_of_set (dom m)"

lemma byte_circl_marshals: "circl_marshals byte_circl"
  by (simp add: circl_marshals_def byte_circl_def)

lemma byte_key_ID: "key_ID byte_circl rev_sponge default_tags (BasePrivate Ed25519 p) = Some (p # replicate 31 0)"
  by (simp add: key_ID_def NewID_def pki_NewID_def pki_MarshalPublicKey_def findTag_Default [OF default_tags_enumerates]
      byte_circl_def crypto_Sum256_def XOF_def rev_sponge_def)

lemma sample_promises: "mem_promises sample_order sample_queues byte_circl default_tags id (\<lambda>q. True)"
proof -
  have "enumerates (sample_order m) m" if "finite (dom m)" for m :: "addr \<rightharpoonup> byte memNode"
    using that by (simp add: enumerates_def sample_order_def)
  moreover have "queue_promises sample_queues id (\<lambda>q. True)" by (simp add: queue_promises_def sample_queues_def)
  ultimately show ?thesis using byte_circl_marshals default_tags_enumerates by (auto simp: mem_promises_def)
qed

section \<open>Properties\<close>

text \<open>
  C8: The memory service and servers of \<^verbatim>\<open>rcsrv\<close> in front of one memory service pass the whole suite of \<^verbatim>\<open>inet256tests\<close>, in
  whatever order the pairs are drawn and however sender and receiver interleave, provided that the ten test keys
  have different addresses and the first two nodes differ in the seven bits that the test of \<^verbatim>\<open>FindAddr\<close> asks for.
\<close>

theorem services_pass_suite:
  assumes "mem_promises order Q c ks held live" "\<And>i. i < 10 \<Longrightarrow> key_ID c sp ks (BasePrivate a (key i)) = Some (addr i)"
    and "inj_on addr {..<10}" "is_addr (addr 2)" "\<not> id_HasPrefix (addr 1) (take 1 (addr 2)) 7"
    and "set p \<subseteq> {..<5}" "\<And>i. set (q i) \<subseteq> {..<5}" "set p' \<subseteq> {..<10}" "\<And>i. set (q' i) \<subseteq> {..<10}"
  shows "TestService (mem_api order Q c sp ks) (MarshalPublicKey c ks []) (\<lambda>i. BasePrivate a (key i)) early
       (randomPairs p q) (randomPairs p' q') (mem_New []) \<and>
     TestService (rc_api (mem_api order Q c sp ks) (key_ID c sp ks)) (MarshalPublicKey c ks []) (\<lambda>i. BasePrivate a (key i)) early
       (randomPairs p q) (randomPairs p' q') (mem_New [], \<lambda>x. Map.empty)"
proof
  have ID: "the (key_ID c sp ks (BasePrivate a (key i))) = addr i" if "i < 10" for i using assms(2) [OF that] by simp
  have inj: "inj_on ((\<lambda>k. the (key_ID c sp ks k)) \<circ> (\<lambda>i. BasePrivate a (key i))) {..<10}"
    using assms(3) by (auto simp: inj_on_def ID)
  have pairs: "\<forall>(i, j) \<in> set (randomPairs p q). i < 5 \<and> j < 5" "\<forall>(i, j) \<in> set (randomPairs p' q'). i < 10 \<and> j < 10"
    using randomPairs_bound assms(6-9) by blast+
  show "TestService (mem_api order Q c sp ks) (MarshalPublicKey c ks []) (\<lambda>i. BasePrivate a (key i)) early
       (randomPairs p q) (randomPairs p' q') (mem_New [])"
  proof (rule mem_suite.suite_passes [OF _ _ _ inj _ _ pairs])
    show "mem_promises order Q c ks held live \<and> mem_live c sp ks live (mem_New [])" using assms(1) mem_New_live by blast
  qed (use assms(4,5) in \<open>simp_all add: ID is_base_def mem_New_def\<close>)
  show "TestService (rc_api (mem_api order Q c sp ks) (key_ID c sp ks)) (MarshalPublicKey c ks []) (\<lambda>i. BasePrivate a (key i)) early
       (randomPairs p q) (randomPairs p' q') (mem_New [], \<lambda>x. Map.empty)"
  proof (rule rc_suite.suite_passes [OF _ _ _ inj _ _ pairs])
    show "(mem_promises order Q c ks held live \<and> mem_live c sp ks live (fst (mem_New [], \<lambda>x. Map.empty :: addr \<rightharpoonup> 'a memNode \<times> int))) \<and>
        rc_tables (ms_nodes (fst (mem_New [], \<lambda>x. Map.empty))) (snd (mem_New [], \<lambda>x. Map.empty))"
      using assms(1) mem_New_live [of c sp ks live] by (simp add: rc_tables_def mem_New_def)
    show "rc_opened (mem_New [], \<lambda>x. Map.empty) = Map.empty" by (simp add: rc_opened_def fun_eq_iff)
  qed (use assms(2,4,5) in \<open>simp_all add: ID is_base_def\<close>)
qed

theorem services_pass_suite_witness:
  "TestService (mem_api sample_order sample_queues byte_circl rev_sponge default_tags) (MarshalPublicKey byte_circl default_tags [])
     (\<lambda>i. BasePrivate Ed25519 (of_nat (2 * i))) (\<lambda>i j. True) (randomPairs [0..<5] (\<lambda>i. [0..<5])) (randomPairs [0..<10] (\<lambda>i. rev [0..<10])) (mem_New [])"
proof -
  let ?addr = "\<lambda>i :: nat. of_nat (2 * i) # replicate 31 0 :: addr"
  have "inj_on ?addr {..<10}"
  proof (rule inj_onI)
    fix i j :: nat
    assume "i \<in> {..<10}" "j \<in> {..<10}" "?addr i = ?addr j"
    then have "of_nat (2 * i) = (of_nat (2 * j) :: byte)" and small: "2 * i < 256" "2 * j < 256" by (auto simp del: of_nat_mult)
    from this(1) have "unat (of_nat (2 * i) :: byte) = unat (of_nat (2 * j) :: byte)" by (rule arg_cong)
    then have "2 * i mod 256 = 2 * j mod 256" by (simp add: unat_of_nat del: of_nat_mult)
    with small show "i = j" by simp
  qed
  moreover have "\<not> id_HasPrefix (?addr 1) (take 1 (?addr 2)) 7" by code_simp
  ultimately show ?thesis
    using services_pass_suite [where key = "\<lambda>i. of_nat (2 * i)" and addr = ?addr and early = "\<lambda>i j. True" and p = "[0..<5]" and
        q = "\<lambda>i. [0..<5]" and p' = "[0..<10]" and q' = "\<lambda>i. rev [0..<10]", OF sample_promises byte_key_ID]
    by (simp add: is_addr_def AddrSize_def atLeast0LessThan)
qed

end
