(* ===== verification/Streams.thy ===== *)
theory Streams
  imports Commands
begin

text \<open>
  The streams behind the load balancer: the endpoints it opens (\<^verbatim>\<open>src/inet256lb/net_endpoint.go\<close>, \<^verbatim>\<open>utp.go\<close>), the life of a
  connection in \<^verbatim>\<open>serveFrontendConn\<close> and \<^verbatim>\<open>PlumbRWC\<close>, and connections to standard input and output. Dialling and
  copying are I/O: what they are asked to do and when they end is modelled.
\<close>

section \<open>Endpoints\<close>

datatype endpoint = NetDial string string | NetListen string string | UTP addr

datatype open_call = DialContext string string | Accept string string | UTPAccept | UTPDial addr

definition NewTCPIPBackend :: "('ap \<Rightarrow> string) \<Rightarrow> 'ap \<Rightarrow> endpoint" where
  "NewTCPIPBackend str raddr = NetDial ''tcp'' (str raddr)"

definition NewUNIXStreamBackend :: "string \<Rightarrow> endpoint" where
  "NewUNIXStreamBackend p = NetDial ''unix'' p"

text \<open>The listeners are opened first; \<open>listen\<close> is \<^verbatim>\<open>net.Listen\<close>.\<close>

definition NewUNIXStreamFrontend :: "(string \<Rightarrow> string \<Rightarrow> 'e option) \<Rightarrow> string \<Rightarrow> ('e, endpoint) outcome" where
  "NewUNIXStreamFrontend listen p = (case listen ''unix'' p of Some e \<Rightarrow> Err e | None \<Rightarrow> Ok (NetListen ''unix'' p))"

definition NewTCPIPFrontend :: "(string \<Rightarrow> string \<Rightarrow> 'e option) \<Rightarrow> ('ap \<Rightarrow> string) \<Rightarrow> 'ap \<Rightarrow> ('e, endpoint) outcome" where
  "NewTCPIPFrontend listen str ap = (case listen ''tcp'' (str ap) of Some e \<Rightarrow> Err e | None \<Rightarrow> Ok (NetListen ''tcp'' (str ap)))"

text \<open>The target of a frontend is the zero address.\<close>

definition NewUTPFrontend :: endpoint where "NewUTPFrontend = UTP zero_addr"

definition NewUTPBackend :: "addr \<Rightarrow> endpoint" where "NewUTPBackend target = UTP target"

fun endpoint_Open :: "endpoint \<Rightarrow> open_call" where
  "endpoint_Open (NetDial network target) = DialContext network target"
| "endpoint_Open (NetListen network laddr) = Accept network laddr"
| "endpoint_Open (UTP target) = (if IsZero target then UTPAccept else UTPDial target)"

text \<open>The endpoint of a backend text.\<close>

definition backend_endpoint :: "('ap \<Rightarrow> string) \<Rightarrow> 'ap backend \<Rightarrow> endpoint" where
  "backend_endpoint str b =
     (case b of UnixBackend p \<Rightarrow> NewUNIXStreamBackend p | TCPIPBackend ap \<Rightarrow> NewTCPIPBackend str ap | UTPBackend raddr \<Rightarrow> NewUTPBackend raddr)"

section \<open>The life of a connection\<close>

text \<open>
  A connection of the frontend from \<^verbatim>\<open>serveFrontendConn\<close> to the end of \<^verbatim>\<open>PlumbRWC\<close>: \<open>Plumbing f b\<close> tells which of the two
  copies have ended, \<open>f\<close> the one from the backend to the frontend. The counters are the calls of \<^verbatim>\<open>Close\<close>.
\<close>

datatype phase = Accepted | Plumbing bool bool | Served | Failed

record fconn =
  fc_phase :: phase
  fc_fclosed :: nat
  fc_bclosed :: nat

definition new_conn :: fconn where
  "new_conn = \<lparr>fc_phase = Accepted, fc_fclosed = 0, fc_bclosed = 0\<rparr>"

inductive conn_step :: "fconn \<Rightarrow> fconn \<Rightarrow> bool" where
  no_backend: "fc_phase s = Accepted \<Longrightarrow> conn_step s (s\<lparr>fc_phase := Failed\<rparr>)"
| opened_backend: "fc_phase s = Accepted \<Longrightarrow> conn_step s (s\<lparr>fc_phase := Plumbing False False\<rparr>)"
| copied_back: "fc_phase s = Plumbing False b \<Longrightarrow> conn_step s (s\<lparr>fc_phase := Plumbing True b, fc_fclosed := fc_fclosed s + 1\<rparr>)"
| copied_forth: "fc_phase s = Plumbing f False \<Longrightarrow> conn_step s (s\<lparr>fc_phase := Plumbing f True, fc_bclosed := fc_bclosed s + 1\<rparr>)"
| waited: "fc_phase s = Plumbing True True \<Longrightarrow> conn_step s (s\<lparr>fc_phase := Served\<rparr>)"

section \<open>Connections to standard input and output\<close>

text \<open>
  The \<^verbatim>\<open>listen\<close> command on \<^verbatim>\<open>stdio\<close>: the backend and the connections that were opened on it. The copy from a connection
  to the frontend reads standard input, and neither closing the connection nor closing the frontend interrupts the
  read: it ends after the next input or its end. The first argument of a step tells whether there is any.
\<close>

record stdio_state =
  io_backend :: rwBackend
  io_conns :: "fconn list"

definition io_start :: stdio_state where
  "io_start = \<lparr>io_backend = newRWBackend, io_conns = []\<rparr>"

inductive io_step :: "bool \<Rightarrow> stdio_state \<Rightarrow> stdio_state \<Rightarrow> bool" where
  io_call: "rw_step (io_backend s) b \<Longrightarrow> rw_conns b = rw_conns (io_backend s) \<Longrightarrow> io_step inp s (s\<lparr>io_backend := b\<rparr>)"
| io_open: "rw_step (io_backend s) b \<Longrightarrow> rw_conns b = Suc (rw_conns (io_backend s)) \<Longrightarrow> conn_step new_conn c \<Longrightarrow> fc_phase c = Plumbing False False \<Longrightarrow>
     io_step inp s (s\<lparr>io_backend := b, io_conns := io_conns s @ [c]\<rparr>)"
| io_close: "i < length (io_conns s) \<Longrightarrow> conn_step (io_conns s ! i) c \<Longrightarrow> fc_bclosed c = Suc (fc_bclosed (io_conns s ! i)) \<Longrightarrow>
     rw_step (io_backend s) b \<Longrightarrow> Suc (rw_conns b) = rw_conns (io_backend s) \<Longrightarrow>
     io_step inp s (s\<lparr>io_backend := b, io_conns := (io_conns s)[i := c]\<rparr>)"
| io_input: "i < length (io_conns s) \<Longrightarrow> conn_step (io_conns s ! i) c \<Longrightarrow> fc_fclosed c = Suc (fc_fclosed (io_conns s ! i)) \<Longrightarrow>
     io_step True s (s\<lparr>io_conns := (io_conns s)[i := c]\<rparr>)"
| io_served: "i < length (io_conns s) \<Longrightarrow> conn_step (io_conns s ! i) c \<Longrightarrow> fc_phase c = Served \<Longrightarrow>
     io_step inp s (s\<lparr>io_conns := (io_conns s)[i := c]\<rparr>)"

text \<open>The copies that are reading standard input.\<close>

definition stdin_readers :: "stdio_state \<Rightarrow> nat" where
  "stdin_readers s = length (filter (\<lambda>c. case fc_phase c of Plumbing f b \<Rightarrow> \<not> f | _ \<Rightarrow> False) (io_conns s))"

section \<open>Lemmas\<close>

inductive_cases conn_stepE: "conn_step s s'"

text \<open>The calls of \<^verbatim>\<open>Close\<close> in each phase.\<close>

fun conn_inv :: "phase \<Rightarrow> nat \<Rightarrow> nat \<Rightarrow> bool" where
  "conn_inv (Plumbing f b) nf nb \<longleftrightarrow> nf = of_bool f \<and> nb = of_bool b"
| "conn_inv Served nf nb \<longleftrightarrow> nf = 1 \<and> nb = 1"
| "conn_inv _ nf nb \<longleftrightarrow> nf = 0 \<and> nb = 0"

lemma conn_invariant: "conn_step\<^sup>*\<^sup>* new_conn s \<Longrightarrow> conn_inv (fc_phase s) (fc_fclosed s) (fc_bclosed s)"
proof (induction rule: rtranclp_induct)
  case (step s s')
  from step(2,3) show ?case by (cases rule: conn_step.cases) (auto simp: fconn.defs)
qed (simp add: new_conn_def)

definition copies_left :: "fconn \<Rightarrow> nat" where
  "copies_left s = (case fc_phase s of Accepted \<Rightarrow> 4 | Plumbing f b \<Rightarrow> 1 + of_bool (\<not> f) + of_bool (\<not> b) | _ \<Rightarrow> 0)"

lemma conn_step_left: "conn_step s s' \<Longrightarrow> copies_left s' < copies_left s"
  by (cases rule: conn_step.cases) (auto simp: copies_left_def)

lemma parse_utp: "parseEndpoint (''utp://'' @ t) = Ok (''utp'', t)"
proof -
  have "SplitN2 (''utp://'' @ t) ''://'' = [''utp'', t]" by simp
  then show ?thesis by (simp only: parseEndpoint_def Let_def) simp
qed

section \<open>Properties\<close>

text \<open>
  A connection that got a backend is served to its end: however the two copies interleave, \<^verbatim>\<open>PlumbRWC\<close> returns only
  after both have ended and has then closed both sides exactly once, and every run ends. A
  connection that does not get a backend is never closed: its client is left waiting.
\<close>

theorem plumbing_closes_both:
  assumes "conn_step\<^sup>*\<^sup>* new_conn s"
  shows "(fc_phase s = Served \<longrightarrow> fc_fclosed s = 1 \<and> fc_bclosed s = 1) \<and> (fc_phase s = Failed \<longrightarrow> fc_fclosed s = 0) \<and>
     fc_fclosed s \<le> 1 \<and> fc_bclosed s \<le> 1 \<and> wfP (\<lambda>s' s. conn_step s s') \<and>
     ((\<nexists>s'. conn_step s s') \<longrightarrow> fc_phase s = Served \<or> fc_phase s = Failed)"
proof -
  note inv = conn_invariant [OF assms]
  have "\<exists>s'. conn_step s s'" if "fc_phase s \<noteq> Served" "fc_phase s \<noteq> Failed"
  proof (cases "fc_phase s")
    case (Plumbing f b)
    then show ?thesis using copied_back [of s b] copied_forth [of s f] waited [of s] by (cases f; cases b) auto
  qed (use that no_backend in auto)
  moreover have "wfP (\<lambda>s' s. conn_step s s')" by (rule wfp_if_convertible_to_nat [of _ copies_left]) (rule conn_step_left)
  ultimately show ?thesis using inv by (cases "fc_phase s") auto
qed

theorem plumbing_closes_both_witness:
  "conn_step\<^sup>*\<^sup>* new_conn \<lparr>fc_phase = Served, fc_fclosed = 1, fc_bclosed = 1\<rparr> \<and> wfP (\<lambda>s' s. conn_step s s')"
proof -
  let ?s = "\<lambda>p nf nb. \<lparr>fc_phase = p, fc_fclosed = nf, fc_bclosed = nb\<rparr>"
  have "conn_step new_conn (?s (Plumbing False False) 0 0)" using opened_backend [of new_conn] by (simp add: new_conn_def)
  moreover have "conn_step (?s (Plumbing False False) 0 0) (?s (Plumbing False True) 0 1)"
      "conn_step (?s (Plumbing False True) 0 1) (?s (Plumbing True True) 1 1)" "conn_step (?s (Plumbing True True) 1 1) (?s Served 1 1)"
    using copied_forth [of "?s (Plumbing False False) 0 0" False] copied_back [of "?s (Plumbing False True) 0 1" True]
      waited [of "?s (Plumbing True True) 1 1"] by simp_all
  ultimately have "conn_step\<^sup>*\<^sup>* new_conn (?s Served 1 1)" by (meson rtranclp.rtrancl_into_rtrancl rtranclp.rtrancl_refl)
  with plumbing_closes_both [OF this] show ?thesis by blast
qed


text \<open>A backend text that names the zero address does not dial: the balancer waits for a connection to itself.\<close>

theorem utp_zero_target_accepts:
  "\<exists>b. MakeStreamBackend parseAddrPort (''utp://'' @ Base64String zero_addr) = Ok b \<and> endpoint_Open (backend_endpoint str b) = UTPAccept"
proof -
  have "ParseAddrBase64 (Base64String zero_addr) = Ok zero_addr"
    using UnmarshalText_MarshalText [OF is_addr_zero is_addr_zero] by (simp add: ParseAddrBase64_def Base64String_def)
  then show ?thesis unfolding MakeStreamBackend_def parse_utp
    by (simp add: backend_endpoint_def NewUTPBackend_def IsZero_def)
qed

end
