(* ===== verification/Dns_Wire.thy ===== *)
theory Dns_Wire
  imports Dns Suite
begin

text \<open>
  Name resolution over messages: the JSON forms of requests and responses (\<^verbatim>\<open>src/dns256/dns256.go\<close>), the server that
  answers them (\<^verbatim>\<open>server.go\<close>) and the client that waits for the answer (\<^verbatim>\<open>client.go\<close>). Values of records are
  \<^verbatim>\<open>json.RawMessage\<close>: text that is written in compact form and read as the text between the delimiters around it.
\<close>

section \<open>Raw messages\<close>

text \<open>
  What \<^verbatim>\<open>json.Marshal\<close> writes for a raw message: null for nil, else its text without white space between tokens and
  with the characters \<^verbatim>\<open><\<close>, \<^verbatim>\<open>>\<close> and \<^verbatim>\<open>&\<close> escaped, or an error if the text is not JSON. The flag of \<open>compact\<close> tells whether
  it is inside a string.
\<close>

fun compact :: "bool \<Rightarrow> string \<Rightarrow> string" where
  "compact b [] = []"
| "compact False (c # cs) =
     (if is_ws c then compact False cs else if c = CHR 0x22 then c # compact True cs else c # compact False cs)"
| "compact True (c # cs) =
     (if c = CHR 0x5C then (case cs of [] \<Rightarrow> [c] | d # ds \<Rightarrow> c # d # compact True ds)
      else if c = CHR 0x22 then c # compact False cs
      else if c \<in> {CHR ''<'', CHR ''>'', CHR ''&''} then json_escape c @ compact True cs
      else c # compact True cs)"

definition raw_text :: "string \<Rightarrow> string option" where
  "raw_text t = (if t = [] then Some ''null'' else if json_parse t = None then None else Some (compact False t))"

text \<open>The members of an object and the elements of an array with the text of their values.\<close>

definition value_text :: "string \<Rightarrow> (string \<times> string) option" where
  "value_text s = map_option (\<lambda>(v, r). (take (length (skip_ws s) - length r) (skip_ws s), r)) (json_value (2 * length s + 1) s)"

fun member_list :: "nat \<Rightarrow> string \<Rightarrow> (string \<times> string) list option" where
  "member_list 0 s = None"
| "member_list (Suc k) s =
     Option.bind (strip [CHR 0x22] (skip_ws s)) (\<lambda>r0.
     Option.bind (json_string r0) (\<lambda>(x, r1).
     Option.bind (strip '':'' (skip_ws r1)) (\<lambda>r2.
     Option.bind (value_text r2) (\<lambda>(t, r).
       case strip ''}'' (skip_ws r) of
         Some r' \<Rightarrow> Some [(x, t)]
       | None \<Rightarrow> Option.bind (strip '','' (skip_ws r)) (\<lambda>r'. map_option (\<lambda>kts. (x, t) # kts) (member_list k r'))))))"

fun element_list :: "nat \<Rightarrow> string \<Rightarrow> string list option" where
  "element_list 0 s = None"
| "element_list (Suc k) s =
     Option.bind (value_text s) (\<lambda>(t, r).
       case strip '']'' (skip_ws r) of
         Some r' \<Rightarrow> Some [t]
       | None \<Rightarrow> Option.bind (strip '','' (skip_ws r)) (\<lambda>r'. map_option (\<lambda>ts. t # ts) (element_list k r')))"

definition members :: "string \<Rightarrow> (string \<times> string) list option" where
  "members s =
     (case skip_ws s of
        [] \<Rightarrow> None
      | c # cs \<Rightarrow> if c \<noteq> CHR ''{'' then None else if strip ''}'' (skip_ws cs) \<noteq> None then Some [] else member_list (length cs) cs)"

definition elements :: "string \<Rightarrow> string list option" where
  "elements s =
     (case skip_ws s of
        [] \<Rightarrow> None
      | c # cs \<Rightarrow> if c \<noteq> CHR ''['' then None else if strip '']'' (skip_ws cs) \<noteq> None then Some [] else element_list (length cs) cs)"

text \<open>Decoding from the text of a value, with the rules of \<open>decode_fields\<close>; the text has been checked to be JSON.\<close>

type_synonym 'a text_decoder = "string \<Rightarrow> 'a \<Rightarrow> (json_error, 'a) outcome"

definition of_json :: "'a decoder \<Rightarrow> 'a text_decoder" where
  "of_json d t x = (case json_parse t of None \<Rightarrow> Err JsonSyntax | Some j \<Rightarrow> d j x)"

definition text_field :: "(string \<times> 'f) list \<Rightarrow> string \<Rightarrow> 'f option" where
  "text_field fs k =
     (case map_of fs k of Some f \<Rightarrow> Some f | None \<Rightarrow> map_of (map (\<lambda>(n, f). (map json_lower n, f)) fs) (map json_lower k))"

fun text_fields :: "(string \<times> 'a text_decoder) list \<Rightarrow> (string \<times> string) list \<Rightarrow> 'a \<Rightarrow> (json_error, 'a) outcome" where
  "text_fields fs [] x = Ok x"
| "text_fields fs ((k, t) # kts) x =
     (case text_field fs k of
        None \<Rightarrow> text_fields fs kts x
      | Some f \<Rightarrow>
          (case f t x of
             Ok x' \<Rightarrow> text_fields fs kts x'
           | Err e \<Rightarrow> (case text_fields fs kts x of Panic \<Rightarrow> Panic | _ \<Rightarrow> Err e)
           | Panic \<Rightarrow> Panic))"

definition is_null :: "string \<Rightarrow> bool" where
  "is_null t \<longleftrightarrow> json_parse t = Some JNull"

definition text_struct :: "(string \<times> 'a text_decoder) list \<Rightarrow> 'a text_decoder" where
  "text_struct fs t x = (case members t of Some kts \<Rightarrow> text_fields fs kts x | None \<Rightarrow> if is_null t then Ok x else Err JsonType)"

fun text_elems :: "'a text_decoder \<Rightarrow> 'a \<Rightarrow> string list \<Rightarrow> (json_error, 'a list) outcome" where
  "text_elems d z [] = Ok []"
| "text_elems d z (t # ts) =
     (case d t z of
        Panic \<Rightarrow> Panic
      | Err e \<Rightarrow> (case text_elems d z ts of Panic \<Rightarrow> Panic | _ \<Rightarrow> Err e)
      | Ok v \<Rightarrow> obind (text_elems d z ts) (\<lambda>vs. Ok (v # vs)))"

definition text_list :: "'a text_decoder \<Rightarrow> 'a \<Rightarrow> 'a list text_decoder" where
  "text_list d z t x = (case elements t of Some ts \<Rightarrow> text_elems d z ts | None \<Rightarrow> if is_null t then Ok [] else Err JsonType)"

definition text_into :: "('a \<Rightarrow> 'b) \<Rightarrow> ('b \<Rightarrow> 'a \<Rightarrow> 'a) \<Rightarrow> 'b text_decoder \<Rightarrow> 'a text_decoder" where
  "text_into get put d t x = obind (d t (get x)) (\<lambda>v. Ok (put v x))"

definition text_Unmarshal :: "'a text_decoder \<Rightarrow> bytes \<Rightarrow> 'a \<Rightarrow> (json_error, 'a) outcome" where
  "text_Unmarshal d data x = (if json_parse (string_of_bytes data) = None then Err JsonSyntax else d (string_of_bytes data) x)"

text \<open>Objects and arrays made of texts.\<close>

definition object_text :: "(string \<times> string) list \<Rightarrow> string" where
  "object_text kts = ''{'' @ strings_Join (map (\<lambda>(k, t). json_quote k @ '':'' @ t) kts) '','' @ ''}''"

definition array_text :: "string list \<Rightarrow> string" where
  "array_text ts = ''['' @ strings_Join ts '','' @ '']''"

definition text_slice :: "'a text_decoder \<Rightarrow> 'a \<Rightarrow> 'a list option text_decoder" where
  "text_slice d z t x =
     (case elements t of Some ts \<Rightarrow> obind (text_elems d z ts) (\<lambda>vs. Ok (Some vs)) | None \<Rightarrow> if is_null t then Ok None else Err JsonType)"

definition text_pointer :: "'a text_decoder \<Rightarrow> 'a \<Rightarrow> 'a option text_decoder" where
  "text_pointer d z t x = (if is_null t then Ok None else obind (d t (case x of None \<Rightarrow> z | Some v \<Rightarrow> v)) (\<lambda>v. Ok (Some v)))"

definition decode_raw :: "string text_decoder" where
  "decode_raw t x = Ok t"

definition text_map :: "(string \<rightharpoonup> string) text_decoder" where
  "text_map t m =
     (case members t of
        Some kts \<Rightarrow> Ok (foldl (\<lambda>m (k, t). m(k \<mapsto> t)) m kts)
      | None \<Rightarrow> if is_null t then Ok Map.empty else Err JsonType)"

section \<open>Requests\<close>

record dns_request =
  dr_ID :: bytes
  dr_Query :: query

definition RequestID_json :: "bytes \<Rightarrow> json" where
  "RequestID_json x = JBytes x"

definition decode_RequestID :: "bytes decoder" where
  "decode_RequestID j x = obind (decode_bytes j []) (\<lambda>s. Ok (gocopy x s))"

text \<open>Empty slices and nil pointers of a predicate are left out.\<close>

definition exact_text :: "string \<times> string \<Rightarrow> string option" where
  "exact_text e = map_option (\<lambda>v. object_text [(''key'', json_quote (fst e)), (''value'', v)]) (raw_text (snd e))"

fun predicate_text :: "predicate \<Rightarrow> string option" where
  "predicate_text (Predicate ands ors exact key) = map_option object_text (those (
     (case ands of None \<Rightarrow> [] | Some ps \<Rightarrow> if ps = [] then [] else [map_option (\<lambda>ts. (''and'', array_text ts)) (those (map predicate_text ps))]) @
     (case ors of None \<Rightarrow> [] | Some ps \<Rightarrow> if ps = [] then [] else [map_option (\<lambda>ts. (''or'', array_text ts)) (those (map predicate_text ps))]) @
     (case exact of None \<Rightarrow> [] | Some e \<Rightarrow> [map_option (\<lambda>t. (''exact'', t)) (exact_text e)]) @
     (case key of None \<Rightarrow> [] | Some k \<Rightarrow> [Some (''has_key'', json_quote k)])))"

text \<open>An empty path is null if it is nil, which \<open>nilp\<close> tells.\<close>

definition Path_text :: "bool \<Rightarrow> path \<Rightarrow> string" where
  "Path_text nilp p = (if p = [] \<and> nilp then ''null'' else array_text (map json_quote p))"

definition Request_text :: "bool \<Rightarrow> dns_request \<Rightarrow> string option" where
  "Request_text nilp req =
     map_option (\<lambda>f. object_text
       [(''id'', json_print (RequestID_json (dr_ID req))),
        (''query'', object_text [(''path'', Path_text nilp (q_Path (dr_Query req))), (''filter'', f)])])
       (predicate_text (q_Filter (dr_Query req)))"

definition any_predicate :: predicate where
  "any_predicate = Predicate None None None None"

definition Exact_fields :: "(string \<times> (string \<times> string) text_decoder) list" where
  "Exact_fields = [(''key'', text_into fst (\<lambda>v e. (v, snd e)) (of_json decode_string)), (''value'', text_into snd (\<lambda>v e. (fst e, v)) decode_raw)]"

text \<open>The text of a nested predicate is shorter, so that the length of the text is enough fuel.\<close>

fun decode_predicate :: "nat \<Rightarrow> predicate text_decoder" where
  "decode_predicate 0 t x = Err JsonSyntax"
| "decode_predicate (Suc n) t x = text_struct
     [(''and'', text_into p_And (\<lambda>v p. Predicate v (p_Or p) (p_Exact p) (p_HasKey p)) (text_slice (decode_predicate n) any_predicate)),
      (''or'', text_into p_Or (\<lambda>v p. Predicate (p_And p) v (p_Exact p) (p_HasKey p)) (text_slice (decode_predicate n) any_predicate)),
      (''exact'', text_into p_Exact (\<lambda>v p. Predicate (p_And p) (p_Or p) v (p_HasKey p)) (text_pointer (text_struct Exact_fields) ('''', ''''))),
      (''has_key'', text_into p_HasKey (\<lambda>v p. Predicate (p_And p) (p_Or p) (p_Exact p) v) (text_pointer (of_json decode_string) ''''))] t x"

definition Query_fields :: "(string \<times> query text_decoder) list" where
  "Query_fields =
     [(''path'', text_into q_Path (\<lambda>v q. q\<lparr>q_Path := v\<rparr>) (of_json (decode_list decode_string ''''))),
      (''filter'', text_into q_Filter (\<lambda>v q. q\<lparr>q_Filter := v\<rparr>) (\<lambda>t. decode_predicate (length t) t))]"

definition Request_fields :: "(string \<times> dns_request text_decoder) list" where
  "Request_fields =
     [(''id'', text_into dr_ID (\<lambda>v r. r\<lparr>dr_ID := v\<rparr>) (of_json decode_RequestID)),
      (''query'', text_into dr_Query (\<lambda>v r. r\<lparr>dr_Query := v\<rparr>) (text_struct Query_fields))]"

definition zero_request :: dns_request where
  "zero_request = \<lparr>dr_ID = replicate 16 0, dr_Query = \<lparr>q_Path = [], q_Filter = any_predicate\<rparr>\<rparr>"

section \<open>Responses\<close>

text \<open>
  The JSON form of the time, which servers leave at zero, and the keys of a record, which are written in order;
  \<open>wi_nil\<close> tells whether a record without keys is nil.
\<close>

record wire =
  wi_zero :: json
  wi_time :: "json \<Rightarrow> bool"
  wi_keys :: "dns_record \<Rightarrow> string list"
  wi_nil :: bool

definition Record_text :: "wire \<Rightarrow> dns_record \<Rightarrow> string option" where
  "Record_text W r =
     (if wi_keys W r = [] \<and> wi_nil W then Some ''null''
      else map_option object_text (those (map (\<lambda>k. map_option (\<lambda>t. (k, t)) (raw_text (value_of r k))) (sort (wi_keys W r)))))"

definition Claim_text :: "wire \<Rightarrow> claim \<Rightarrow> string option" where
  "Claim_text W c = map_option (\<lambda>t. object_text [(''record'', t), (''ttl'', json_print (JInt (uint (cl_TTL c))))]) (Record_text W (cl_Record c))"

text \<open>Claims that were never appended to are null.\<close>

definition Response_text :: "wire \<Rightarrow> response \<Rightarrow> string option" where
  "Response_text W res =
     map_option (\<lambda>ts. object_text
       [(''req_id'', json_print (RequestID_json (res_RequestID res))), (''now'', json_print (wi_zero W)),
        (''is_redirect'', json_print (JBool (res_IsRedirect res))), (''claims'', if ts = [] then ''null'' else array_text ts)])
       (those (map (Claim_text W) (res_Claims res)))"

definition Claim_fields :: "(string \<times> claim text_decoder) list" where
  "Claim_fields =
     [(''record'', text_into cl_Record (\<lambda>v c. c\<lparr>cl_Record := v\<rparr>) text_map),
      (''ttl'', text_into (\<lambda>c. unat (cl_TTL c)) (\<lambda>v c. c\<lparr>cl_TTL := of_nat v\<rparr>) (of_json (decode_uint 32)))]"

definition zero_claim :: claim where
  "zero_claim = \<lparr>cl_Record = Map.empty, cl_TTL = 0\<rparr>"

definition dns_Response_fields :: "wire \<Rightarrow> (string \<times> response text_decoder) list" where
  "dns_Response_fields W =
     [(''req_id'', text_into res_RequestID (\<lambda>v r. r\<lparr>res_RequestID := v\<rparr>) (of_json decode_RequestID)),
      (''now'', of_json (\<lambda>j r. if wi_time W j then Ok r else Err JsonType)),
      (''is_redirect'', text_into res_IsRedirect (\<lambda>v r. r\<lparr>res_IsRedirect := v\<rparr>) (of_json decode_bool)),
      (''claims'', text_into res_Claims (\<lambda>v r. r\<lparr>res_Claims := v\<rparr>) (text_list (text_struct Claim_fields) zero_claim))]"

definition zero_response :: response where
  "zero_response = \<lparr>res_RequestID = replicate 16 0, res_IsRedirect = False, res_Claims = []\<rparr>"

section \<open>The server and the client on a node\<close>

text \<open>
  One turn of \<^verbatim>\<open>Serve\<close> on a node of the service \<open>S\<close>, with the goroutine that answers: \<open>None\<close> while nothing arrives, an
  error when \<^verbatim>\<open>Serve\<close> returns, which is nil (\<open>None\<close>) if the context was cancelled. Texts that do not parse and failing
  sends are logged.
\<close>

definition Serve_step ::
  "('s, 'k, 'h, 'p, 'e) service_api \<Rightarrow> ('e \<Rightarrow> bool) \<Rightarrow> wire \<Rightarrow> (response \<Rightarrow> query \<Rightarrow> response \<times> bool) \<Rightarrow> 'h \<Rightarrow> 's \<Rightarrow> ('e option, 's) outcome option" where
  "Serve_step S canceled W h node s =
     (case sa_Receive S node s of
        None \<Rightarrow> None
      | Some (s1, Err e) \<Rightarrow> Some (Err (if canceled e then None else Some e))
      | Some (s1, Panic) \<Rightarrow> Some Panic
      | Some (s1, Ok msg) \<Rightarrow> Some (
          case text_Unmarshal (text_struct Request_fields) (m_Payload msg) zero_request of
            Err e \<Rightarrow> Ok s1
          | Panic \<Rightarrow> Panic
          | Ok req \<Rightarrow>
              (case dns_reply h (m_Src msg) (dr_ID req) (dr_Query req) of
                 None \<Rightarrow> Ok s1
               | Some (replyTo, res) \<Rightarrow>
                   (case Response_text W res of
                      None \<Rightarrow> Panic
                    | Some data \<Rightarrow>
                        (case sa_Send S node replyTo (bytes_of_string data) s1 of Ok s2 \<Rightarrow> Ok s2 | Err e \<Rightarrow> Ok s1 | Panic \<Rightarrow> Panic)))))"

text \<open>One turn of the client's read loop.\<close>

definition readLoop_step ::
  "('s, 'k, 'h, 'p, 'e) service_api \<Rightarrow> wire \<Rightarrow> ('t, addr \<times> bytes, 'f, response, 'g) futures \<Rightarrow> 'h \<Rightarrow> 's \<times> 't \<Rightarrow> ('e, 's \<times> 't) outcome option" where
  "readLoop_step S W F node = (\<lambda>(s, reqs).
     case sa_Receive S node s of
       None \<Rightarrow> None
     | Some (s1, Err e) \<Rightarrow> Some (Err e)
     | Some (s1, Panic) \<Rightarrow> Some Panic
     | Some (s1, Ok msg) \<Rightarrow> Some (
         case text_Unmarshal (text_struct (dns_Response_fields W)) (m_Payload msg) zero_response of
           Err e \<Rightarrow> Ok (s1, reqs)
         | Panic \<Rightarrow> Panic
         | Ok res \<Rightarrow> Ok (s1, dns_client_receive F (m_Src msg) res reqs)))"

datatype ('e, 'g) do_error = NoRandom | NotEncodable | NotSent 'e | NotAnswered 'g

text \<open>
  \<^verbatim>\<open>Client.Do\<close>: \<open>rnd\<close> are the random bytes, \<open>others\<close> is what the read loop and everyone else does until the call is
  woken. The entry of a call that made it is deleted when the call returns.
\<close>

definition client_Do ::
  "('s, 'k, 'h, 'p, 'e) service_api \<Rightarrow> bool \<Rightarrow> ('t, addr \<times> bytes, 'f, response, 'g) futures \<Rightarrow> ('s \<times> 't \<Rightarrow> 's \<times> 't) \<Rightarrow> 'h \<Rightarrow>
   bytes option \<Rightarrow> addr \<Rightarrow> query \<Rightarrow> 's \<times> 't \<Rightarrow> ('s \<times> 't) \<times> (('e, 'g) do_error, response) outcome" where
  "client_Do S nilp F others node rnd dst q = (\<lambda>(s, reqs).
     case rnd of
       None \<Rightarrow> ((s, reqs), Err NoRandom)
     | Some reqID \<Rightarrow>
         (case Request_text nilp \<lparr>dr_ID = reqID, dr_Query = q\<rparr> of
            None \<Rightarrow> ((s, reqs), Err NotEncodable)
          | Some data \<Rightarrow>
              (let (reqs1, prom, created) = fs_getOrCreate F reqs (dst, reqID);
                   leave = (\<lambda>t. if created then fs_delete F t (dst, reqID) prom else t)
               in case sa_Send S node dst (bytes_of_string data) s of
                    Panic \<Rightarrow> ((s, leave reqs1), Panic)
                  | Err e \<Rightarrow> ((s, leave reqs1), Err (NotSent e))
                  | Ok s1 \<Rightarrow>
                      (let (s2, reqs2) = others (s1, reqs1); (reqs3, r) = fs_await F reqs2 prom
                       in ((s2, leave reqs3), err_map NotAnswered r)))))"

text \<open>The others of a call to a server that runs on another node of the service: the server's turn and then the client's.\<close>

definition serve_and_read ::
  "('s, 'k, 'h, 'p, 'e) service_api \<Rightarrow> ('e \<Rightarrow> bool) \<Rightarrow> wire \<Rightarrow> ('t, addr \<times> bytes, 'f, response, 'g) futures \<Rightarrow>
   (response \<Rightarrow> query \<Rightarrow> response \<times> bool) \<Rightarrow> 'h \<Rightarrow> 'h \<Rightarrow> 's \<times> 't \<Rightarrow> 's \<times> 't" where
  "serve_and_read S canceled W F h server client w =
     (case Serve_step S canceled W h server (fst w) of
        Some (Ok s1) \<Rightarrow> (case readLoop_step S W F client (s1, snd w) of Some (Ok w') \<Rightarrow> w' | _ \<Rightarrow> (s1, snd w))
      | _ \<Rightarrow> w)"

section \<open>Reading printed values\<close>

named_theorems wire_simps "the texts of printed values"

lemma compact_in_string:
  "(\<And>c. c \<in> set s \<Longrightarrow> c \<notin> {CHR 0x5C, CHR 0x22, CHR ''<'', CHR ''>'', CHR ''&''}) \<Longrightarrow> compact True (s @ r) = s @ compact True r"
  by (induction s) simp_all

lemma compact_escape: "compact True (json_escape c @ r) = json_escape c @ compact True r"
proof (cases "map_of short_escapes c")
  case (Some e)
  then show ?thesis by (simp add: json_escape_def)
next
  case None
  show ?thesis
  proof (cases "of_char c < (32 :: nat) \<or> c \<in> {CHR ''<'', CHR ''>'', CHR ''&''}")
    case True
    let ?ds = "[CHR ''0'', CHR ''0'', hex_digit (of_char c div 16), hex_digit (of_char c)]"
    have "hex_digit n \<in> set ''0123456789abcdef''" for n unfolding hex_digit_def by (rule nth_mem) simp
    moreover have "set ''0123456789abcdef'' \<inter> {CHR 0x5C, CHR 0x22, CHR ''<'', CHR ''>'', CHR ''&''} = {}" by simp
    ultimately have "hex_digit n \<notin> {CHR 0x5C, CHR 0x22, CHR ''<'', CHR ''>'', CHR ''&''}" for n by blast
    then have "compact True (?ds @ r) = ?ds @ compact True r" by (intro compact_in_string) auto
    moreover have "json_escape c = CHR 0x5C # CHR ''u'' # ?ds" using None True by (simp add: json_escape_def)
    ultimately show ?thesis by (simp only: append_Cons compact.simps(3) simp_thms if_True list.case)
  next
    case False
    with None compact_in_string [of "[c]" r] short_escapes_None [OF None] show ?thesis by (simp add: json_escape_def)
  qed
qed

lemma compact_quote: "compact True (concat (map json_escape s) @ CHR 0x22 # r) = concat (map json_escape s) @ CHR 0x22 # compact False r"
  by (induction s) (simp_all add: compact_escape)

lemma show_int_plain: "c \<in> set (show_int i) \<Longrightarrow> \<not> is_ws c \<and> c \<noteq> CHR 0x22"
proof -
  assume c: "c \<in> set (show_int i)"
  have "is_digit d" if "d \<in> set (show_nat n)" for d n using show_nat_digits [of n] that by (simp add: list_all_iff)
  with c have "c = CHR ''-'' \<or> is_digit c" by (auto simp: show_int_def split: if_splits)
  then show ?thesis by (auto simp: is_digit_def is_ws_def)
qed

lemma compact_plain: "(\<And>c. c \<in> set s \<Longrightarrow> \<not> is_ws c \<and> c \<noteq> CHR 0x22) \<Longrightarrow> compact False (s @ r) = s @ compact False r"
  by (induction s) simp_all

lemma compact_print:
  "json_ok j \<Longrightarrow> compact False (json_print j @ r) = json_print j @ compact False r"
  "list_all json_ok js \<Longrightarrow> compact False (json_elems js @ r) = json_elems js @ compact False r"
  "list_all (\<lambda>kv. json_ok (snd kv)) kvs \<Longrightarrow> compact False (json_members kvs @ r) = json_members kvs @ compact False r"
proof (induction j and js and kvs arbitrary: r and r and r rule: json_print_json_elems_json_members.induct)
  case (3 s)
  then show ?case using compact_plain [OF show_int_plain] by auto
qed (auto simp: json_quote_def compact_quote is_ws_def)
lemma raw_text_print [wire_simps]: "json_ok j \<Longrightarrow> raw_text (json_print j) = Some (json_print j)"
  using compact_print(1) [of j "[]"] json_parse_print [of j] json_print_first [of j] by (auto simp: raw_text_def)

lemma value_text_print:
  assumes "json_ok j" "delimited r"
  shows "value_text (json_print j @ r) = Some (json_print j, r)"
proof -
  have "json_value (Suc (2 * length (json_print j @ r))) (json_print j @ r) = Some (j, r)"
    using assms by (intro json_roundtrip(1)) simp_all
  then show ?thesis using first_not_strip(2) [OF assms(1), of r] by (simp add: value_text_def del: json_value.simps)
qed

abbreviation printed :: "(string \<times> json) list \<Rightarrow> (string \<times> string) list" where
  "printed kvs \<equiv> map (\<lambda>(k, v). (k, json_print v)) kvs"

lemma member_list_print:
  assumes "list_all (\<lambda>kv. json_ok (snd kv)) kvs" "kvs \<noteq> []" "length kvs \<le> n"
  shows "member_list n (json_members kvs @ CHR ''}'' # r) = Some (printed kvs)"
  using assms
proof (induction kvs arbitrary: n rule: induct_list012)
  case (2 kv)
  obtain k v where "kv = (k, v)" by (cases kv)
  moreover obtain m where "n = Suc m" using 2 by (cases n) auto
  ultimately show ?case using 2 value_text_print [of v "CHR ''}'' # r"]
    by (simp add: json_quote_def skip_ws_Cons strip_Cons json_string_quote)
next
  case (3 kv kv' kvs)
  obtain k v where kv: "kv = (k, v)" by (cases kv)
  moreover obtain m where "n = Suc m" "length (kv' # kvs) \<le> m" using 3(5) by (cases n) auto
  moreover have "value_text (json_print v @ CHR '','' # t) = Some (json_print v, CHR '','' # t)" for t
    using 3(3) kv by (intro value_text_print) simp_all
  ultimately show ?case using 3(2) [of m] 3(3)
    by (simp add: json_quote_def skip_ws_Cons strip_Cons json_string_quote)
qed simp

lemma element_list_print:
  assumes "list_all json_ok js" "js \<noteq> []" "length js \<le> n"
  shows "element_list n (json_elems js @ CHR '']'' # r) = Some (map json_print js)"
  using assms
proof (induction js arbitrary: n rule: induct_list012)
  case (2 j)
  obtain m where "n = Suc m" using 2 by (cases n) auto
  then show ?case using 2 value_text_print [of j "CHR '']'' # r"] by (simp add: skip_ws_Cons strip_Cons)
next
  case (3 j j' js)
  moreover obtain m where "n = Suc m" "length (j' # js) \<le> m" using 3(5) by (cases n) auto
  moreover have "value_text (json_print j @ CHR '','' # t) = Some (json_print j, CHR '','' # t)" for t
    using 3(3) by (intro value_text_print) simp_all
  ultimately show ?case by (simp add: skip_ws_Cons strip_Cons)
qed simp

lemma members_print [wire_simps]:
  assumes "json_ok (JObj kvs)"
  shows "members (json_print (JObj kvs)) = Some (printed kvs)"
proof (cases kvs)
  case (Cons kv kvs')
  let ?cs = "json_members kvs @ CHR ''}'' # []"
  have "strip ''}'' (skip_ws ?cs) = None"
    using Cons by (cases kv; cases kvs') (simp_all add: json_quote_def skip_ws_Cons strip_Cons)
  moreover have len: "length xs \<le> length (json_members xs)" for xs by (induction xs rule: induct_list012) (auto simp: json_quote_def)
  have "length kvs \<le> length ?cs" using len [of kvs] by simp
  then have "member_list (length ?cs) ?cs = Some (printed kvs)" using assms Cons by (intro member_list_print) simp_all
  ultimately show ?thesis using Cons by (simp add: members_def skip_ws_Cons)
qed (simp add: members_def skip_ws_Cons strip_Cons)

lemma elements_print [wire_simps]:
  assumes "json_ok (JArr js)"
  shows "elements (json_print (JArr js)) = Some (map json_print js)"
proof (cases js)
  case (Cons j js')
  let ?cs = "json_elems js @ CHR '']'' # []"
  have "strip '']'' (skip_ws ?cs) = None"
    using assms first_not_strip(1) [of j] Cons by (cases js') simp_all
  moreover have len: "length xs \<le> length (json_elems xs)" if "list_all json_ok xs" for xs
    using that by (induction xs rule: induct_list012) (auto simp: Suc_le_eq dest: json_print_length)
  have "length js \<le> length ?cs" using assms len [of js] by simp
  then have "element_list (length ?cs) ?cs = Some (map json_print js)" using assms Cons by (intro element_list_print) simp_all
  ultimately show ?thesis using Cons by (simp add: elements_def skip_ws_Cons)
qed (simp add: elements_def skip_ws_Cons strip_Cons)

lemma null_print [wire_simps]: "members ''null'' = None" "elements ''null'' = None" "is_null ''null''"
  using json_parse_print [of JNull] by (simp_all add: members_def elements_def skip_ws_Cons is_null_def)

lemma is_null_print [wire_simps]: "json_ok j \<Longrightarrow> is_null (json_print j) \<longleftrightarrow> j = JNull"
  by (simp add: is_null_def json_parse_print)

lemma of_json_print [wire_simps]: "json_ok j \<Longrightarrow> of_json d (json_print j) x = d j x"
  by (simp add: of_json_def json_parse_print)

lemma text_struct_print [wire_simps]: "json_ok (JObj kvs) \<Longrightarrow> text_struct fs (json_print (JObj kvs)) x = text_fields fs (printed kvs) x"
  by (simp add: text_struct_def members_print del: json_ok.simps json_print.simps)

lemma Unmarshal_print [wire_simps]: "json_ok j \<Longrightarrow> text_Unmarshal d (bytes_of_string (json_print j)) x = d (json_print j) x"
  by (simp add: text_Unmarshal_def json_parse_print)

lemma object_print: "object_text (printed kvs) = json_print (JObj kvs)"
proof -
  have "strings_Join (map (\<lambda>(k, t). json_quote k @ '':'' @ t) (printed kvs)) '','' = json_members kvs"
    by (induction kvs rule: induct_list012) (auto simp: split_def)
  then show ?thesis by (simp add: object_text_def)
qed

lemma array_print: "array_text (map json_print js) = json_print (JArr js)"
proof -
  have "strings_Join (map json_print js) '','' = json_elems js" by (induction js rule: induct_list012) simp_all
  then show ?thesis by (simp add: array_text_def)
qed

lemma quote_print: "json_quote s = json_print (JStr s)"
  by simp

lemma those_map: "(\<And>x. x \<in> set xs \<Longrightarrow> f x = Some (g x)) \<Longrightarrow> those (map f xs) = Some (map g xs)"
  by (induction xs) simp_all

lemma text_elems_print:
  "(\<And>v. v \<in> set vs \<Longrightarrow> d (json_print (enc v)) z = Ok v) \<Longrightarrow> text_elems d z (map json_print (map enc vs)) = Ok vs"
  by (induction vs) simp_all

section \<open>The round trip of requests\<close>

text \<open>Values as \<^verbatim>\<open>NewValue\<close> makes them, and predicates of such values without empty slices.\<close>

definition is_raw :: "string \<Rightarrow> bool" where
  "is_raw t \<longleftrightarrow> (\<exists>j. json_ok j \<and> t = json_print j)"

fun wire_ok :: "predicate \<Rightarrow> bool" where
  "wire_ok (Predicate ands ors exact key) \<longleftrightarrow>
     (case ands of None \<Rightarrow> True | Some ps \<Rightarrow> ps \<noteq> [] \<and> list_all wire_ok ps) \<and>
     (case ors of None \<Rightarrow> True | Some ps \<Rightarrow> ps \<noteq> [] \<and> list_all wire_ok ps) \<and>
     (case exact of None \<Rightarrow> True | Some e \<Rightarrow> is_raw (snd e))"

text \<open>The JSON value of a raw message and of a predicate.\<close>

definition raw_json :: "string \<Rightarrow> json" where
  "raw_json t = the (json_parse t)"

lemma raw_json:
  assumes "is_raw t"
  shows "json_ok (raw_json t)" "json_print (raw_json t) = t" "raw_text t = Some t"
  using assms by (auto simp: is_raw_def raw_json_def json_parse_print raw_text_print)

definition exact_json :: "string \<times> string \<Rightarrow> json" where
  "exact_json e = JObj [(''key'', JStr (fst e)), (''value'', raw_json (snd e))]"

fun predicate_json :: "predicate \<Rightarrow> json" where
  "predicate_json (Predicate ands ors exact key) = JObj (
     (case ands of None \<Rightarrow> [] | Some ps \<Rightarrow> [(''and'', JArr (map predicate_json ps))]) @
     (case ors of None \<Rightarrow> [] | Some ps \<Rightarrow> [(''or'', JArr (map predicate_json ps))]) @
     (case exact of None \<Rightarrow> [] | Some e \<Rightarrow> [(''exact'', exact_json e)]) @
     (case key of None \<Rightarrow> [] | Some k \<Rightarrow> [(''has_key'', JStr k)]))"

lemma exact_print:
  assumes "is_raw (snd e)"
  shows "json_ok (exact_json e)" "exact_text e = Some (json_print (exact_json e))"
    "text_pointer (text_struct Exact_fields) z (json_print (exact_json e)) x = Ok (Some e)"
proof -
  note raw = raw_json [OF assms]
  have kvs: "[(''key'', json_quote (fst e)), (''value'', snd e)] = printed [(''key'', JStr (fst e)), (''value'', raw_json (snd e))]"
    by (simp add: raw)
  show ok: "json_ok (exact_json e)" by (simp add: exact_json_def raw)
  show "exact_text e = Some (json_print (exact_json e))"
    unfolding exact_text_def raw(3) option.map kvs object_print exact_json_def ..
  have "text_struct Exact_fields (json_print (exact_json e)) x = Ok e" for x
    using ok unfolding exact_json_def
    by (subst text_struct_print) (simp_all add: Exact_fields_def text_field_def text_into_def decode_raw_def raw of_json_print [of "JStr _", simplified] decode_string_def)
  moreover have "\<not> is_null (json_print (exact_json e))" using is_null_print [OF ok] by (simp add: exact_json_def)
  ultimately show "text_pointer (text_struct Exact_fields) z (json_print (exact_json e)) x = Ok (Some e)"
    by (simp add: text_pointer_def)
qed

lemma predicate_json_ok: "wire_ok p \<Longrightarrow> json_ok (predicate_json p)"
proof (induction p rule: predicate_json.induct)
  case (1 ands ors exact key)
  then show ?case using exact_print(1) by (auto simp: list.pred_set split: option.splits)
qed

lemma predicate_text_print: "wire_ok p \<Longrightarrow> predicate_text p = Some (json_print (predicate_json p))"
proof (induction p rule: predicate_json.induct)
  case (1 ands ors exact key)
  have list: "those (map predicate_text ps) = Some (map json_print (map predicate_json ps))" if "ands = Some ps \<or> ors = Some ps" for ps
    unfolding map_map using 1 that by (intro those_map) (auto simp: list.pred_set split: option.splits)
  let ?kvs = "(case ands of None \<Rightarrow> [] | Some ps \<Rightarrow> [(''and'', JArr (map predicate_json ps))]) @
     (case ors of None \<Rightarrow> [] | Some ps \<Rightarrow> [(''or'', JArr (map predicate_json ps))]) @
     (case exact of None \<Rightarrow> [] | Some e \<Rightarrow> [(''exact'', exact_json e)]) @
     (case key of None \<Rightarrow> [] | Some k \<Rightarrow> [(''has_key'', JStr k)])"
  have "predicate_text (Predicate ands ors exact key) = Some (object_text (printed ?kvs))"
    using 1(3) list exact_print(2) by (auto simp: array_print [of "map predicate_json _", unfolded map_map] simp del: json_print.simps(5) split: option.splits)
  then show ?case by (simp only: object_print predicate_json.simps)
qed

lemma length_json_elems: "j \<in> set js \<Longrightarrow> length (json_print j) \<le> length (json_elems js)"
  by (induction js rule: induct_list012) auto

lemma text_field_predicate:
  "text_field [(''and'', a), (''or'', b), (''exact'', c), (''has_key'', d)] ''and'' = Some a"
  "text_field [(''and'', a), (''or'', b), (''exact'', c), (''has_key'', d)] ''or'' = Some b"
  "text_field [(''and'', a), (''or'', b), (''exact'', c), (''has_key'', d)] ''exact'' = Some c"
  "text_field [(''and'', a), (''or'', b), (''exact'', c), (''has_key'', d)] ''has_key'' = Some d"
  by (simp_all add: text_field_def)

lemma decode_predicate_print: "wire_ok p \<Longrightarrow> length (json_print (predicate_json p)) \<le> n \<Longrightarrow> decode_predicate n (json_print (predicate_json p)) any_predicate = Ok p"
proof (induction p arbitrary: n rule: predicate_json.induct)
  case (1 ands ors exact key)
  let ?p = "Predicate ands ors exact key"
  obtain m where n: "n = Suc m" using "1.prems"(2) by (cases n) auto
  have slice: "text_slice (decode_predicate m) any_predicate (json_print (JArr (map predicate_json ps))) x = Ok (Some ps)"
    if ps: "ands = Some ps \<or> ors = Some ps" for ps x
  proof -
    have ok: "\<forall>p \<in> set ps. wire_ok p" using "1.prems"(1) ps by (auto simp: list.pred_set split: option.splits)
    then have "json_ok (JArr (map predicate_json ps))" using predicate_json_ok by (auto simp: list.pred_set)
    note elems = elements_print [OF this]
    have "decode_predicate m (json_print (predicate_json p)) any_predicate = Ok p" if "p \<in> set ps" for p
    proof -
      have "length (json_print (predicate_json p)) \<le> length (json_elems (map predicate_json ps))" using that by (intro length_json_elems) simp
      then have "length (json_print (predicate_json p)) \<le> m" using "1.prems"(2) ps n by (auto split: option.splits)
      then show ?thesis using "1.IH" ps that ok by blast
    qed
    then show ?thesis by (simp add: text_slice_def elems text_elems_print [unfolded map_map] del: json_print.simps json_ok.simps)
  qed
  have key: "text_pointer (of_json decode_string) '''' (json_print (JStr k)) x = Ok (Some k)" for k x
    using is_null_print [of "JStr k"] of_json_print [of "JStr k" decode_string] by (simp add: text_pointer_def decode_string_def)
  have exact: "text_pointer (text_struct Exact_fields) ('''', '''') (json_print (exact_json e)) x = Ok (Some e)" if "exact = Some e" for e x
    using "1.prems"(1) that by (intro exact_print(3)) simp
  have "json_ok (predicate_json ?p)" by (rule predicate_json_ok) (rule "1.prems"(1))
  then show ?case using slice key exact unfolding n decode_predicate.simps predicate_json.simps
    by (subst text_struct_print)
      (auto simp: text_field_predicate text_into_def any_predicate_def simp del: json_print.simps json_ok.simps split: option.splits)
qed

definition Path_json :: "bool \<Rightarrow> path \<Rightarrow> json" where
  "Path_json nilp p = (if p = [] \<and> nilp then JNull else JArr (map JStr p))"

lemma Path_print:
  "Path_text nilp p = json_print (Path_json nilp p)" "json_ok (Path_json nilp p)" "decode_list decode_string z (Path_json nilp p) x = Ok p"
  using array_print [of "map JStr p"] by (auto simp: Path_text_def Path_json_def comp_def list.pred_set decode_list_def decode_elems_map decode_string_def)

definition Request_json :: "bool \<Rightarrow> dns_request \<Rightarrow> json" where
  "Request_json nilp req = JObj
     [(''id'', RequestID_json (dr_ID req)),
      (''query'', JObj [(''path'', Path_json nilp (q_Path (dr_Query req))), (''filter'', predicate_json (q_Filter (dr_Query req)))])]"

lemma RequestID_print:
  "json_ok (RequestID_json x)" "length x = length y \<Longrightarrow> of_json decode_RequestID (json_print (RequestID_json x)) y = Ok x"
  using of_json_print [of "JBytes x" decode_RequestID y] by (simp_all add: RequestID_json_def decode_RequestID_def decode_JBytes gocopy_exact)

lemma Request_print:
  assumes "length (dr_ID req) = 16" "wire_ok (q_Filter (dr_Query req))"
  shows "Request_text nilp req = Some (json_print (Request_json nilp req))" "json_ok (Request_json nilp req)"
    "text_struct Request_fields (json_print (Request_json nilp req)) zero_request = Ok req"
proof -
  let ?f = "predicate_json (q_Filter (dr_Query req))" and ?p = "Path_json nilp (q_Path (dr_Query req))"
  let ?q = "[(''path'', ?p), (''filter'', ?f)]"
  note pred = predicate_text_print [OF assms(2)] predicate_json_ok [OF assms(2)]
  have "Request_text nilp req = Some (object_text (printed [(''id'', RequestID_json (dr_ID req)), (''query'', JObj ?q)]))"
    by (simp add: Request_text_def pred Path_print(1) object_print [of ?q, unfolded list.map prod.case] del: json_print.simps)
  then show "Request_text nilp req = Some (json_print (Request_json nilp req))" by (simp only: object_print Request_json_def)
  have q: "json_ok (JObj ?q)" using pred(2) Path_print(2) by simp
  then show ok: "json_ok (Request_json nilp req)" by (simp add: Request_json_def RequestID_print)
  have "text_struct Query_fields (json_print (JObj ?q)) \<lparr>q_Path = [], q_Filter = any_predicate\<rparr> = Ok (dr_Query req)"
    using q decode_predicate_print [OF assms(2) order_refl]
    by (subst text_struct_print) (simp_all add: Query_fields_def text_field_def text_into_def of_json_print [OF Path_print(2)] Path_print(3) del: json_print.simps)
  with ok show "text_struct Request_fields (json_print (Request_json nilp req)) zero_request = Ok req"
    unfolding Request_json_def
    by (subst text_struct_print) (simp_all add: Request_fields_def text_field_def text_into_def zero_request_def RequestID_print assms(1) del: json_print.simps)
qed

section \<open>The round trip of responses\<close>

text \<open>What \<^verbatim>\<open>tai64\<close> promises about the zero time, and Go about the keys of a map.\<close>

definition wire_laws :: "wire \<Rightarrow> bool" where
  "wire_laws W \<longleftrightarrow> json_ok (wi_zero W) \<and> wi_time W (wi_zero W) \<and> (\<forall>r. finite (dom r) \<longrightarrow> enumerates (wi_keys W r) r)"

definition record_ok :: "dns_record \<Rightarrow> bool" where
  "record_ok r \<longleftrightarrow> finite (dom r) \<and> (\<forall>v \<in> ran r. is_raw v)"

definition Record_json :: "wire \<Rightarrow> dns_record \<Rightarrow> json" where
  "Record_json W r =
     (if wi_keys W r = [] \<and> wi_nil W then JNull else JObj (map (\<lambda>k. (k, raw_json (value_of r k))) (sort (wi_keys W r))))"

lemma foldl_upd_map_of: "distinct (map fst kvs) \<Longrightarrow> foldl (\<lambda>m (k, t). m(k \<mapsto> t)) m kvs = m ++ map_of kvs"
proof (induction kvs arbitrary: m)
  case (Cons kv kvs)
  have "map_of kvs (fst kv) = None" using Cons.prems by (simp add: map_of_eq_None_iff)
  then have "m(fst kv \<mapsto> snd kv) ++ map_of kvs = m ++ map_of (kv # kvs)" by (cases kv) (simp add: map_add_upd_left domIff)
  with Cons.IH [of "m(fst kv \<mapsto> snd kv)"] Cons.prems show ?case by (simp only: foldl_Cons list.map distinct.simps case_prod_beta)
qed simp

lemma Record_print:
  assumes "wire_laws W" "record_ok r"
  shows "Record_text W r = Some (json_print (Record_json W r))" "json_ok (Record_json W r)"
    "text_map (json_print (Record_json W r)) Map.empty = Ok r"
proof -
  let ?ks = "sort (wi_keys W r)" and ?kvs = "map (\<lambda>k. (k, raw_json (value_of r k))) (sort (wi_keys W r))"
  have ks: "set (wi_keys W r) = dom r" "distinct (wi_keys W r)" using assms by (auto simp: wire_laws_def record_ok_def enumerates_def)
  have raw: "is_raw (value_of r k)" "value_of r k = the (r k)" if "k \<in> set ?ks" for k
    using that assms(2) ks(1) by (auto simp: record_ok_def value_of_def ran_def)
  have printed: "map (\<lambda>k. (k, value_of r k)) ?ks = printed ?kvs" using raw(1) raw_json(2) by simp
  have "those (map (\<lambda>k. map_option (\<lambda>t. (k, t)) (raw_text (value_of r k))) ?ks) = Some (map (\<lambda>k. (k, value_of r k)) ?ks)"
    using raw(1) raw_json(3) by (intro those_map) simp
  then have those: "those (map (\<lambda>k. map_option (\<lambda>t. (k, t)) (raw_text (value_of r k))) ?ks) = Some (printed ?kvs)" unfolding printed .
  show "Record_text W r = Some (json_print (Record_json W r))"
    unfolding Record_text_def Record_json_def those option.map object_print by simp
  show ok: "json_ok (Record_json W r)" using raw(1) raw_json(1) by (simp add: Record_json_def list.pred_set)
  have "map_of (map (\<lambda>k. (k, value_of r k)) ?ks) = r"
  proof
    fix k
    show "map_of (map (\<lambda>k. (k, value_of r k)) ?ks) k = r k"
      using ks(1) raw(2) [of k] by (cases "k \<in> dom r") (auto simp: map_of_map_restrict restrict_map_def domIff)
  qed
  then have "foldl (\<lambda>m (k, t). m(k \<mapsto> t)) Map.empty (printed ?kvs) = r"
    unfolding printed [symmetric] using ks(2) by (subst foldl_upd_map_of) (simp_all add: comp_def)
  moreover have "r = Map.empty" if "wi_keys W r = []" using ks(1) that by (metis dom_eq_empty_conv list.set(1))
  ultimately show "text_map (json_print (Record_json W r)) Map.empty = Ok r"
    using ok by (auto simp: text_map_def Record_json_def members_print null_print simp del: json_ok.simps json_print.simps(6))
qed

definition Claim_json :: "wire \<Rightarrow> claim \<Rightarrow> json" where
  "Claim_json W c = JObj [(''record'', Record_json W (cl_Record c)), (''ttl'', JInt (uint (cl_TTL c)))]"

lemma Claim_print:
  assumes "wire_laws W" "record_ok (cl_Record c)"
  shows "Claim_text W c = Some (json_print (Claim_json W c))" "json_ok (Claim_json W c)"
    "text_struct Claim_fields (json_print (Claim_json W c)) zero_claim = Ok c"
proof -
  note rec = Record_print [OF assms]
  let ?kvs = "[(''record'', Record_json W (cl_Record c)), (''ttl'', JInt (uint (cl_TTL c)))]"
  show "Claim_text W c = Some (json_print (Claim_json W c))"
    unfolding Claim_text_def rec(1) option.map Claim_json_def object_print [of ?kvs, unfolded list.map prod.case] ..
  show ok: "json_ok (Claim_json W c)" by (simp add: Claim_json_def rec(2))
  have "of_json (decode_uint 32) (json_print (JInt (uint (cl_TTL c)))) 0 = Ok (unat (cl_TTL c))"
    using of_json_print [of "JInt (uint (cl_TTL c))" "decode_uint 32"] decode_JUint [of "cl_TTL c" 0] by simp
  with ok rec(3) show "text_struct Claim_fields (json_print (Claim_json W c)) zero_claim = Ok c"
    unfolding Claim_json_def
    by (subst text_struct_print) (simp_all add: Claim_fields_def text_field_def text_into_def zero_claim_def del: json_print.simps)
qed

definition dns_Response_json :: "wire \<Rightarrow> response \<Rightarrow> json" where
  "dns_Response_json W res = JObj
     [(''req_id'', RequestID_json (res_RequestID res)), (''now'', wi_zero W), (''is_redirect'', JBool (res_IsRedirect res)),
      (''claims'', if res_Claims res = [] then JNull else JArr (map (Claim_json W) (res_Claims res)))]"

lemma Response_print:
  assumes "wire_laws W" "\<forall>c \<in> set (res_Claims res). record_ok (cl_Record c)" "length (res_RequestID res) = 16"
  shows "Response_text W res = Some (json_print (dns_Response_json W res))" "json_ok (dns_Response_json W res)"
    "text_struct (dns_Response_fields W) (json_print (dns_Response_json W res)) zero_response = Ok res"
proof -
  note claim = Claim_print [OF assms(1)]
  let ?cs = "if res_Claims res = [] then JNull else JArr (map (Claim_json W) (res_Claims res))"
  let ?kvs = "[(''req_id'', RequestID_json (res_RequestID res)), (''now'', wi_zero W), (''is_redirect'', JBool (res_IsRedirect res)), (''claims'', ?cs)]"
  have those: "those (map (Claim_text W) (res_Claims res)) = Some (map json_print (map (Claim_json W) (res_Claims res)))"
    unfolding map_map using assms(2) claim(1) by (intro those_map) simp
  have cs: "(if map json_print (map (Claim_json W) (res_Claims res)) = [] then ''null'' else array_text (map json_print (map (Claim_json W) (res_Claims res)))) = json_print ?cs"
    unfolding array_print by simp
  show "Response_text W res = Some (json_print (dns_Response_json W res))"
    unfolding Response_text_def those option.map cs dns_Response_json_def object_print [of ?kvs, unfolded list.map prod.case] ..
  have ok_cs: "json_ok ?cs" using assms(2) claim(2) by (simp add: list.pred_set)
  then show ok: "json_ok (dns_Response_json W res)" using assms(1) by (simp add: dns_Response_json_def RequestID_print(1) wire_laws_def)
  have "text_list (text_struct Claim_fields) zero_claim (json_print ?cs) [] = Ok (res_Claims res)"
  proof (cases "res_Claims res = []")
    case False
    with ok_cs have "elements (json_print ?cs) = Some (map json_print (map (Claim_json W) (res_Claims res)))"
      by (simp only: if_False elements_print)
    moreover have "text_elems (text_struct Claim_fields) zero_claim (map json_print (map (Claim_json W) (res_Claims res))) = Ok (res_Claims res)"
      using assms(2) claim(3) by (intro text_elems_print) simp
    ultimately show ?thesis by (simp only: text_list_def option.case)
  qed (simp add: text_list_def null_print)
  moreover have "of_json decode_bool (json_print (JBool b)) x = Ok b" for b x by (subst of_json_print) (simp_all add: decode_bool_def)
  moreover have "of_json d (json_print (wi_zero W)) x = d (wi_zero W) x" "wi_time W (wi_zero W)" for d and x :: response
    using assms(1) by (simp_all add: wire_laws_def of_json_print)
  ultimately show "text_struct (dns_Response_fields W) (json_print (dns_Response_json W res)) zero_response = Ok res"
    using ok RequestID_print(2) [of "res_RequestID res" "replicate 16 0"] assms(3) unfolding dns_Response_json_def
    by (subst text_struct_print) (simp_all add: dns_Response_fields_def text_field_def text_into_def zero_response_def del: json_print.simps)
qed

section \<open>Asking over the network\<close>

text \<open>What the package \<^verbatim>\<open>futures\<close> promises about a key that is not in use: its promise can be found, and waiting gives what it was completed with.\<close>

definition futures_laws :: "('t, 'k, 'f, 'v, 'g) futures \<Rightarrow> bool" where
  "futures_laws F \<longleftrightarrow> (\<forall>t k t' p created. fs_get F t k = None \<longrightarrow> fs_getOrCreate F t k = (t', p, created) \<longrightarrow>
     fs_get F t' k = Some p \<and> (\<forall>v. snd (fs_await F (fst (fs_succeed F t' p v)) p) = Ok v))"

text \<open>The answer of a handler that runs on the same machine.\<close>

definition answer :: "(response \<Rightarrow> query \<Rightarrow> response \<times> bool) \<Rightarrow> bytes \<Rightarrow> query \<Rightarrow> response" where
  "answer h reqID q = (fst (h zero_response q))\<lparr>res_RequestID := reqID\<rparr>"

lemma dns_reply_answer: "snd (h zero_response q) \<Longrightarrow> dns_reply h src reqID q = Some (src, answer h reqID q)"
  by (simp add: dns_reply_def answer_def zero_response_def split_def Let_def)

context conforming
begin

lemma asked_is_answered:
  fixes F :: "('t, addr \<times> bytes, 'f, response, 'g) futures"
  assumes "wf s" "\<forall>i h. opened s i = Some h \<longrightarrow> inbox s h = []" "opened s i = Some client" "opened s j = Some server"
    and "futures_laws F" "fs_get F reqs (j, reqID) = None" "wire_laws W" "length reqID = 16" "wire_ok (q_Filter q)"
    and "snd (h zero_response q)" "\<forall>c \<in> set (res_Claims (answer h reqID q)). record_ok (cl_Record c)"
  shows "\<exists>s' reqs'. client_Do S nilp F (serve_and_read S canceled W F h server client) client (Some reqID) j q (s, reqs) =
     ((s', reqs'), Ok (answer h reqID q)) \<and> wf s' \<and> (\<forall>i h. opened s' i = Some h \<longrightarrow> inbox s' h = []) \<and> opened s' = opened s"
proof -
  let ?req = "\<lparr>dr_ID = reqID, dr_Query = q\<rparr>" and ?res = "answer h reqID q"
  let ?asked = "bytes_of_string (json_print (Request_json nilp ?req))" and ?told = "bytes_of_string (json_print (dns_Response_json W ?res))"
  have "length (res_RequestID ?res) = 16" using assms(8) by (simp add: answer_def)
  note res = Response_print [OF assms(7,11) this]
  have "length (dr_ID ?req) = 16" "wire_ok (q_Filter (dr_Query ?req))" using assms(8,9) by simp_all
  note req = Request_print [OF this, of nilp]
  obtain s1 s2 where up: "sa_Send S client j ?asked s = Ok s1" "sa_Receive S server s1 = Some (s2, Ok \<lparr>m_Src = i, m_Dst = j, m_Payload = ?asked\<rparr>)"
      "quiet s2" "opened s2 = opened s"
    using deliver_one [OF _ assms(3,4)] assms(1,2) unfolding quiet_def by blast
  obtain s3 s4 where down: "sa_Send S server i ?told s2 = Ok s3" "sa_Receive S client s3 = Some (s4, Ok \<lparr>m_Src = j, m_Dst = i, m_Payload = ?told\<rparr>)"
      "quiet s4" "opened s4 = opened s2"
    using deliver_one [OF up(3), of j server i client ?told] assms(3,4) up(4) by auto
  obtain reqs1 p created where p: "fs_getOrCreate F reqs (j, reqID) = (reqs1, p, created)" by (cases "fs_getOrCreate F reqs (j, reqID)")
  have get: "fs_get F reqs1 (j, reqID) = Some p" "snd (fs_await F (fst (fs_succeed F reqs1 p v)) p) = Ok v" for v
    using assms(5,6) p unfolding futures_laws_def by blast+
  have "Serve_step S canceled W h server s1 = Some (Ok s3)"
    by (simp add: Serve_step_def up(2) Unmarshal_print req(2,3) dns_reply_answer assms(10) res(1) down(1))
  moreover have "readLoop_step S W F client (s3, reqs1) = Some (Ok (s4, fst (fs_succeed F reqs1 p ?res)))"
    using get(1) by (simp add: readLoop_step_def down(2) Unmarshal_print res(2,3) dns_client_receive_def) (simp add: answer_def)
  ultimately have others: "serve_and_read S canceled W F h server client (s1, reqs1) = (s4, fst (fs_succeed F reqs1 p ?res))"
    by (simp add: serve_and_read_def)
  show ?thesis using get(2) [of ?res] down(3,4) up(1,4)
    by (auto simp: client_Do_def req(1) p others split_def Let_def quiet_def)
qed

end

lemma is_raw_NewValue: "json_ok j \<Longrightarrow> is_raw (NewValue j)"
  by (auto simp: is_raw_def NewValue_def)

lemma record_ok_ToRecord: "record_ok (ToRecord red)"
  using is_raw_NewValue [of "JArr (map JStr (rd_Path red))"] is_raw_NewValue [of "JAddr (rd_Target red)"]
  by (auto simp: record_ok_def ToRecord_def ran_def list.pred_set split: if_splits)

lemma basic_records_ok:
  assumes "\<forall>r \<in> set (bh_Records bh). record_ok r" "c \<in> set (res_Claims (answer (basic_Handle bh) reqID q))"
  shows "record_ok (cl_Record c)"
  using assms record_ok_ToRecord
  by (auto simp: answer_def basic_Handle_def zero_response_def Let_def split: option.splits)

lemma basic_Handle_answers: "snd (basic_Handle bh res q)"
  by (simp add: basic_Handle_def Let_def split: option.splits)

lemma find_snoc: "find P xs = None \<Longrightarrow> find P (xs @ [y]) = (if P y then Some y else None)"
  by (induction xs) (auto split: if_splits)

lemma sample_futures_laws: "futures_laws sample_futures"
  by (auto simp: futures_laws_def sample_futures_def sample_complete_def find_snoc)

section \<open>Samples\<close>

definition sample_wire :: wire where
  "sample_wire = \<lparr>wi_zero = JStr ''0'', wi_time = (\<lambda>j. j = JStr ''0''), wi_keys = (\<lambda>r. sorted_list_of_set (dom r)), wi_nil = True\<rparr>"

lemma sample_wire_laws: "wire_laws sample_wire"
  by (simp add: wire_laws_def sample_wire_def enumerates_def)

definition sample_records :: basic_handler where
  "sample_records = \<lparr>bh_Redirects = [], bh_Records = [[''IP'' \<mapsto> NewValue (JStr ''::1'')], [''port'' \<mapsto> NewValue (JInt 80)]], bh_TTL = 0\<rparr>"

lemma sample_two_nodes:
  "\<exists>(s :: (byte, message list) memService) n m. mem_live byte_circl rev_sponge default_tags (\<lambda>q. True) s \<and> (\<forall>i n. ms_nodes s i = Some n \<longrightarrow> id (ms_queues s ! mn_incoming n) = []) \<and>
     ms_nodes s (1 # replicate 31 0) = Some n \<and> ms_nodes s (2 # replicate 31 0) = Some m"
proof -
  let ?key = "\<lambda>i :: nat. BasePrivate Ed25519 (of_nat i) :: byte private_key"
  have start: "(mem_promises sample_order sample_queues byte_circl default_tags id (\<lambda>q. True) \<and> mem_live byte_circl rev_sponge default_tags (\<lambda>q. True) (mem_New [])) \<and>
      (\<forall>i h. ms_nodes (mem_New [] :: (byte, message list) memService) i = Some h \<longrightarrow> id (ms_queues (mem_New []) ! mn_incoming h) = [])"
    using sample_promises mem_New_live by (simp add: mem_New_def)
  have ids: "the (key_ID byte_circl rev_sponge default_tags (?key 1)) = 1 # replicate 31 0" "the (key_ID byte_circl rev_sponge default_tags (?key 2)) = 2 # replicate 31 0"
    by (simp_all add: byte_key_ID)
  have neq: "1 # replicate 31 (0 :: byte) \<noteq> 2 # replicate 31 0" by simp
  have "is_base (?key 1)" "is_base (?key 2)" "ms_nodes (mem_New []) = Map.empty" by (simp_all add: is_base_def mem_New_def)
  from mem_suite.two_nodes [unfolded mem_suite.quiet_def, OF start this(3) this(1,2), unfolded ids, OF neq] obtain s :: "(byte, message list) memService" and n m where
    "mem_live byte_circl rev_sponge default_tags (\<lambda>q. True) s" "\<forall>i n. ms_nodes s i = Some n \<longrightarrow> id (ms_queues s ! mn_incoming n) = []"
    and nodes: "ms_nodes s = [1 # replicate 31 0 \<mapsto> n, 2 # replicate 31 0 \<mapsto> m]" by blast
  moreover have "ms_nodes s (1 # replicate 31 0) = Some n" "ms_nodes s (2 # replicate 31 0) = Some m" using nodes by simp_all
  ultimately show ?thesis by blast
qed

section \<open>Properties\<close>



text \<open>
  A predicate that no record matches can match all of them at the server: an empty list of alternatives is left out
  of the request, and the server reads a predicate without conditions.
\<close>

theorem empty_or_matches_everything:
  "\<not> Matches (Predicate None (Some []) None None) r \<and>
   (\<exists>t p. predicate_text (Predicate None (Some []) None None) = Some t \<and> decode_predicate (length t) t any_predicate = Ok p \<and> Matches p r)"
proof -
  have t: "predicate_text (Predicate None (Some []) None None) = Some (json_print (predicate_json any_predicate))"
    using object_print [of "[]"] by (simp add: any_predicate_def)
  have "decode_predicate (length (json_print (predicate_json any_predicate))) (json_print (predicate_json any_predicate)) any_predicate = Ok any_predicate"
    by (rule decode_predicate_print) (simp_all add: any_predicate_def)
  with t show ?thesis by (auto simp: any_predicate_def)
qed

end
