(* ===== verification/Serving.thy ===== *)
theory Serving
  imports Ipc Http
begin

text \<open>
  The goroutines behind a node that is used over IPC: \<^verbatim>\<open>ServeNode\<close> with its four loops and the requests it answers
  (\<^verbatim>\<open>src/inet256ipc/server.go\<close>), as a transition system over every order in which they end, and the keep alives of
  the client (\<^verbatim>\<open>client.go\<close>) against the watchdog of the server. The messages themselves are in \<open>Ipc\<close>.
\<close>

section \<open>Serving a node\<close>

datatype serve_error = EndOfStream | Canceled | TransportError | NodeError | MissedKeepAlive

text \<open>
  Which of the loops still run (reading from the transport, forwarding from the node, sending keep alives, watching for
  them), how many requests are being answered, the flag \<^verbatim>\<open>gotOne\<close>, whether the caller's context and the context of
  the group are cancelled, and the first error of the group.
\<close>

record serving =
  sn_read :: bool
  sn_forward :: bool
  sn_beat :: bool
  sn_watch :: bool
  sn_asks :: nat
  sn_gotOne :: bool
  sn_parent :: bool
  sn_cancelled :: bool
  sn_err :: "serve_error option"

definition serve_start :: serving where
  "serve_start = \<lparr>sn_read = True, sn_forward = True, sn_beat = True, sn_watch = True, sn_asks = 0, sn_gotOne = False,
     sn_parent = False, sn_cancelled = False, sn_err = None\<rparr>"

text \<open>A goroutine of an \<^verbatim>\<open>errgroup\<close> that returns an error: the first one is kept and cancels the context.\<close>

definition group_fail :: "serve_error \<Rightarrow> serving \<Rightarrow> serving" where
  "group_fail e s = s\<lparr>sn_err := (case sn_err s of None \<Rightarrow> Some e | Some e' \<Rightarrow> Some e'), sn_cancelled := True\<rparr>"

text \<open>
  The steps; the first argument tells whether \<^verbatim>\<open>Receive\<close> of the transport has returned. That is a read on the
  connection in \<^verbatim>\<open>StreamFramer\<close>, which does not look at the context: it returns when the client sends or hangs up. The
  node's \<^verbatim>\<open>Receive\<close> and the timers do look at it.
\<close>

inductive serve_step :: "bool \<Rightarrow> serving \<Rightarrow> serving \<Rightarrow> bool" where
  received: "sn_read s \<Longrightarrow> n \<le> 1 \<Longrightarrow> serve_step True s (s\<lparr>sn_gotOne := True, sn_asks := sn_asks s + n\<rparr>)"
| read_failed: "sn_read s \<Longrightarrow> e = EndOfStream \<or> e = TransportError \<Longrightarrow> serve_step True s (group_fail e s\<lparr>sn_read := False\<rparr>)"
| answered: "sn_asks s = Suc n \<Longrightarrow> serve_step False s (s\<lparr>sn_asks := n\<rparr>)"
| forward_failed: "sn_forward s \<Longrightarrow> e = NodeError \<or> e = TransportError \<or> e = Canceled \<and> sn_cancelled s \<Longrightarrow>
     serve_step False s (group_fail e s\<lparr>sn_forward := False\<rparr>)"
| beat_failed: "sn_beat s \<Longrightarrow> e = TransportError \<or> e = Canceled \<and> sn_cancelled s \<Longrightarrow> serve_step False s (group_fail e s\<lparr>sn_beat := False\<rparr>)"
| watch_fired: "sn_watch s \<Longrightarrow> sn_gotOne s \<Longrightarrow> serve_step False s (s\<lparr>sn_gotOne := False\<rparr>)"
| watch_missed: "sn_watch s \<Longrightarrow> \<not> sn_gotOne s \<Longrightarrow> serve_step False s (group_fail MissedKeepAlive s\<lparr>sn_watch := False\<rparr>)"
| watch_cancelled: "sn_watch s \<Longrightarrow> sn_cancelled s \<Longrightarrow> serve_step False s (group_fail Canceled s\<lparr>sn_watch := False\<rparr>)"
| cancel: "\<not> sn_parent s \<Longrightarrow> serve_step False s (s\<lparr>sn_parent := True, sn_cancelled := True\<rparr>)"

text \<open>\<^verbatim>\<open>eg.Wait\<close> returns when every goroutine has, and then \<^verbatim>\<open>ServeNode\<close> with this error.\<close>

definition serve_ended :: "serving \<Rightarrow> bool" where
  "serve_ended s \<longleftrightarrow> \<not> sn_read s \<and> \<not> sn_forward s \<and> \<not> sn_beat s \<and> \<not> sn_watch s \<and> sn_asks s = 0"

definition ServeNode_result :: "serving \<Rightarrow> serve_error option" where
  "ServeNode_result s = (case sn_err s of None \<Rightarrow> None | Some e \<Rightarrow> if e = Canceled \<or> e = EndOfStream then None else Some e)"

section \<open>The keep alives of the client\<close>

text \<open>Time is in nanoseconds.\<close>

definition DefaultKeepAliveInterval :: nat where "DefaultKeepAliveInterval = 1000000000"

definition DefaultKeepAliveTimeout :: nat where "DefaultKeepAliveTimeout = 3000000000"

text \<open>
  \<^verbatim>\<open>keepAliveLoop\<close> of the client: at each tick it sends a message, until sending fails or the context ends. The result is
  what was sent and whether the loop still runs.
\<close>

datatype beat_event = Ticked "serve_error option" | ContextDone

fun keepAliveLoop :: "beat_event list \<Rightarrow> bytes list \<times> bool" where
  "keepAliveLoop [] = ([], True)"
| "keepAliveLoop (ContextDone # es) = ([], False)"
| "keepAliveLoop (Ticked (Some e) # es) = ([], False)"
| "keepAliveLoop (Ticked None # es) =
     (case WriteKeepAlive (replicate MaxMessageLen 0) of
        None \<Rightarrow> ([], False)
      | Some (buf, n) \<Rightarrow> (let (sent, running) = keepAliveLoop es in (take n buf # sent, running)))"

text \<open>What the watchdog of the server sees until a time: the messages that arrive and its timer.\<close>

definition watch_events :: "(nat \<Rightarrow> bool) \<Rightarrow> nat \<Rightarrow> ka_event list" where
  "watch_events arrived t =
     (if arrived t then [GotMessage] else []) @ (if 0 < t \<and> DefaultKeepAliveTimeout dvd t then [TimerFired] else [])"

definition timeline :: "(nat \<Rightarrow> bool) \<Rightarrow> nat \<Rightarrow> ka_event list" where
  "timeline arrived n = concat (map (watch_events arrived) [0..<n])"

section \<open>Lemmas\<close>

inductive_cases serve_stepE: "serve_step b s s'"

abbreviation serve_any :: "serving \<Rightarrow> serving \<Rightarrow> bool" where
  "serve_any s s' \<equiv> \<exists>b. serve_step b s s'"

text \<open>Without a message of the client its loop does not end.\<close>

lemma still_reading: "(serve_step False)\<^sup>*\<^sup>* s s' \<Longrightarrow> sn_read s \<Longrightarrow> sn_read s'"
proof (induction rule: rtranclp_induct)
  case (step s1 s2)
  from step(2) have "sn_read s2 = sn_read s1" by cases (simp_all add: group_fail_def)
  with step show ?case by simp
qed

definition serve_inv :: "serving \<Rightarrow> bool" where
  "serve_inv s \<longleftrightarrow> (sn_cancelled s \<longleftrightarrow> sn_parent s \<or> sn_err s \<noteq> None) \<and> (\<not> (sn_read s \<and> sn_forward s \<and> sn_beat s \<and> sn_watch s) \<longrightarrow> sn_err s \<noteq> None) \<and>
     (sn_err s = Some Canceled \<longrightarrow> sn_parent s) \<and> (sn_err s = Some EndOfStream \<longrightarrow> \<not> sn_read s) \<and>
     (sn_err s = Some MissedKeepAlive \<longrightarrow> \<not> sn_watch s)"

lemma serve_invariant: "serve_any\<^sup>*\<^sup>* serve_start s \<Longrightarrow> serve_inv s"
proof (induction rule: rtranclp_induct)
  case (step s1 s2)
  from step(2) obtain b where "serve_step b s1 s2" by blast
  then show ?case using step(3) by cases (auto simp: serve_inv_def group_fail_def split: option.splits)
qed (simp add: serve_inv_def serve_start_def)

text \<open>What is left to do once the transport is closed.\<close>

definition serve_left :: "serving \<Rightarrow> nat" where
  "serve_left s = of_bool (sn_forward s) + of_bool (sn_beat s) + of_bool (sn_watch s) + sn_asks s + of_bool (sn_gotOne s) + of_bool (\<not> sn_parent s)"

lemma serve_left_less: "serve_step b s s' \<Longrightarrow> \<not> sn_read s \<Longrightarrow> serve_left s' < serve_left s"
  by (erule serve_step.cases) (simp_all add: serve_left_def group_fail_def)

lemma serve_progress:
  assumes "sn_cancelled s" "\<not> sn_read s" "\<not> serve_ended s"
  shows "\<exists>s'. serve_step False s s'"
  using assms forward_failed [of s Canceled] beat_failed [of s Canceled] watch_cancelled [of s] answered [of s]
  unfolding serve_ended_def by (metis not0_implies_Suc)

fun got_after :: "ka_event list \<Rightarrow> bool \<Rightarrow> bool" where
  "got_after [] g = g"
| "got_after (GotMessage # es) g = got_after es True"
| "got_after (TimerFired # es) g = got_after es False"

lemma serve_alive_append: "serve_alive (xs @ ys) g \<longleftrightarrow> serve_alive xs g \<and> serve_alive ys (got_after xs g)"
  by (induction xs g rule: got_after.induct) simp_all

lemma got_after_append: "got_after (xs @ ys) g = got_after ys (got_after xs g)"
  by (induction xs g rule: got_after.induct) simp_all

lemma timeline_Suc: "timeline arrived (Suc n) = timeline arrived n @ watch_events arrived n"
  by (simp add: timeline_def)

lemma arrival_in_window:
  assumes "\<And>k. 0 < k \<Longrightarrow> \<exists>t. k * i \<le> t \<and> t < k * i + d \<and> arrived t" "0 < i" "i + d \<le> T"
  shows "\<exists>t. m * T < t \<and> t < Suc m * T \<and> arrived t"
proof -
  let ?k = "Suc (m * T div i)"
  have lo: "m * T < ?k * i" using dividend_less_div_times [OF assms(2), of "m * T"] by simp
  have hi: "?k * i \<le> m * T + i" using div_times_less_eq_dividend [of "m * T" i] by simp
  obtain t where t: "?k * i \<le> t" "t < ?k * i + d" "arrived t" using assms(1) [of ?k] by blast
  have "m * T < t" using lo t(1) by linarith
  moreover have "t < m * T + T" using hi t(2) assms(3) by linarith
  ultimately show ?thesis using t(3) by auto
qed

lemma timeline_alive:
  assumes "\<And>m. \<exists>t. m * DefaultKeepAliveTimeout < t \<and> t < Suc m * DefaultKeepAliveTimeout \<and> arrived t"
  shows "serve_alive (timeline arrived (Suc n)) False \<and>
     ((\<exists>t \<le> n. n div DefaultKeepAliveTimeout * DefaultKeepAliveTimeout < t \<and> arrived t) \<longrightarrow> got_after (timeline arrived (Suc n)) False)"
proof (induction n)
  case 0
  then show ?case by (simp add: timeline_def watch_events_def)
next
  case (Suc n)
  let ?T = DefaultKeepAliveTimeout
  have T: "0 < ?T" by (simp add: DefaultKeepAliveTimeout_def)
  show ?case
  proof (cases "?T dvd Suc n")
    case True
    then obtain m where m: "Suc n = Suc m * ?T" by (metis dvdE mult.commute mult_is_0 nat.distinct(1) not0_implies_Suc)
    then have "n div ?T = m" using T by (intro div_nat_eqI) (simp_all add: mult.commute)
    moreover obtain t where "m * ?T < t" "t < Suc m * ?T" "arrived t" using assms by blast
    ultimately have "got_after (timeline arrived (Suc n)) False" using Suc m by auto
    moreover have "Suc n div ?T * ?T = Suc n" using True by simp
    ultimately show ?thesis using Suc True
      by (subst (1 2) timeline_Suc) (auto simp: serve_alive_append got_after_append watch_events_def)
  next
    case False
    then have "Suc n div ?T = n div ?T" using T by (simp add: div_Suc dvd_eq_mod_eq_0)
    with Suc False show ?thesis
      by (subst (1 2) timeline_Suc) (auto simp: serve_alive_append got_after_append watch_events_def le_Suc_eq)
  qed
qed

lemma keepalive_message: "WriteKeepAlive (replicate MaxMessageLen 0) = Some (put_be32 MT_KeepAlive @ drop 4 (replicate MaxMessageLen 0), 4)"
  by (simp add: WriteKeepAlive_def goslice_def msg_SetType_def MaxMessageLen_def gocopy_at_exact)

lemma keepAliveLoop_ticks: "keepAliveLoop (replicate k (Ticked None)) = (replicate k (put_be32 MT_KeepAlive), True)"
  by (induction k) (simp_all add: keepalive_message)

section \<open>Properties\<close>

text \<open>
  C23: Serving a node ends with the stream of its client: once the transport is closed, the context of the group is
  cancelled, every run ends, and no goroutine is left waiting; the result is no error only if the client has closed the
  stream or the caller has cancelled.
\<close>

theorem serving_ends_with_stream:
  assumes "serve_any\<^sup>*\<^sup>* serve_start s" "\<not> sn_read s"
  shows "sn_cancelled s \<and> (serve_ended s \<or> (\<exists>s'. serve_step False s s')) \<and> wfP (\<lambda>s' s. serve_any s s' \<and> \<not> sn_read s) \<and>
     (serve_ended s \<longrightarrow> ServeNode_result s = None \<longrightarrow> sn_err s = Some EndOfStream \<or> sn_parent s)"
proof -
  note inv = serve_invariant [OF assms(1)]
  then have "sn_cancelled s" "sn_err s \<noteq> None" using assms(2) by (auto simp: serve_inv_def)
  moreover have "wfP (\<lambda>s' s. serve_any s s' \<and> \<not> sn_read s)"
    by (rule wfp_if_convertible_to_nat [of _ serve_left]) (use serve_left_less in blast)
  ultimately show ?thesis using inv assms(2) serve_progress [of s]
    by (auto simp: serve_inv_def ServeNode_result_def split: if_splits)
qed

theorem serving_ends_with_stream_witness:
  "\<exists>s. serve_any\<^sup>*\<^sup>* serve_start s \<and> \<not> sn_read s \<and> sn_cancelled s"
proof -
  let ?s = "group_fail EndOfStream serve_start\<lparr>sn_read := False\<rparr>"
  have "serve_step True serve_start ?s" by (rule read_failed) (simp_all add: serve_start_def)
  then have "serve_any\<^sup>*\<^sup>* serve_start ?s" by blast
  moreover have "\<not> sn_read ?s" by simp
  ultimately show ?thesis using serving_ends_with_stream by blast
qed


text \<open>
  C24: A client that is alive is never given up: its loop sends a message at every interval that the server accepts, and if
  each of them arrives less than two seconds after it was due, the watchdog finds one every time it looks.
\<close>

theorem client_keepalives_suffice:
  assumes "\<And>k. 0 < k \<Longrightarrow> \<exists>t. k * DefaultKeepAliveInterval \<le> t \<and>
      t < k * DefaultKeepAliveInterval + (DefaultKeepAliveTimeout - DefaultKeepAliveInterval) \<and> arrived t"
  shows "(\<exists>msg. keepAliveLoop (replicate k (Ticked None)) = (replicate k msg, True) \<and> serve_message c ks node resBuf msg = Some []) \<and>
     serve_alive (timeline arrived n) False"
proof (intro conjI exI)
  show "keepAliveLoop (replicate k (Ticked None)) = (replicate k (put_be32 MT_KeepAlive), True)" by (rule keepAliveLoop_ticks)
  show "serve_message c ks node resBuf (put_be32 MT_KeepAlive) = Some []"
    using msg_GetType_put [of MT_KeepAlive "[]"] by (simp add: serve_message_def AsMessage_def MT_KeepAlive_def MT_Data_def MT_FindAddr_def MT_PublicKey_def)
  have "\<exists>t. m * DefaultKeepAliveTimeout < t \<and> t < Suc m * DefaultKeepAliveTimeout \<and> arrived t" for m
    by (rule arrival_in_window [OF assms]) (simp_all add: DefaultKeepAliveTimeout_def DefaultKeepAliveInterval_def)
  then show "serve_alive (timeline arrived n) False"
    using timeline_alive [of arrived "n - 1"] by (cases n) (simp_all add: timeline_def)
qed

theorem client_keepalives_suffice_witness:
  "serve_alive (timeline (\<lambda>t. DefaultKeepAliveInterval dvd t) 7000000000) False"
proof -
  have "\<exists>t. k * DefaultKeepAliveInterval \<le> t \<and> t < k * DefaultKeepAliveInterval + (DefaultKeepAliveTimeout - DefaultKeepAliveInterval) \<and>
      DefaultKeepAliveInterval dvd t" for k
    by (rule exI [of _ "k * DefaultKeepAliveInterval"]) (simp add: DefaultKeepAliveTimeout_def DefaultKeepAliveInterval_def)
  from client_keepalives_suffice [of "\<lambda>t. DefaultKeepAliveInterval dvd t", OF this] show ?thesis by blast
qed

end
