(* ===== verification/Admin.thy ===== *)
theory Admin
  imports Daemon Mesh_Server "HOL-Library.List_Lexorder" "HOL-Library.Multiset"
begin

text \<open>
  The HTTP server of the daemon (\<^verbatim>\<open>src/inet256d/http.go\<close>) with its routes, and the admin client that asks it for the
  status of the main node (\<^verbatim>\<open>src/inet256d/admin.go\<close>, \<^verbatim>\<open>src/inet256cmd/status.go\<close>). The router \<^verbatim>\<open>chi\<close> and the clock
  format of \<^verbatim>\<open>tai64\<close> are parameters, as is \<^verbatim>\<open>url.Parse\<close>; sockets and the text form of HTTP are I/O.
\<close>

section \<open>Maps in JSON\<close>

fun decode_members :: "'v decoder \<Rightarrow> 'v \<Rightarrow> (string \<times> json) list \<Rightarrow> (string \<rightharpoonup> 'v) \<Rightarrow> (json_error, string \<rightharpoonup> 'v) outcome" where
  "decode_members d z [] m = Ok m"
| "decode_members d z ((k, j) # kvs) m =
     (case d j z of
        Ok v \<Rightarrow> decode_members d z kvs (m(k \<mapsto> v))
      | Err e \<Rightarrow> (case decode_members d z kvs m of Panic \<Rightarrow> Panic | _ \<Rightarrow> Err e)
      | Panic \<Rightarrow> Panic)"

definition decode_map :: "'v decoder \<Rightarrow> 'v \<Rightarrow> (string \<rightharpoonup> 'v) decoder" where
  "decode_map d z j m = (case j of JObj kvs \<Rightarrow> decode_members d z kvs m | JNull \<Rightarrow> Ok Map.empty | _ \<Rightarrow> Err JsonType)"

text \<open>\<open>ks\<close> are the sorted keys; a map that is nil is null.\<close>

definition JMap :: "('v \<Rightarrow> json) \<Rightarrow> bool \<Rightarrow> string list \<Rightarrow> (string \<rightharpoonup> 'v) \<Rightarrow> json" where
  "JMap enc nil ks m = (if nil then JNull else JObj (map (\<lambda>k. (k, enc (the (m k)))) ks))"

section \<open>The status\<close>

record status_res =
  sr_MainAddr :: addr
  sr_TransportAddrs :: "string list"
  sr_Peers :: "peer_status list"

text \<open>The JSON form of a timestamp and of the map with the timestamps of a peer: whether it is nil, and its keys.\<close>

record tai_ops =
  tai_json :: "nat \<Rightarrow> json"
  tai_decode :: "nat decoder"
  seen_nil :: "addr \<Rightarrow> bool"
  seen_keys :: "(string \<rightharpoonup> nat) \<Rightarrow> string list"

definition PeerStatus_json :: "tai_ops \<Rightarrow> peer_status \<Rightarrow> json" where
  "PeerStatus_json T p = JObj
     [(''Addr'', JAddr (st_Addr p)),
      (''LastSeen'', JMap (tai_json T) (seen_nil T (st_Addr p)) (seen_keys T (st_LastSeen p)) (st_LastSeen p)),
      (''Uploaded'', JInt (uint (st_Uploaded p))), (''Downloaded'', JInt (uint (st_Downloaded p)))]"

definition PeerStatus_fields :: "tai_ops \<Rightarrow> (string \<times> peer_status decoder) list" where
  "PeerStatus_fields T =
     [(''Addr'', into st_Addr (\<lambda>v p. p\<lparr>st_Addr := v\<rparr>) decode_addr),
      (''LastSeen'', into st_LastSeen (\<lambda>v p. p\<lparr>st_LastSeen := v\<rparr>) (decode_map (tai_decode T) 0)),
      (''Uploaded'', into (\<lambda>p. unat (st_Uploaded p)) (\<lambda>v p. p\<lparr>st_Uploaded := of_nat v\<rparr>) (decode_uint 64)),
      (''Downloaded'', into (\<lambda>p. unat (st_Downloaded p)) (\<lambda>v p. p\<lparr>st_Downloaded := of_nat v\<rparr>) (decode_uint 64))]"

definition zero_status :: peer_status where
  "zero_status = \<lparr>st_Addr = zero_addr, st_LastSeen = Map.empty, st_Uploaded = 0, st_Downloaded = 0\<rparr>"

text \<open>A slice of peers that was never appended to is null.\<close>

definition StatusRes_json :: "tai_ops \<Rightarrow> status_res \<Rightarrow> json" where
  "StatusRes_json T r = JObj
     [(''main_addr'', JAddr (sr_MainAddr r)), (''transport_addrs'', JArr (map JStr (sr_TransportAddrs r))),
      (''peers'', if sr_Peers r = [] then JNull else JArr (map (PeerStatus_json T) (sr_Peers r)))]"

definition StatusRes_fields :: "tai_ops \<Rightarrow> (string \<times> status_res decoder) list" where
  "StatusRes_fields T =
     [(''main_addr'', into sr_MainAddr (\<lambda>v r. r\<lparr>sr_MainAddr := v\<rparr>) decode_addr),
      (''transport_addrs'', into sr_TransportAddrs (\<lambda>v r. r\<lparr>sr_TransportAddrs := v\<rparr>) (decode_list decode_string '''')),
      (''peers'', into sr_Peers (\<lambda>v r. r\<lparr>sr_Peers := v\<rparr>) (decode_list (decode_struct (PeerStatus_fields T)) zero_status))]"

section \<open>The server\<close>

record url =
  u_Scheme :: string
  u_Host :: string
  u_Path :: string

datatype 'e admin_error = BadURL 'e | MissingScheme | ExchangeFailed 'e | NonOKStatus | BadStatusJson json_error

text \<open>The network and the address at which \<^verbatim>\<open>runHTTPServer\<close> listens.\<close>

definition listen_at :: "(string \<Rightarrow> ('e, url) outcome) \<Rightarrow> string \<Rightarrow> ('e admin_error, string \<times> string) outcome" where
  "listen_at parseURL endpoint =
     obind (err_map BadURL (parseURL endpoint)) (\<lambda>u.
       if u_Scheme u = '''' then Err MissingScheme else Ok (u_Scheme u, path_Join [u_Host u, u_Path u]))"

record http_response =
  rs_Status :: nat
  rs_Body :: bytes

text \<open>What a request leads to: the node of a client that is then served, or a response.\<close>

datatype 'h api_result = NodeResult nat "'h option" | Response http_response

definition mapSlice :: "('x \<Rightarrow> 'y) \<Rightarrow> 'x list \<Rightarrow> 'y list" where
  "mapSlice fn xs = map fn xs"

text \<open>\<open>str\<close> is the text of a transport address. Addresses with the same text are the same to the sort.\<close>

definition handleStatus :: "tai_ops \<Rightarrow> ('t \<Rightarrow> string) \<Rightarrow> addr \<Rightarrow> 't list \<Rightarrow> peer_status list \<Rightarrow> http_response" where
  "handleStatus T str mainAddr transportAddrs peers =
     \<lparr>rs_Status = 200,
      rs_Body = json_Marshal (StatusRes_json T
        \<lparr>sr_MainAddr = mainAddr, sr_TransportAddrs = mapSlice str (sort_key str transportAddrs), sr_Peers = peers\<rparr>)\<rparr>"

text \<open>
  The handler of the router: \<open>matches\<close> tells whether a pattern of \<^verbatim>\<open>chi\<close> matches a path, \<open>nodes\<close> is the handler of
  \<^verbatim>\<open>inet256http\<close>, \<open>metrics\<close> that of Prometheus, \<open>status\<close> the response of \<open>handleStatus\<close>, and \<open>notFound\<close> that of \<^verbatim>\<open>chi\<close> to other paths.
\<close>

definition api_Handle ::
  "(string \<Rightarrow> string \<Rightarrow> bool) \<Rightarrow> (http_request \<Rightarrow> 'x \<Rightarrow> ('x \<times> nat \<times> 'h option) option) \<Rightarrow> http_response \<Rightarrow> http_response \<Rightarrow> http_response \<Rightarrow>
   http_request \<Rightarrow> 'x \<Rightarrow> ('x \<times> 'h api_result) option" where
  "api_Handle matches nodes metrics status notFound r x =
     (if matches ''/nodes/*'' (rq_Path r) then map_option (\<lambda>(x', code, node). (x', NodeResult code node)) (nodes r x)
      else if matches ''/healthz'' (rq_Path r) then Some (x, Response \<lparr>rs_Status = 200, rs_Body = bytes_of_string ''INET256'' @ [10]\<rparr>)
      else if matches ''/metrics'' (rq_Path r) then Some (x, Response metrics)
      else if matches ''/admin/status'' (rq_Path r) then Some (x, Response status)
      else Some (x, Response notFound))"

section \<open>The client\<close>

definition NewAdminClient :: "(string \<Rightarrow> ('e, url) outcome) \<Rightarrow> string \<Rightarrow> ('e admin_error, url) outcome" where
  "NewAdminClient parseURL endpoint = err_map BadURL (parseURL endpoint)"

definition admin_dial :: "url \<Rightarrow> string \<times> string" where
  "admin_dial u = (u_Scheme u, path_Join [u_Host u, u_Path u])"

definition admin_getPath :: "string \<Rightarrow> string" where
  "admin_getPath p = path_Join [''/admin'', p]"

text \<open>\<open>exchange\<close> writes a request to a connection and reads the response.\<close>

definition doRequest ::
  "(http_request \<Rightarrow> ('e, http_response) outcome) \<Rightarrow> string \<Rightarrow> string \<Rightarrow> json option \<Rightarrow> 'a decoder \<Rightarrow> 'a \<Rightarrow> ('e admin_error, 'a) outcome" where
  "doRequest exchange method url x dec zero =
     obind (err_map ExchangeFailed (exchange \<lparr>rq_Method = method, rq_Path = url, rq_Body = (case x of None \<Rightarrow> [] | Some j \<Rightarrow> json_Marshal j)\<rparr>)) (\<lambda>resp.
       if rs_Status resp div 100 \<noteq> 2 then Err NonOKStatus else err_map BadStatusJson (json_Unmarshal dec (rs_Body resp) zero))"

text \<open>\<open>connect\<close> opens a connection to an address of a network.\<close>

definition GetStatus ::
  "tai_ops \<Rightarrow> (string \<times> string \<Rightarrow> ('e, http_request \<Rightarrow> ('e, http_response) outcome) outcome) \<Rightarrow> url \<Rightarrow> ('e admin_error, status_res) outcome" where
  "GetStatus T connect u =
     obind (err_map ExchangeFailed (connect (admin_dial u))) (\<lambda>conn.
       doRequest conn ''GET'' (admin_getPath ''status'') None (decode_struct (StatusRes_fields T))
         \<lparr>sr_MainAddr = zero_addr, sr_TransportAddrs = [], sr_Peers = []\<rparr>)"

section \<open>Lemmas\<close>

text \<open>What \<^verbatim>\<open>tai64\<close> promises about timestamps, and Go about the keys of a map.\<close>

definition tai_laws :: "tai_ops \<Rightarrow> bool" where
  "tai_laws T \<longleftrightarrow> (\<forall>t. json_ok (tai_json T t) \<and> (\<forall>x. tai_decode T (tai_json T t) x = Ok t)) \<and>
     (\<forall>m. finite (dom m) \<longrightarrow> enumerates (seen_keys T m) m)"

lemma decode_members_map:
  assumes "\<And>v. d (enc v) z = Ok v" "distinct ks" "set ks \<subseteq> dom m"
  shows "decode_members d z (map (\<lambda>k. (k, enc (the (m k)))) ks) m0 = Ok (m0 ++ m |` set ks)"
  using assms(2,3)
proof (induction ks arbitrary: m0)
  case (Cons k ks)
  then obtain v where v: "m k = Some v" by auto
  have "m0(k \<mapsto> v) ++ m |` set ks = m0 ++ m |` set (k # ks)"
    using Cons.prems v by (auto simp: map_add_def restrict_map_def fun_eq_iff split: option.splits)
  with Cons v show ?case by (simp add: assms(1))
qed simp

lemma decode_JMap:
  assumes "\<And>v. d (enc v) z = Ok v" "enumerates ks m" "nil \<Longrightarrow> m = Map.empty"
  shows "decode_map d z (JMap enc nil ks m) Map.empty = Ok m"
proof (cases nil)
  case False
  have "m |` dom m = m" by (rule ext) (simp add: restrict_map_def domIff)
  with False assms(2) decode_members_map [of d enc z ks m Map.empty, OF assms(1)] show ?thesis
    by (simp add: decode_map_def JMap_def enumerates_def)
qed (simp add: assms(3) decode_map_def JMap_def)

definition status_ok :: "tai_ops \<Rightarrow> peer_status \<Rightarrow> bool" where
  "status_ok T p \<longleftrightarrow> is_addr (st_Addr p) \<and> finite (dom (st_LastSeen p)) \<and> (seen_nil T (st_Addr p) \<longrightarrow> st_LastSeen p = Map.empty)"

lemma decode_PeerStatus:
  assumes "tai_laws T" "status_ok T p"
  shows "json_ok (PeerStatus_json T p)" "decode_struct (PeerStatus_fields T) (PeerStatus_json T p) zero_status = Ok p"
proof -
  have T: "json_ok (tai_json T t)" "tai_decode T (tai_json T t) x = Ok t" "enumerates (seen_keys T (st_LastSeen p)) (st_LastSeen p)" for t x
    using assms unfolding tai_laws_def status_ok_def by blast+
  show "json_ok (PeerStatus_json T p)" by (auto simp: PeerStatus_json_def JMap_def T(1) list.pred_set)
  have map: "decode_map (tai_decode T) 0 (JMap (tai_json T) (seen_nil T (st_Addr p)) (seen_keys T (st_LastSeen p)) (st_LastSeen p)) Map.empty = Ok (st_LastSeen p)"
    using assms(2) T(2,3) by (intro decode_JMap) (auto simp: status_ok_def)
  have u64: "decode_uint 64 (JInt (uint v)) x = Ok (unat v)" for v :: u64 and x using decode_JUint [of v x] by simp
  have "decode_addr (JAddr (st_Addr p)) zero_addr = Ok (st_Addr p)"
    using assms(2) by (simp add: status_ok_def json_simps is_addr_zero)
  then show "decode_struct (PeerStatus_fields T) (PeerStatus_json T p) zero_status = Ok p"
    by (simp add: decode_struct_def PeerStatus_json_def PeerStatus_fields_def field_decoder_def into_def zero_status_def map u64)
qed

lemma decode_StatusRes:
  assumes "tai_laws T" "is_addr (sr_MainAddr r)" "\<forall>p \<in> set (sr_Peers r). status_ok T p"
  shows "json_Unmarshal (decode_struct (StatusRes_fields T)) (json_Marshal (StatusRes_json T r)) \<lparr>sr_MainAddr = zero_addr, sr_TransportAddrs = [], sr_Peers = []\<rparr> = Ok r"
proof -
  note peer = decode_PeerStatus [OF assms(1)]
  have "json_ok (StatusRes_json T r)" using assms(3) peer(1) by (auto simp: StatusRes_json_def list.pred_set)
  moreover have "decode_list (decode_struct (PeerStatus_fields T)) zero_status (JArr (map (PeerStatus_json T) (sr_Peers r))) [] = Ok (sr_Peers r)"
    using assms(3) peer(2) by (intro decode_list_map) blast
  moreover have "decode_list decode_string [] (JArr (map JStr ts)) [] = Ok ts" for ts by (simp add: json_simps)
  moreover have "decode_list (decode_struct (PeerStatus_fields T)) zero_status JNull [] = Ok []" by (simp add: decode_list_def)
  moreover have "decode_addr (JAddr (sr_MainAddr r)) zero_addr = Ok (sr_MainAddr r)" using assms(2) by (simp add: json_simps is_addr_zero)
  ultimately show ?thesis
    by (simp add: json_simps decode_struct_def StatusRes_json_def StatusRes_fields_def field_decoder_def into_def)
qed

lemma PeerStatus_map:
  "PeerStatus ids mh = map (\<lambda>i. \<lparr>st_Addr = i, st_LastSeen = lm_LastSeen i (mh_lm mh), st_Uploaded = GetTx i mh, st_Downloaded = GetRx i mh\<rparr>) ids"
proof -
  have "foldl (\<lambda>ret i. ret @ [f i]) acc ids = acc @ map f ids" for f :: "addr \<Rightarrow> peer_status" and acc
    by (induction ids arbitrary: acc) simp_all
  then show ?thesis by (simp add: PeerStatus_def)
qed

lemma map_sort_key: "map f (sort_key f xs) = sort (map f xs)"
  by (rule sym, rule properties_for_sort) simp_all

section \<open>Samples\<close>

definition sample_tai :: tai_ops where
  "sample_tai = \<lparr>tai_json = (\<lambda>t. JArr (replicate t JNull)), tai_decode = (\<lambda>j x. case j of JArr js \<Rightarrow> Ok (length js) | _ \<Rightarrow> Err JsonType),
     seen_nil = (\<lambda>i. False), seen_keys = (\<lambda>m. sorted_list_of_set (dom m))\<rparr>"

lemma sample_tai_laws: "tai_laws sample_tai"
  by (simp add: tai_laws_def sample_tai_def enumerates_def list.pred_set)

definition sample_url :: "string \<Rightarrow> (unit, url) outcome" where
  "sample_url s = Ok \<lparr>u_Scheme = ''unix'', u_Host = '''', u_Path = ''/run/inet256.sock''\<rparr>"

definition sample_mh :: "(addr, string) mh_swarm" where
  "sample_mh = \<lparr>mh_localKey = sample_ID True, mh_lm = \<lparr>lm_expireAfter = expireAfter, lm_sightings = [sample_ID True \<mapsto> [''udp://c'' \<mapsto> 5]],
     lm_addrs = [''udp://c'' \<mapsto> ''c'']\<rparr>, mh_meters = [sample_ID True \<mapsto> \<lparr>m_rx = 0, m_tx = 7\<rparr>]\<rparr>"

definition sample_connect :: "string \<times> string \<Rightarrow> (unit, http_request \<Rightarrow> (unit, http_response) outcome) outcome" where
  "sample_connect la = Ok (\<lambda>r. case api_Handle (\<lambda>p q. p = q) (\<lambda>r x. Some (x, 200, None :: unit option)) \<lparr>rs_Status = 200, rs_Body = []\<rparr>
     (handleStatus sample_tai id (sample_ID True) [''udp://b'', ''udp://a''] (PeerStatus [sample_ID True] sample_mh)) \<lparr>rs_Status = 404, rs_Body = []\<rparr> r () of
     Some (x', Response resp) \<Rightarrow> Ok resp | _ \<Rightarrow> Err ())"

section \<open>Properties\<close>

text \<open>
  C29: What the admin client shows is the state of the server: if the client is given the endpoint on which the daemon
  listens, it connects to that socket, its request reaches the status handler, and it returns the address of the
  main node, the sorted texts of its transport addresses and the status of every peer as the server has it.
\<close>

theorem admin_status_transparent:
  assumes "tai_laws T" "\<And>p. matches p ''/admin/status'' \<longleftrightarrow> p = ''/admin/status''" "listen_at parseURL endpoint = Ok la"
    and "connect la = Ok (\<lambda>r. case api_Handle matches nodes metrics (handleStatus T str i addrs (PeerStatus ids mh)) notFound r x of
        Some (x', Response resp) \<Rightarrow> Ok resp | _ \<Rightarrow> Err lost)"
    and "is_addr i" "\<forall>id \<in> set ids. is_addr id \<and> finite (dom (lm_LastSeen id (mh_lm mh))) \<and> (seen_nil T id \<longrightarrow> lm_LastSeen id (mh_lm mh) = Map.empty)"
  shows "\<exists>u. NewAdminClient parseURL endpoint = Ok u \<and>
     GetStatus T connect u = Ok \<lparr>sr_MainAddr = i, sr_TransportAddrs = sort (map str addrs), sr_Peers = PeerStatus ids mh\<rparr>"
proof -
  obtain u where u: "parseURL endpoint = Ok u" "la = admin_dial u"
    using assms(3) by (auto simp: listen_at_def admin_dial_def outcome_simps split: if_splits)
  let ?r = "\<lparr>sr_MainAddr = i, sr_TransportAddrs = sort (map str addrs), sr_Peers = PeerStatus ids mh\<rparr>"
  have path: "admin_getPath ''status'' = ''/admin/status''" by code_simp
  have "\<forall>p \<in> set (sr_Peers ?r). status_ok T p" using assms(6) by (auto simp: PeerStatus_map status_ok_def)
  from decode_StatusRes [OF assms(1) _ this] assms(5) have "json_Unmarshal (decode_struct (StatusRes_fields T)) (json_Marshal (StatusRes_json T ?r))
      \<lparr>sr_MainAddr = zero_addr, sr_TransportAddrs = [], sr_Peers = []\<rparr> = Ok ?r" by simp
  then show ?thesis using u assms(2,4)
    by (simp add: NewAdminClient_def GetStatus_def doRequest_def path api_Handle_def handleStatus_def mapSlice_def map_sort_key)
qed

theorem admin_status_transparent_witness:
  "\<exists>u. NewAdminClient sample_url DefaultAPIEndpoint = Ok u \<and>
     GetStatus sample_tai sample_connect u =
     Ok \<lparr>sr_MainAddr = sample_ID True, sr_TransportAddrs = sort [''udp://b'', ''udp://a''],
       sr_Peers = [\<lparr>st_Addr = sample_ID True, st_LastSeen = [''udp://c'' \<mapsto> 5], st_Uploaded = 7, st_Downloaded = 0\<rparr>]\<rparr>"
proof -
  have listen: "listen_at sample_url DefaultAPIEndpoint = Ok (''unix'', path_Join ['''', ''/run/inet256.sock''])"
    by (simp add: listen_at_def sample_url_def)
  have peers: "PeerStatus [sample_ID True] sample_mh =
      [\<lparr>st_Addr = sample_ID True, st_LastSeen = [''udp://c'' \<mapsto> 5], st_Uploaded = 7, st_Downloaded = 0\<rparr>]"
    by (simp add: sample_mh_def PeerStatus_map lm_LastSeen_def GetTx_def GetRx_def meters_Tx_def meters_Rx_def load_meter_def)
  have "\<exists>u. NewAdminClient sample_url DefaultAPIEndpoint = Ok u \<and> GetStatus sample_tai sample_connect u =
      Ok \<lparr>sr_MainAddr = sample_ID True, sr_TransportAddrs = sort (map id [''udp://b'', ''udp://a'']), sr_Peers = PeerStatus [sample_ID True] sample_mh\<rparr>"
    by (rule admin_status_transparent [OF sample_tai_laws _ listen sample_connect_def is_addr_sample_ID])
      (simp_all add: is_addr_sample_ID sample_mh_def lm_LastSeen_def sample_tai_def)
  then show ?thesis by (simp add: peers)
qed

end
