(* ===== verification/Http_Client.thy ===== *)
theory Http_Client
  imports Admin
begin

text \<open>
  The HTTP client of the service (\<^verbatim>\<open>src/inet256http/client.go\<close>) with its connections: how it finds the daemon, what it
  writes, and when it closes what it has dialled. The requests themselves are in \<open>Http\<close>; dialling, writing and reading
  are parameters.
\<close>

section \<open>Connections\<close>

datatype conn_event = Dialed "string \<times> string" | Wrote http_request | ConnClosed

record 'e net_ops =
  nt_dial :: "string \<times> string \<Rightarrow> 'e option"
  nt_write :: "http_request \<Rightarrow> 'e option"
  nt_read :: "http_request \<Rightarrow> 'e + nat"

datatype 'e client_error = EndpointError 'e | InvalidScheme string | NetError 'e | BadStatus nat

section \<open>The client\<close>

definition validSchemes :: "string list" where "validSchemes = [''tcp'', ''unix'']"

definition http_NewClient :: "(string \<Rightarrow> ('e, url) outcome) \<Rightarrow> string \<Rightarrow> ('e client_error, url) outcome" where
  "http_NewClient parseURL endpoint =
     obind (err_map EndpointError (parseURL endpoint)) (\<lambda>u. if u_Scheme u \<notin> set validSchemes then Err (InvalidScheme endpoint) else Ok u)"

definition client_dial :: "url \<Rightarrow> string \<times> string" where
  "client_dial u = (u_Scheme u, path_Join [u_Host u, u_Path u])"

text \<open>
  What a call does to its connection, and its result: a node has the public key and the connection, which stays open. A
  panic of the key functions is before the dialling.
\<close>

definition client_Open ::
  "('p, 's, 'r) circl \<Rightarrow> sponge \<Rightarrow> string list \<Rightarrow> 'e net_ops \<Rightarrow> url \<Rightarrow> 's private_key \<Rightarrow> conn_event list \<times> ('e client_error, 'p public_key) outcome" where
  "client_Open c sp ks N u privKey =
     (case http_client_Open c sp ks privKey of
        None \<Rightarrow> ([], Panic)
      | Some req \<Rightarrow>
          (case nt_dial N (client_dial u) of
             Some e \<Rightarrow> ([], Err (NetError e))
           | None \<Rightarrow>
               (case nt_write N req of
                  Some e \<Rightarrow> ([Dialed (client_dial u), ConnClosed], Err (NetError e))
                | None \<Rightarrow>
                    (case nt_read N req of
                       Inl e \<Rightarrow> ([Dialed (client_dial u), Wrote req, ConnClosed], Err (NetError e))
                     | Inr status \<Rightarrow>
                         if status \<noteq> 200 then ([Dialed (client_dial u), Wrote req, ConnClosed], Err (BadStatus status))
                         else ([Dialed (client_dial u), Wrote req], Ok (private_Public c privKey))))))"

text \<open>\<^verbatim>\<open>Drop\<close> defers the closing.\<close>

definition client_Drop ::
  "('p, 's, 'r) circl \<Rightarrow> sponge \<Rightarrow> string list \<Rightarrow> 'e net_ops \<Rightarrow> url \<Rightarrow> 's private_key \<Rightarrow> conn_event list \<times> ('e client_error, unit) outcome" where
  "client_Drop c sp ks N u privKey =
     (case http_client_Drop c sp ks privKey of
        None \<Rightarrow> ([], Panic)
      | Some req \<Rightarrow>
          (case nt_dial N (client_dial u) of
             Some e \<Rightarrow> ([], Err (NetError e))
           | None \<Rightarrow>
               (case nt_write N req of
                  Some e \<Rightarrow> ([Dialed (client_dial u), ConnClosed], Err (NetError e))
                | None \<Rightarrow>
                    ([Dialed (client_dial u), Wrote req, ConnClosed],
                     case nt_read N req of
                       Inl e \<Rightarrow> Err (NetError e)
                     | Inr status \<Rightarrow> if status \<noteq> 200 then Err (BadStatus status) else Ok ()))))"

text \<open>One attempt of \<^verbatim>\<open>Ping\<close>, which is retried, and the closing of a node.\<close>

definition client_Ping :: "'e net_ops \<Rightarrow> url \<Rightarrow> conn_event list \<times> 'e option" where
  "client_Ping N u = (case nt_dial N (client_dial u) of Some e \<Rightarrow> ([], Some e) | None \<Rightarrow> ([Dialed (client_dial u), ConnClosed], None))"

definition nodeClient_Close :: "conn_event list" where "nodeClient_Close = [ConnClosed]"

text \<open>The connections that are left open.\<close>

definition conns_open :: "conn_event list \<Rightarrow> int" where
  "conns_open es = int (length (filter (\<lambda>e. case e of Dialed la \<Rightarrow> True | _ \<Rightarrow> False) es)) - int (count_list es ConnClosed)"

section \<open>Properties\<close>

text \<open>
  The client leaves no connection behind: whatever the network does, a call that returns an error has closed what it
  dialled, an open node has exactly one connection, and closing the node closes it.
\<close>

theorem http_client_no_leak:
  "conns_open (fst (client_Open c sp ks N u privKey)) = (case snd (client_Open c sp ks N u privKey) of Ok pub \<Rightarrow> 1 | _ \<Rightarrow> 0) \<and>
     conns_open (fst (client_Open c sp ks N u privKey) @ (case snd (client_Open c sp ks N u privKey) of Ok pub \<Rightarrow> nodeClient_Close | _ \<Rightarrow> [])) = 0 \<and>
     conns_open (fst (client_Drop c sp ks N u privKey)) = 0 \<and> conns_open (fst (client_Ping N u)) = 0"
  by (auto simp: client_Open_def client_Drop_def client_Ping_def nodeClient_Close_def conns_open_def split: option.splits outcome.splits sum.splits)

text \<open>
  The client finds the daemon: given the endpoint on which the daemon listens, it dials the same socket, and opening a
  key succeeds exactly if the service of the daemon opens it.
\<close>

theorem http_client_opens_node:
  assumes "listen_at parseURL endpoint = Ok la" "fst la \<in> set validSchemes"
    and "circl_marshals c" "enumerates ks (Schemes DefaultPKI)" "key_ID c sp ks (BasePrivate a s) = Some i" "is_addr i"
    and "nt_dial N la = None" "\<And>req. nt_write N req = None"
    and "\<And>req. nt_read N req = (case ServeHTTP c sp ks S req x of Some (x', status, node) \<Rightarrow> Inr status | None \<Rightarrow> Inl lost)"
  shows "\<exists>u. http_NewClient parseURL endpoint = Ok u \<and>
     snd (client_Open c sp ks N u (BasePrivate a s)) =
     (case rc_Open S (BasePrivate a s) x of
        Ok (x', node) \<Rightarrow> Ok (BasePublic a (c_public c a s))
      | Err e \<Rightarrow> Err (BadStatus 500)
      | Panic \<Rightarrow> Err (NetError lost))"
proof -
  obtain u where u: "parseURL endpoint = Ok u" "la = client_dial u"
    using assms(1) by (auto simp: listen_at_def client_dial_def outcome_simps split: if_splits)
  then have "http_NewClient parseURL endpoint = Ok u" using assms(2) by (simp add: http_NewClient_def client_dial_def)
  moreover obtain req where req: "http_request_for ''CONNECT'' c sp ks (BasePrivate a s) = Some req" "rq_Method req = ''CONNECT''"
      "open_key c sp ks req = Ok (BasePrivate a s)"
    by (rule open_key_client [OF assms(3-6)])
  ultimately show ?thesis using u(2) assms(7-9)
    by (auto simp: client_Open_def http_client_Open_def ServeHTTP_def handleOpen_def split: outcome.splits)
qed

definition sample_net :: "unit net_ops" where
  "sample_net = \<lparr>nt_dial = (\<lambda>la. None), nt_write = (\<lambda>req. None),
     nt_read = (\<lambda>req. case ServeHTTP sample_circl sample_sponge default_tags sample_mem_ops req (Wrap (mem_New [])) of
       Some (x', status, node) \<Rightarrow> Inr status | None \<Rightarrow> Inl ())\<rparr>"

theorem http_client_opens_node_witness:
  "\<exists>u. http_NewClient sample_url DefaultAPIEndpoint = Ok u \<and>
     snd (client_Open sample_circl sample_sponge default_tags sample_net u (BasePrivate Ed25519 True)) = Ok (BasePublic Ed25519 (c_public sample_circl Ed25519 True))"
proof -
  have "listen_at sample_url DefaultAPIEndpoint = Ok (''unix'', path_Join ['''', ''/run/inet256.sock''])"
    by (simp add: listen_at_def sample_url_def)
  from http_client_opens_node [OF this _ sample_circl_marshals default_tags_enumerates sample_ID is_addr_sample_ID, where
      N = sample_net and S = sample_mem_ops and x = "Wrap (mem_New [])" and lost = "()"]
  show ?thesis unfolding sample_open outcome.case prod.case by (simp add: sample_net_def validSchemes_def)
qed

end
