(* ===== verification/Spec2Isabelle.thy ===== *)
theory Spec2Isabelle
  imports Ident Pki Peers Ipv6 Beacon_Net Routers Ipc Dns Mesh_Server Netutil Commands Suite Streams Dns_Wire Serving Http_Client
begin

text \<open>
  A verification development for the Go implementation of INET256, a network whose addresses are hashes
  of public keys. Paths below are relative to the root of the repository.

  \<^bold>\<open>The program.\<close> A daemon (\<^verbatim>\<open>src/inet256d\<close>) runs a server (\<^verbatim>\<open>src/mesh256\<close>) with a main node and one node for each
  client that opens a key. A node sends and receives messages between addresses: a router
  (\<^verbatim>\<open>networks/beaconnet\<close>, lifted to a network by \<^verbatim>\<open>src/mesh256/routers\<close>) forwards them from peer to peer, below
  it a multihoming swarm picks one of the addresses of a peer, and above it a stack of swarms adds loopback and
  secures the traffic end to end. Discovery services (\<^verbatim>\<open>src/discovery\<close>) fill the peer stores
  (\<^verbatim>\<open>src/internal/peers\<close>). Clients reach the server over HTTP (\<^verbatim>\<open>src/inet256http\<close>) and then speak the IPC protocol
  (\<^verbatim>\<open>src/inet256ipc\<close>); applications are the IPv6 portal (\<^verbatim>\<open>src/inet256ipv6\<close>), name resolution (\<^verbatim>\<open>src/dns256\<close>)
  and the load balancer (\<^verbatim>\<open>src/inet256lb\<close>).

  \<^bold>\<open>The theories\<close>, each with the sources it models; a definition has the name of the Go function it translates,
  with a prefix for its type where the name would clash.

  \<^item> \<open>Prelude\<close>: results of Go functions (\<open>outcome\<close>: a value, an error or a panic; \<open>option\<close> for functions that can
    only panic), slices, copying, byte strings and iteration orders of maps, with the collections of
    rewrite rules that the components use.
  \<^item> \<open>Bitstr\<close>: \<^verbatim>\<open>src/internal/bitstr\<close>. Bit strings, buffers and their packing into words and bytes; the locales
    \<open>bit_order\<close> and \<open>bit_sink\<close> are the two bit orders and the buffer behind them.
  \<^item> \<open>Ident\<close>: \<^verbatim>\<open>src/inet256/id.go\<close>. Addresses, their base64 text, which keeps their order, and bit prefixes.
  \<^item> \<open>Json\<close>: what the sources use of \<^verbatim>\<open>encoding/json\<close>: printing, parsing and decoding into structures, with the
    round trip through text.
  \<^item> \<open>Pki\<close>: \<^verbatim>\<open>src/inet256/pki.go\<close>, \<^verbatim>\<open>src/internal/crypto\<close>. Key encodings, product schemes, signing, verifying and the
    derivation of addresses; CIRCL and SHA-3 are the records \<open>circl\<close> and \<open>sponge\<close>.
  \<^item> \<open>Peers\<close>: \<^verbatim>\<open>src/internal/peers\<close>, \<^verbatim>\<open>src/discovery/discovery.go\<close> and \<^verbatim>\<open>polling.go\<close>. Peer stores, chains of stores and the
    polling loops; the locales \<open>addr_book\<close> and \<open>peer_store\<close> are the store interfaces, interpreted on the stores.
  \<^item> \<open>Futures\<close>: the tables of pending requests used by \<open>Routers\<close> and \<open>Ipc\<close>.
  \<^item> \<open>Beaconnet\<close>, \<open>Beacon_Net\<close>: \<^verbatim>\<open>networks/beaconnet\<close>. One router with its handlers, and a network of routers as a
    transition system over every order, loss and repetition of messages. The next hops never form a cycle,
    lead to their destination, and data follows them; a router keeps its state well typed and its
    information never gets older.
  \<^item> \<open>Routers\<close>: \<^verbatim>\<open>src/mesh256/routers\<close>. The network built from a router, its address queries and its message sizes.
  \<^item> \<open>Ipc\<close>: \<^verbatim>\<open>src/inet256ipc\<close>. Frames, messages, the server of a node and the client; a client's calls give what the
    node's own operations give.
  \<^item> \<open>Serving\<close>: \<^verbatim>\<open>src/inet256ipc/server.go\<close>. The goroutines of \<^verbatim>\<open>ServeNode\<close> as a transition system, and the keep alives of the client
    against the watchdog of the server.
  \<^item> \<open>Ipv6\<close>: \<^verbatim>\<open>src/inet256ipv6\<close>. The compression of addresses into \<^verbatim>\<open>0200::/7\<close> and back, the portal, NAT and mining.
  \<^item> \<open>Dns\<close>, \<open>Dns_Wire\<close>: \<^verbatim>\<open>src/dns256\<close>. Paths, records, the resolver and the handlers; the JSON texts of requests and responses, and the
    server and the client on the nodes of any service that conforms: asking over the network is asking the handler.
  \<^item> \<open>Multihoming\<close>: \<^verbatim>\<open>src/mesh256/multihoming\<close>. The link monitor, the meters and the choice of a peer's address.
  \<^item> \<open>Services\<close>: \<^verbatim>\<open>src/inet256mem\<close>, \<^verbatim>\<open>src/internal/rcsrv\<close>. Nodes in memory and the counting of references; the locale
    \<open>service\<close> is what the counting relies on, interpreted on the memory service and on the mesh server.
  \<^item> \<open>Suite\<close>: \<^verbatim>\<open>src/inet256tests/service.go\<close>. The test suite for services as executable tests; the locale \<open>conforming\<close> is
    the contract under which it passes, interpreted on the memory service and on reference counting before it, and used again
    by \<open>Dns_Wire\<close>.
  \<^item> \<open>Mesh\<close>, \<open>Mesh_Server\<close>: \<^verbatim>\<open>src/mesh256\<close>. The swarms on top of a node, with the check of senders, and the server. The
    nodes of a server form a star around the main node and live exactly while they are held.
  \<^item> \<open>Http\<close>, \<open>Http_Client\<close>: \<^verbatim>\<open>src/inet256http\<close>. The requests of the client and the server's answer; the connections of the client.
  \<^item> \<open>Landisco\<close>, \<open>Centraldisco\<close>: \<^verbatim>\<open>src/discovery/landisco\<close>, \<^verbatim>\<open>src/discovery/centraldisco\<close>. Announcements on the local network and
    in a directory, which holds the newest announcement of every address.
  \<^item> \<open>Daemon\<close>: \<^verbatim>\<open>src/inet256d\<close>. The parameters made from a configuration and the peer stores of a running daemon; what
    discovery hears reaches the node, and it never changes who the peers are.
  \<^item> \<open>Balancer\<close>: \<^verbatim>\<open>src/inet256lb\<close>. Endpoint texts and the balancer, as a transition system of its connections.
  \<^item> \<open>Admin\<close>: \<^verbatim>\<open>src/inet256d/http.go\<close>, \<^verbatim>\<open>admin.go\<close>. The routes of the daemon's HTTP server, its status page and the client that
    reads it.
  \<^item> \<open>Streams\<close>: \<^verbatim>\<open>src/inet256lb/net_endpoint.go\<close>, \<^verbatim>\<open>utp.go\<close> and \<^verbatim>\<open>PlumbRWC\<close>. The endpoints of the load balancer, the life of a connection
    with its two copies, and connections to standard input.
  \<^item> \<open>Netutil\<close>: \<^verbatim>\<open>src/internal/netutil\<close>, \<^verbatim>\<open>src/inet256/packetconn.go\<close>, \<^verbatim>\<open>src/internal/p2padapter\<close>.
  \<^item> \<open>Commands\<close>: \<^verbatim>\<open>src/inet256cmd\<close>, \<^verbatim>\<open>src/inet256ipv6/ip6.go\<close>, \<^verbatim>\<open>client/go\<close>. The commands for keys, messages and streams between their
    flags and their output; what one command writes another reads.

  The theorem of this theory spans the HTTP interface, the counting of references and the mesh server.

  \<^bold>\<open>How the code is read.\<close> State is passed explicitly, and locks make operations atomic. Where goroutines
  interleave, the steps are those of the code between two shared accesses. A panic is a value, so theorems that
  give a result also exclude a panic. Maps are partial functions, and an operation that ranges over a map takes the
  order of the iteration; the theorems hold for every order. Fixed-width integers are machine words where they can
  wrap around; addresses are byte lists, and \<open>is_addr\<close> tells that one has 32 bytes. Code from other packages is a
  parameter, with what is documented about it as a named hypothesis (\<open>circl_marshals\<close>, \<open>queue_laws\<close>, \<open>aead_laws\<close>,
  \<open>proto_laws\<close>, \<open>sponge_sized\<close>, \<open>queue_promises\<close>, \<open>tai_laws\<close>, \<open>futures_laws\<close>, \<open>wire_laws\<close>), for which each theory has an instance.

  \<^bold>\<open>Bounds.\<close> The JSON parser takes the length of its input, twice over, as fuel, which is enough for every text.
  Functions with loops that are not structural have termination proofs; the read loops run over the list of what
  they receive, and a loop that does not return is \<open>None\<close> (the handler of layered names in \<open>Dns\<close>).

  \<^bold>\<open>Not modelled.\<close> Sockets, files, timers, logging and metrics; the parsing of flags, and the commands that only
  print what another part returns or run it (\<^verbatim>\<open>status\<close>, \<^verbatim>\<open>island\<close>, \<^verbatim>\<open>central-discovery\<close>, \<^verbatim>\<open>cmd\<close>); YAML, and the metrics page; generated protobuf code; the
  benchmark, the helpers that set up test networks and the examples. Dialling, uTP and the copying of bytes in the load balancer
  are I/O, as is the creation of the TUN device. Memory that is shared by mistake, such as the buffer of the local bus, is modelled as copied.
\<close>

section \<open>Opening a node over HTTP on a mesh server\<close>

text \<open>Opening a key that is not the main node's always succeeds on a server in a reachable state.\<close>

lemma rc_Open_mesh:
  assumes "NewServer c sp ks X newSwarm realm priv peers0 = Some s0" "rc_trace (mesh_ops c sp ks X newSwarm close_err) s0 es r"
    and "circl_marshals c" "key_ID c sp ks (BasePrivate Ed25519 k) = Some i" "i \<noteq> srv_mainID (rc_service r)"
  shows "\<exists>r' n. rc_Open (mesh_ops c sp ks X newSwarm close_err) (BasePrivate Ed25519 k) r = Ok (r', n) \<and> node_LocalAddr c sp ks n = Some i"
proof -
  let ?ops = "mesh_ops c sp ks X newSwarm close_err"
  have "mesh_wf c sp ks s0" "dom (srv_nodes s0) = {}" using NewServer_wf [OF assms(1)] by simp_all
  note step = mesh.trace_in_step [OF assms(2) this]
  have ops: "sv_ID ?ops = key_ID c sp ks" "sv_Open ?ops = mesh_Open c sp ks X newSwarm" "sv_LocalAddr ?ops = node_LocalAddr c sp ks"
    by (simp_all add: mesh_ops_def)
  show ?thesis
  proof (cases "rc_nodes r i")
    case (Some x)
    then obtain n count where n: "rc_nodes r i = Some (n, count)" by (cases x) auto
    with mesh.in_stepD(3) [OF step n] show ?thesis using assms(4) by (simp add: rc_Open_def ops)
  next
    case None
    then have "handles es i = 0" using step by (auto simp: mesh.in_step_def intro: rc_counts_None)
    then have free: "srv_nodes (rc_service r) i = None" using rc_mesh_in_step(2) [OF assms(1,2)] by (metis domIff less_irrefl mem_Collect_eq)
    obtain bs where "c_marshal_pub c Ed25519 (c_public c Ed25519 k) = Ok bs" using assms(3) unfolding circl_marshals_def by blast
    then obtain pub where pub: "PublicKeyFromINET256 c X (private_Public c (BasePrivate Ed25519 k)) = Some pub" by simp
    obtain s' n where o: "mesh_Open c sp ks X newSwarm (BasePrivate Ed25519 k) (rc_service r) = Ok (s', n)" "nd_privateKey n = BasePrivate Ed25519 k"
      using assms(4,5) free pub
      by (cases "newSwarm pub (srv_realm (rc_service r))") (simp add: mesh_Open_def Let_def del: private_Public.simps PublicKeyFromINET256.simps)
    with None assms(4) show ?thesis by (simp add: rc_Open_def ops node_LocalAddr_def)
  qed
qed

lemma held_node_is_peer:
  assumes "NewServer c sp ks X newSwarm realm priv peers0 = Some s0" "rc_trace (mesh_ops c sp ks X newSwarm close_err) s0 es r" "0 < handles es i"
  shows "chain_Contains (main_peers (rc_service r)) i"
proof -
  note wf = rc_mesh_in_step [OF assms(1,2)]
  then obtain n where "srv_nodes (rc_service r) i = Some n" using assms(3) by blast
  from mesh_wfD [OF wf(1) this] show ?thesis by (simp add: main_peers_def chain_Contains_def client_ok_def ps.contains_get)
qed

text \<open>
  C4: an HTTP client joins the mesh: at any point of a daemon's life, the request that a client writes
  for an Ed25519 key other than the main node's is answered with status 200 and a node with the
  address of that key, and the main node has this address among its peers from then on.
\<close>

theorem http_open_joins_mesh:
  assumes "NewServer c sp ks X newSwarm realm priv peers0 = Some s0" "rc_trace (mesh_ops c sp ks X newSwarm close_err) s0 es r"
    and "circl_marshals c" "enumerates ks (Schemes DefaultPKI)" "key_ID c sp ks (BasePrivate Ed25519 k) = Some i" "is_addr i"
    and "i \<noteq> srv_mainID (rc_service r)"
  shows "\<exists>req r' n. http_client_Open c sp ks (BasePrivate Ed25519 k) = Some req \<and>
     ServeHTTP c sp ks (mesh_ops c sp ks X newSwarm close_err) req r = Some (r', 200, Some n) \<and> node_LocalAddr c sp ks n = Some i \<and>
     rc_trace (mesh_ops c sp ks X newSwarm close_err) s0 (es @ [Opened i]) r' \<and> chain_Contains (main_peers (rc_service r')) i"
proof -
  let ?ops = "mesh_ops c sp ks X newSwarm close_err"
  obtain req where req: "http_request_for ''CONNECT'' c sp ks (BasePrivate Ed25519 k) = Some req" "rq_Method req = ''CONNECT''"
      "open_key c sp ks req = Ok (BasePrivate Ed25519 k)"
    by (rule open_key_client [OF assms(3-6)])
  obtain r' n where o: "rc_Open ?ops (BasePrivate Ed25519 k) r = Ok (r', n)" "node_LocalAddr c sp ks n = Some i"
    using rc_Open_mesh [OF assms(1-3,5,7)] by blast
  have t: "rc_trace ?ops s0 (es @ [Opened i]) r'"
    by (rule rc_trace.opened [OF assms(2) o(1)]) (simp add: mesh_ops_def assms(5))
  have "chain_Contains (main_peers (rc_service r')) i"
    by (rule held_node_is_peer [OF assms(1) t]) (simp add: handles_snoc)
  with req o t show ?thesis by (auto simp: http_client_Open_def ServeHTTP_def handleOpen_def)
qed

theorem http_open_joins_mesh_witness:
  "\<exists>req r' n. http_client_Open sample_circl sample_sponge default_tags (BasePrivate Ed25519 False) = Some req \<and>
     ServeHTTP sample_circl sample_sponge default_tags sample_mesh_ops req (Wrap sample_server) = Some (r', 200, Some n) \<and>
     chain_Contains (main_peers (rc_service r')) (sample_ID False)"
proof -
  have "sample_ID False \<noteq> srv_mainID (rc_service (Wrap sample_server))" by (simp add: Wrap_def sample_server_def sample_IDs_differ)
  moreover have "is_addr (sample_ID False)" by code_simp
  ultimately show ?thesis
    using http_open_joins_mesh [OF sample_server_new rc_trace.start sample_circl_marshals default_tags_enumerates sample_ID] by blast
qed
end
